(* ===== verification/Prelude.thy ===== *)
theory Prelude
  imports Main "HOL-Library.Word" "HOL-Library.List_Lexorder" "HOL-Library.Char_ord"
begin

text \<open>
  The vocabulary the component theories share.

  \<^item> Machine integers: Go's \<open>int64\<close> is the type \<open>int64\<close> of 64-bit words, whose addition
    and negation wrap as Go's do; \<open>sint\<close> reads the two's complement value.
    \<open>fits64\<close> says that a mathematical integer has an \<open>int64\<close> representation.
  \<^item> Programs: code that talks to the database is a function from the database state to
    an error or a value, and a new state. \<open>and_then\<close> sequences two programs and
    stops at the first error, as \<open>if err != nil { return err }\<close> does; the state
    reached so far is kept, because undoing it is the job of the transaction wrapper.
  \<^item> Association lists with an accumulating update, for the Go maps that sum amounts.
  \<^item> The invariant principle shared by the state machines of the development.
\<close>

named_theorems prog_simps \<open>unfolding rules for programs\<close>
named_theorems keeps_intros \<open>introduction rules for state properties kept by programs\<close>

section \<open>Machine integers\<close>

type_synonym byte = "8 word"
type_synonym int64 = "64 word"

definition fits64 :: "int \<Rightarrow> bool" where
  "fits64 i \<longleftrightarrow> - (2 ^ 63) \<le> i \<and> i < 2 ^ 63"

lemma sint64_lt: "sint (x :: int64) < 2 ^ 63"
  using sint_lt [of x] by simp

lemma sint64_ge: "- (2 ^ 63) \<le> sint (x :: int64)"
  using sint_ge [of x] by simp

lemma fits64_sint [simp]: "fits64 (sint (x :: int64))"
  using sint64_lt [of x] sint64_ge [of x] by (simp add: fits64_def)

lemma sint_of_int64: "fits64 i \<Longrightarrow> sint (word_of_int i :: int64) = i"
  by (simp add: fits64_def int_word_sint)

lemma int64_of_sint [simp]: "word_of_int (sint (x :: int64)) = x"
  by simp

lemma int64_eq_iff: "(x :: int64) = y \<longleftrightarrow> sint x = sint y"
  by (metis int64_of_sint)

lemma sint64_add: "fits64 (sint x + sint y) \<Longrightarrow> sint (x + y :: int64) = sint x + sint y"
  using sint_of_int64 [of "sint x + sint y"] by simp

lemma sint64_diff: "fits64 (sint x - sint y) \<Longrightarrow> sint (x - y :: int64) = sint x - sint y"
  using sint_of_int64 [of "sint x - sint y"] by simp

lemma sint64_minus: "fits64 (- sint x) \<Longrightarrow> sint (- x :: int64) = - sint x"
  using sint_of_int64 [of "- sint x"] by simp

lemma sint64_pos_nonzero: "0 < sint (x :: int64) \<Longrightarrow> x \<noteq> 0"
  by auto

lemma sum_list_of_sint: "word_of_int (sum_list (map sint ws)) = sum_list (ws :: int64 list)"
  by (induction ws) auto

lemma sint64_sum_list:
  "fits64 (sum_list (map sint ws)) \<Longrightarrow> sint (sum_list (ws :: int64 list)) = sum_list (map sint ws)"
  by (metis sint_of_int64 sum_list_of_sint)

section \<open>Programs over a state\<close>

type_synonym ('e, 's, 'a) prog = "'s \<Rightarrow> ('e + 'a) \<times> 's"

definition ret :: "'a \<Rightarrow> ('e, 's, 'a) prog" where
  "ret x s = (Inr x, s)"

definition fail_with :: "'e \<Rightarrow> ('e, 's, 'a) prog" where
  "fail_with e s = (Inl e, s)"

definition and_then :: "('e, 's, 'a) prog \<Rightarrow> ('a \<Rightarrow> ('e, 's, 'b) prog) \<Rightarrow> ('e, 's, 'b) prog" where
  "and_then m k s = (case m s of (Inl e, s') \<Rightarrow> (Inl e, s') | (Inr x, s') \<Rightarrow> k x s')"

definition of_result :: "'e + 'a \<Rightarrow> ('e, 's, 'a) prog" where
  "of_result r s = (r, s)"

definition read_state :: "('s \<Rightarrow> 'a) \<Rightarrow> ('e, 's, 'a) prog" where
  "read_state f s = (Inr (f s), s)"

fun for_each :: "('a \<Rightarrow> ('e, 's, unit) prog) \<Rightarrow> 'a list \<Rightarrow> ('e, 's, unit) prog" where
  "for_each f [] = ret ()"
| "for_each f (x # xs) = and_then (f x) (\<lambda>_. for_each f xs)"

lemma ret_run [simp, prog_simps]: "ret x s = (r, s') \<longleftrightarrow> r = Inr x \<and> s' = s"
  by (auto simp: ret_def)

lemma fail_with_run [simp, prog_simps]: "fail_with e s = (r, s') \<longleftrightarrow> r = Inl e \<and> s' = s"
  by (auto simp: fail_with_def)

lemma of_result_run [simp, prog_simps]: "of_result v s = (r, s') \<longleftrightarrow> r = v \<and> s' = s"
  by (auto simp: of_result_def)

lemma read_state_run [simp, prog_simps]: "read_state f s = (r, s') \<longleftrightarrow> r = Inr (f s) \<and> s' = s"
  by (auto simp: read_state_def)

lemma and_then_Inr [simp, prog_simps]:
  "and_then m k s = (Inr y, s') \<longleftrightarrow> (\<exists>x s1. m s = (Inr x, s1) \<and> k x s1 = (Inr y, s'))"
  by (auto simp: and_then_def split: prod.splits sum.splits)

lemma and_then_Inl [prog_simps]:
  "and_then m k s = (Inl e, s') \<longleftrightarrow>
     m s = (Inl e, s') \<or> (\<exists>x s1. m s = (Inr x, s1) \<and> k x s1 = (Inl e, s'))"
  by (auto simp: and_then_def split: prod.splits sum.splits)

lemma and_then_run_Inr: "m s = (Inr x, s1) \<Longrightarrow> and_then m k s = k x s1"
  by (simp add: and_then_def)

lemma and_then_run_Inl: "m s = (Inl e, s1) \<Longrightarrow> and_then m k s = (Inl e, s1)"
  by (simp add: and_then_def)

lemma and_then_ret: "and_then m ret = m"
  by (auto simp: and_then_def ret_def fun_eq_iff split: prod.splits sum.splits)

lemma and_then_assoc: "and_then (and_then m f) g = and_then m (\<lambda>x. and_then (f x) g)"
  by (auto simp: and_then_def fun_eq_iff split: prod.splits sum.splits)

lemma for_each_append:
  "for_each f (xs @ ys) = and_then (for_each f xs) (\<lambda>_. for_each f ys)"
proof (induction xs)
  case Nil
  then show ?case by (simp add: and_then_def ret_def fun_eq_iff)
next
  case (Cons x xs)
  then show ?case by (simp add: and_then_assoc)
qed

text \<open>
  \<open>keeps P m\<close>: the program \<open>m\<close> keeps the state property \<open>P\<close>, on success and on failure.
\<close>

definition keeps :: "('s \<Rightarrow> bool) \<Rightarrow> ('e, 's, 'a) prog \<Rightarrow> bool" where
  "keeps P m \<longleftrightarrow> (\<forall>s r s'. P s \<longrightarrow> m s = (r, s') \<longrightarrow> P s')"

lemma keepsI: "(\<And>s r s'. P s \<Longrightarrow> m s = (r, s') \<Longrightarrow> P s') \<Longrightarrow> keeps P m"
  by (auto simp: keeps_def)

lemma keepsD: "keeps P m \<Longrightarrow> m s = (r, s') \<Longrightarrow> P s \<Longrightarrow> P s'"
  by (auto simp: keeps_def)

lemma keeps_pure [keeps_intros]:
  "keeps P (ret x)" "keeps P (fail_with e)" "keeps P (of_result v)" "keeps P (read_state f)"
  by (auto simp: keeps_def)

lemma keeps_and_then [keeps_intros]:
  assumes "keeps P m" and "\<And>x. keeps P (k x)"
  shows "keeps P (and_then m k)"
proof (rule keepsI)
  fix s r s' assume s: "P s" and run: "and_then m k s = (r, s')"
  show "P s'"
  proof (cases "m s")
    case (Pair v s1)
    with assms(1) s have "P s1" by (auto dest: keepsD)
    with Pair run assms(2) show ?thesis
      by (cases v) (auto simp: and_then_run_Inl and_then_run_Inr dest: keepsD)
  qed
qed

lemma keeps_for_each [keeps_intros]: "(\<And>x. keeps P (f x)) \<Longrightarrow> keeps P (for_each f xs)"
  by (induction xs) (auto intro: keeps_intros)

lemma keeps_if [keeps_intros]:
  "keeps P m \<Longrightarrow> keeps P m' \<Longrightarrow> keeps P (if b then m else m')"
  by simp

section \<open>Accumulating association lists\<close>

text \<open>
  \<open>m[k] += d\<close> on a Go map whose keys are remembered in the order of their first
  insertion; a missing key counts as zero, Go's zero value.
\<close>

fun add_at :: "'k \<Rightarrow> 'v \<Rightarrow> ('k \<times> 'v) list \<Rightarrow> ('k \<times> 'v::plus) list" where
  "add_at k d [] = [(k, d)]"
| "add_at k d ((k', v) # m) = (if k' = k then (k', v + d) # m else (k', v) # add_at k d m)"

definition total_at :: "('k \<times> 'v::zero) list \<Rightarrow> 'k \<Rightarrow> 'v" where
  "total_at m k = (case map_of m k of None \<Rightarrow> 0 | Some v \<Rightarrow> v)"

lemma keys_add_at: "fst ` set (add_at k d m) = insert k (fst ` set m)"
proof (induction m)
  case (Cons kv m)
  then show ?case by (cases kv) (simp add: insert_commute)
qed simp

lemma distinct_add_at: "distinct (map fst m) \<Longrightarrow> distinct (map fst (add_at k d m))"
proof (induction m)
  case (Cons kv m)
  then show ?case
    using keys_add_at [of k d m] by (cases kv) (auto simp: image_iff)
qed simp

lemma total_at_add_at:
  "total_at (add_at k (d :: 'v::monoid_add) m) k' =
     (if k' = k then total_at m k + d else total_at m k')"
  by (induction m) (auto simp: total_at_def)

lemma total_at_Some: "distinct (map fst m) \<Longrightarrow> (k, v) \<in> set m \<Longrightarrow> total_at m k = v"
  by (auto simp: total_at_def dest: map_of_is_SomeI)

lemma total_at_absent: "k \<notin> fst ` set m \<Longrightarrow> total_at m k = 0"
  by (simp add: total_at_def map_of_eq_None_iff [THEN iffD2])

section \<open>Rows and keys\<close>

text \<open>The first row with a given key: a lookup by primary key or by a unique index.\<close>

definition find_row :: "('r \<Rightarrow> 'k) \<Rightarrow> 'k \<Rightarrow> 'r list \<Rightarrow> 'r option" where
  "find_row key k rows = find (\<lambda>r. key r = k) rows"

definition update_rows :: "('r \<Rightarrow> bool) \<Rightarrow> ('r \<Rightarrow> 'r) \<Rightarrow> 'r list \<Rightarrow> 'r list" where
  "update_rows p f rows = map (\<lambda>r. if p r then f r else r) rows"

lemma find_row_Some_iff:
  assumes "distinct (map key rows)"
  shows "find_row key k rows = Some r \<longleftrightarrow> r \<in> set rows \<and> key r = k"
  using assms by (induction rows) (auto simp: find_row_def)

lemma find_row_SomeD: "find_row key k rows = Some r \<Longrightarrow> r \<in> set rows \<and> key r = k"
  by (induction rows) (auto simp: find_row_def split: if_splits)

lemma find_row_None_iff: "find_row key k rows = None \<longleftrightarrow> k \<notin> key ` set rows"
  by (auto simp: find_row_def find_None_iff)

lemma find_row_append:
  "find_row key k (rows @ rows') =
     (case find_row key k rows of None \<Rightarrow> find_row key k rows' | Some r \<Rightarrow> Some r)"
  by (induction rows) (auto simp: find_row_def)

lemma find_row_simps [simp]:
  "find_row key k [] = None"
  "find_row key k (r # rows) = (if key r = k then Some r else find_row key k rows)"
  by (simp_all add: find_row_def)

lemma find_row_update_rows:
  assumes "\<And>r. key (f r) = key r"
  shows "find_row key k (update_rows p f rows) =
     map_option (\<lambda>r. if p r then f r else r) (find_row key k rows)"
  using assms by (induction rows) (auto simp: update_rows_def)

lemma map_key_update_rows [simp]:
  "(\<And>r. key (f r) = key r) \<Longrightarrow> map key (update_rows p f rows) = map key rows"
  by (induction rows) (auto simp: update_rows_def)

section \<open>Sums over lists\<close>

lemma sum_list_filter_split:
  "sum_list (map f xs) =
     sum_list (map f (filter p xs)) + sum_list (map f (filter (\<lambda>x. \<not> p x) xs))"
  for f :: "'a \<Rightarrow> 'b::comm_monoid_add"
  by (induction xs) (auto simp: ac_simps)

lemma sum_list_group:
  fixes f :: "'a \<Rightarrow> 'b::comm_monoid_add"
  assumes "distinct ks" and "g ` set xs \<subseteq> set ks"
  shows "sum_list (map (\<lambda>k. sum_list (map f (filter (\<lambda>x. g x = k) xs))) ks) = sum_list (map f xs)"
  using assms
proof (induction ks arbitrary: xs)
  case (Cons k ks)
  let ?ys = "filter (\<lambda>x. g x \<noteq> k) xs"
  have same: "filter (\<lambda>x. g x = k') ?ys = filter (\<lambda>x. g x = k') xs" if "k' \<in> set ks" for k'
    using that Cons.prems(1) by (induction xs) auto
  have "sum_list (map (\<lambda>k'. sum_list (map f (filter (\<lambda>x. g x = k') xs))) ks)
      = sum_list (map (\<lambda>k'. sum_list (map f (filter (\<lambda>x. g x = k') ?ys))) ks)"
    using same by (intro arg_cong [of _ _ sum_list] map_cong refl) simp
  also have "\<dots> = sum_list (map f ?ys)"
    using Cons.prems by (intro Cons.IH) auto
  finally show ?case
    by (simp add: sum_list_filter_split [of f xs "\<lambda>x. g x = k"])
qed simp

lemma sum_list_map_cong: "(\<And>x. x \<in> set xs \<Longrightarrow> f x = g x) \<Longrightarrow> sum_list (map f xs) = sum_list (map g xs)"
  by (metis map_cong)

section \<open>Invariants of step relations\<close>

text \<open>
  What a state machine of this development promises: a property that every step keeps
  holds in everything reached from a state that has it.
\<close>

locale step_invariant =
  fixes step :: "'s \<Rightarrow> 's \<Rightarrow> bool"
    and inv :: "'s \<Rightarrow> bool"
  assumes step_keeps: "step s t \<Longrightarrow> inv s \<Longrightarrow> inv t"
begin

lemma reached_inv: "step\<^sup>*\<^sup>* s t \<Longrightarrow> inv s \<Longrightarrow> inv t"
  by (induction rule: rtranclp_induct) (auto intro: step_keeps)

end

end
