(* ===== verification/Errors.thy ===== *)
theory Errors
  imports Prelude
begin

text \<open>
  The errors of the ledger package (\<open>src/ledger/errors.go\<close>). Go code wraps a sentinel
  with \<open>fmt.Errorf("%w: ...")\<close> and callers test it with \<open>errors.Is\<close>; the model keeps the
  sentinel and drops the message. Errors that carry no sentinel are what the database
  reports (\<open>DbError\<close>), a \<open>numeric\<close> that does not fit the \<open>int64\<close> it is scanned into
  (\<open>ScanOutOfRange\<close>).
\<close>

datatype pg_error =
    UniqueViolation string      \<comment> \<open>SQLSTATE 23505, with the violated index\<close>
  | ForeignKeyViolation
  | CheckViolation
  | BigintOutOfRange
  | SequenceExhausted
  | InFailedTransaction         \<comment> \<open>SQLSTATE 25P02: the transaction was aborted earlier\<close>
  | NoSuchRelation
  | RaisedException             \<comment> \<open>a trigger's \<open>RAISE EXCEPTION\<close>\<close>

datatype ledger_error =
    ErrInvalidAccount
  | ErrInvalidType
  | ErrInvalidCurrency
  | ErrAccountExists
  | ErrUnknownAccount
  | ErrAccountArchived
  | ErrTooFewPostings
  | ErrUnbalanced
  | ErrCurrencyMismatch
  | ErrNonPositiveAmount
  | ErrInvalidDirection
  | ErrMissingReference
  | ErrDuplicateReference
  | ErrUnknownTransfer
  | ErrInsufficientFunds
  | ErrUnknownHold
  | ErrHoldNotActive
  | ErrCaptureMismatch
  | ErrHoldExpired
  | ErrAlreadyReversed
  | DbError pg_error
  | ScanOutOfRange

end
