(* ===== verification/Money.thy ===== *)
theory Money
  imports Errors
begin

text \<open>
  \<open>src/ledger/money.go\<close>: exact amounts in minor units, their text and JSON forms and the
  check of a currency code. \<open>strconv.FormatInt\<close> and \<open>strconv.ParseInt\<close> (base 10, 64 bits)
  are written out; a JSON document is the tree the decoder sees. The lemmas show that
  printing and parsing are inverse on every \<open>int64\<close>, that a JSON number is never read
  as an amount, and what a valid currency code is.
\<close>

section \<open>Decimal text\<close>

definition digit_char :: "nat \<Rightarrow> char" where
  "digit_char d = char_of (48 + d)"

definition is_digit :: "char \<Rightarrow> bool" where
  "is_digit c \<longleftrightarrow> 48 \<le> (of_char c :: nat) \<and> (of_char c :: nat) \<le> 57"

definition digit_val :: "char \<Rightarrow> nat" where
  "digit_val c = of_char c - 48"

fun format_nat :: "nat \<Rightarrow> string" where
  "format_nat n = (if n < 10 then [digit_char n] else format_nat (n div 10) @ [digit_char (n mod 10)])"

declare format_nat.simps [simp del]

definition FormatInt :: "int64 \<Rightarrow> string" where
  "FormatInt w = (if sint w < 0 then CHR ''-'' # format_nat (nat (- sint w)) else format_nat (nat (sint w)))"

fun parse_digits :: "nat \<Rightarrow> string \<Rightarrow> nat option" where
  "parse_digits acc [] = Some acc"
| "parse_digits acc (c # cs) = (if is_digit c then parse_digits (acc * 10 + digit_val c) cs else None)"

text \<open>
  \<open>strconv.ParseInt(s, 10, 64)\<close>: an optional sign, at least one digit, and a value that
  fits. Syntax and range errors are not told apart (no caller does).
\<close>

definition parse_unsigned :: "string \<Rightarrow> nat option" where
  "parse_unsigned s = (if s = [] then None else parse_digits 0 s)"

definition ParseInt :: "string \<Rightarrow> int64 option" where
  "ParseInt s =
     (case s of
        [] \<Rightarrow> None
      | c # cs \<Rightarrow>
          let neg = (c = CHR ''-'');
              body = (if c = CHR ''-'' \<or> c = CHR ''+'' then cs else s)
          in case parse_unsigned body of
               None \<Rightarrow> None
             | Some n \<Rightarrow>
                 let i = (if neg then - int n else int n)
                 in if fits64 i then Some (word_of_int i) else None)"

lemma is_digit_digit_char: "d < 10 \<Longrightarrow> is_digit (digit_char d)"
  by (simp add: is_digit_def digit_char_def)

lemma digit_val_digit_char: "d < 10 \<Longrightarrow> digit_val (digit_char d) = d"
  by (simp add: digit_val_def digit_char_def)

lemma parse_digits_append:
  "parse_digits acc (xs @ ys) = Option.bind (parse_digits acc xs) (\<lambda>n. parse_digits n ys)"
  by (induction xs arbitrary: acc) auto

lemma format_nat_nonempty: "format_nat n \<noteq> []"
  by (subst format_nat.simps) simp

lemma parse_format_nat: "parse_digits 0 (format_nat n) = Some n"
proof (induction n rule: format_nat.induct)
  case (1 n)
  show ?case
  proof (cases "n < 10")
    case True
    then show ?thesis
      by (subst format_nat.simps) (simp add: is_digit_digit_char digit_val_digit_char)
  next
    case False
    with 1 have "parse_digits 0 (format_nat (n div 10)) = Some (n div 10)" by simp
    with False show ?thesis
      by (subst format_nat.simps)
         (simp add: parse_digits_append is_digit_digit_char digit_val_digit_char)
  qed
qed

lemma format_nat_digits: "c \<in> set (format_nat n) \<Longrightarrow> is_digit c"
proof (induction n rule: format_nat.induct)
  case (1 n)
  then show ?case
    by (cases "n < 10")
       (auto simp: is_digit_digit_char format_nat.simps [of n])
qed

lemma sign_not_digit: "\<not> is_digit (CHR ''-'')" "\<not> is_digit (CHR ''+'')"
  by (simp_all add: is_digit_def)

lemma format_nat_no_sign: "format_nat n = c # cs \<Longrightarrow> c \<noteq> CHR ''-'' \<and> c \<noteq> CHR ''+''"
  using format_nat_digits [of c n] sign_not_digit by auto

lemma ParseInt_FormatInt_raw: "ParseInt (FormatInt w) = Some w"
proof (cases "sint w < 0")
  case True
  then have "fits64 (- int (nat (- sint w)))" by simp
  with True show ?thesis
    by (simp add: FormatInt_def ParseInt_def parse_unsigned_def format_nat_nonempty parse_format_nat)
next
  case False
  then obtain c cs where c: "format_nat (nat (sint w)) = c # cs"
    using format_nat_nonempty by (meson neq_Nil_conv)
  with parse_format_nat [of "nat (sint w)"] False format_nat_no_sign [OF c] show ?thesis
    by (simp add: FormatInt_def ParseInt_def parse_unsigned_def)
qed

lemma FormatInt_inj: "FormatInt w = FormatInt w' \<Longrightarrow> w = w'"
  by (metis ParseInt_FormatInt_raw option.inject)

section \<open>Money\<close>

record money =
  m_amount :: int64
  m_currency :: string

definition Amount :: "int64 \<Rightarrow> string \<Rightarrow> money" where
  "Amount minor cur = \<lparr>m_amount = minor, m_currency = cur\<rparr>"

definition IsZero_money :: "money \<Rightarrow> bool" where
  "IsZero_money m \<longleftrightarrow> m_amount m = 0"

definition String_money :: "money \<Rightarrow> string" where
  "String_money m = FormatInt (m_amount m) @ '' '' @ m_currency m"

section \<open>JSON\<close>

datatype json =
    JNull
  | JBool bool
  | JNumber string
  | JString string
  | JArray "json list"
  | JObject "(string \<times> json) list"

text \<open>\<open>MarshalJSON\<close> as the JSON value its text denotes: the amount is a string.\<close>

definition MarshalJSON :: "money \<Rightarrow> json" where
  "MarshalJSON m = JObject [(''amount'', JString (FormatInt (m_amount m))), (''currency'', JString (m_currency m))]"

datatype money_error = JsonTypeError | AmountNotString | AmountNotInteger

definition ascii_lower :: "char \<Rightarrow> char" where
  "ascii_lower c = (if 65 \<le> (of_char c :: nat) \<and> (of_char c :: nat) \<le> 90 then char_of ((of_char c :: nat) + 32) else c)"

text \<open>
  The decoding of one object into the struct \<open>raw\<close> of \<open>UnmarshalJSON\<close>: keys match
  without regard to case, the last occurrence of a key wins, other keys are ignored.
\<close>

fun decode_raw :: "(string \<times> json) list \<Rightarrow> json option \<times> string \<Rightarrow> money_error + (json option \<times> string)" where
  "decode_raw [] raw = Inr raw"
| "decode_raw ((k, v) # kvs) (a, c) =
     (if map ascii_lower k = ''amount'' then decode_raw kvs (Some v, c)
      else if map ascii_lower k = ''currency'' then
        (case v of JString s \<Rightarrow> decode_raw kvs (a, s) | JNull \<Rightarrow> decode_raw kvs (a, c) | _ \<Rightarrow> Inl JsonTypeError)
      else decode_raw kvs (a, c))"

definition UnmarshalJSON :: "json \<Rightarrow> money_error + money" where
  "UnmarshalJSON b =
     (case (case b of JNull \<Rightarrow> Inr (None, []) | JObject kvs \<Rightarrow> decode_raw kvs (None, []) | _ \<Rightarrow> Inl JsonTypeError) of
        Inl e \<Rightarrow> Inl e
      | Inr (a, cur) \<Rightarrow>
          (case a of
             Some (JString digits) \<Rightarrow>
               (case ParseInt digits of
                  None \<Rightarrow> Inl AmountNotInteger
                | Some n \<Rightarrow> Inr \<lparr>m_amount = n, m_currency = cur\<rparr>)
           | _ \<Rightarrow> Inl AmountNotString))"

section \<open>Currency codes\<close>

definition validCurrency :: "string \<Rightarrow> bool" where
  "validCurrency c \<longleftrightarrow>
     length c = 3 \<and> (\<forall>i \<in> set [0..<3]. \<not> (of_char (c ! i) < (65 :: nat) \<or> of_char (c ! i) > (90 :: nat)))"

lemma validCurrency_length: "validCurrency c \<Longrightarrow> length c = 3"
  by (simp add: validCurrency_def)

lemma unmarshal_marshal: "UnmarshalJSON (MarshalJSON m) = Inr m"
proof -
  have "map ascii_lower ''amount'' = ''amount''" "map ascii_lower ''currency'' = ''currency''"
    by (simp_all add: ascii_lower_def)
  then show ?thesis
    by (simp add: UnmarshalJSON_def MarshalJSON_def ParseInt_FormatInt_raw)
qed

section \<open>Properties of the wire form\<close>

lemma decode_raw_Some:
  "decode_raw kvs (a0, c0) = Inr (Some v, c) \<Longrightarrow>
     a0 = Some v \<or> (\<exists>k. (k, v) \<in> set kvs \<and> map ascii_lower k = ''amount'')"
proof (induction kvs arbitrary: a0 c0)
  case Nil
  then show ?case by simp
next
  case (Cons kv kvs)
  obtain k w where kv: "kv = (k, w)" by (cases kv)
  show ?case
  proof (cases "map ascii_lower k = ''amount''")
    case True
    with Cons.prems kv have "decode_raw kvs (Some w, c0) = Inr (Some v, c)" by (simp del: map_eq_Cons_conv)
    from Cons.IH [OF this] kv True show ?thesis by auto
  next
    case False
    with Cons.prems kv obtain c1 where "decode_raw kvs (a0, c1) = Inr (Some v, c)"
      by (simp split: if_splits json.splits)
    from Cons.IH [OF this] show ?thesis by (metis list.set_intros(2))
  qed
qed

text \<open>
  Money survives its JSON form: decoding what \<open>MarshalJSON\<close> writes gives the same amount,
  to the last of its 64 bits, and the same currency.
\<close>

lemma money_json_roundtrip: "UnmarshalJSON (MarshalJSON m) = Inr m"
  by (rule unmarshal_marshal)

lemma unmarshal_object:
  assumes "UnmarshalJSON (JObject kvs) = Inr m"
  obtains digits cur where "decode_raw kvs (None, []) = Inr (Some (JString digits), cur)"
    "ParseInt digits = Some (m_amount m)"
proof (cases "decode_raw kvs (None, [])")
  case (Inl e)
  with assms show thesis by (simp add: UnmarshalJSON_def)
next
  case (Inr r)
  obtain a cur where r: "r = (a, cur)" by (cases r)
  with Inr assms that show thesis
    by (cases a) (auto simp: UnmarshalJSON_def split: json.splits option.splits)
qed

text \<open>
  \<open>UnmarshalJSON\<close> accepts an amount only as a string of decimal digits that \<open>ParseInt\<close> reads as
  an \<open>int64\<close>: whenever it succeeds, the value is an object with a member named amount that
  holds such a string. A JSON number, which a client may have rounded through a float, is
  never accepted.
\<close>

lemma money_json_amount_is_string:
  assumes "UnmarshalJSON b = Inr m"
  shows "\<exists>kvs k digits. b = JObject kvs \<and> (k, JString digits) \<in> set kvs
    \<and> map ascii_lower k = ''amount'' \<and> ParseInt digits = Some (m_amount m)"
proof -
  from assms obtain kvs where b: "b = JObject kvs"
    by (cases b) (simp_all add: UnmarshalJSON_def)
  obtain digits cur where raw: "decode_raw kvs (None, []) = Inr (Some (JString digits), cur)"
    and n: "ParseInt digits = Some (m_amount m)"
    using assms unfolding b by (rule unmarshal_object)
  from decode_raw_Some [OF raw] obtain k where k: "(k, JString digits) \<in> set kvs" "map ascii_lower k = ''amount''"
    by (elim disjE exE conjE) (simp only: option.distinct, assumption)
  show ?thesis by (intro exI conjI) (rule b, rule k, rule k, rule n)
qed

end
