(* ===== verification/Account.thy ===== *)
theory Account
  imports Money
begin

text \<open>
  \<open>src/ledger/account.go\<close> and \<open>normalise\<close> of \<open>src/ledger/query.go\<close>. Account types and
  posting directions are Go strings with a validity test, and stay strings here:
  the code has to cope with values outside the five types and the two directions.
\<close>

type_synonym AccountType = string
type_synonym Direction = string

definition Asset :: AccountType where "Asset = ''asset''"
definition Liability :: AccountType where "Liability = ''liability''"
definition Equity :: AccountType where "Equity = ''equity''"
definition Income :: AccountType where "Income = ''income''"
definition Expense :: AccountType where "Expense = ''expense''"

lemmas account_type_defs = Asset_def Liability_def Equity_def Income_def Expense_def

definition valid_type :: "AccountType \<Rightarrow> bool" where
  "valid_type t \<longleftrightarrow> t \<in> set [Asset, Liability, Equity, Income, Expense]"

definition debitNormal :: "AccountType \<Rightarrow> bool" where
  "debitNormal t \<longleftrightarrow> t = Asset \<or> t = Expense"

record account =
  a_id :: string
  a_type :: AccountType
  a_currency :: string
  a_archived :: bool
  a_allow_negative :: bool

definition Debit :: Direction where "Debit = ''debit''"
definition Credit :: Direction where "Credit = ''credit''"

definition valid_dir :: "Direction \<Rightarrow> bool" where
  "valid_dir d \<longleftrightarrow> d = Debit \<or> d = Credit"

definition signed :: "Direction \<Rightarrow> int64 \<Rightarrow> int64" where
  "signed d minor = (if d = Credit then - minor else minor)"

definition normalise :: "int64 \<Rightarrow> AccountType \<Rightarrow> int64" where
  "normalise raw t = (if debitNormal t then raw else - raw)"

text \<open>The side of a balance over the integers, the value \<open>normalise\<close> has without wrap-around.\<close>

definition normal_side :: "AccountType \<Rightarrow> int \<Rightarrow> int" where
  "normal_side t i = (if debitNormal t then i else - i)"

text \<open>A movement over the integers: \<open>CASE direction WHEN 'debit' THEN amount ELSE -amount END\<close>.\<close>

definition sql_signed :: "Direction \<Rightarrow> int64 \<Rightarrow> int" where
  "sql_signed d amount = (if d = Debit then sint amount else - sint amount)"

definition flip_dir :: "Direction \<Rightarrow> Direction" where
  "flip_dir d = (if d = Credit then Debit else Credit)"

lemma debit_neq_credit [simp]: "Debit \<noteq> Credit" "Credit \<noteq> Debit"
  by (simp_all add: Debit_def Credit_def)

lemma valid_dir_simps [simp]: "valid_dir Debit" "valid_dir Credit"
  by (simp_all add: valid_dir_def)

lemma signed_simps [simp]: "signed Debit x = x" "signed Credit x = - x"
  by (simp_all add: signed_def)

lemma valid_dir_flip [simp]: "valid_dir (flip_dir d)"
  by (simp add: flip_dir_def valid_dir_def)

lemma flip_flip [simp]: "valid_dir d \<Longrightarrow> flip_dir (flip_dir d) = d"
  by (auto simp: flip_dir_def valid_dir_def)

lemma signed_flip: "valid_dir d \<Longrightarrow> signed (flip_dir d) x = - signed d x"
  by (auto simp: flip_dir_def valid_dir_def)

lemma signed_of_sql_signed: "valid_dir d \<Longrightarrow> word_of_int (sql_signed d x) = signed d x"
  by (auto simp: valid_dir_def sql_signed_def)

lemma abs_sql_signed: "\<bar>sql_signed d x\<bar> = \<bar>sint x\<bar>"
  by (simp add: sql_signed_def)

lemma normalise_of_normal_side:
  "normalise (word_of_int i) t = word_of_int (normal_side t i)"
  by (simp add: normalise_def normal_side_def)

lemma sint_normalise:
  "fits64 (normal_side t (sint raw)) \<Longrightarrow> sint (normalise raw t) = normal_side t (sint raw)"
  by (metis int64_of_sint normalise_of_normal_side sint_of_int64)

lemma normal_side_add: "normal_side t (i + j) = normal_side t i + normal_side t j"
  by (simp add: normal_side_def)

lemma normal_side_abs: "\<bar>normal_side t i\<bar> = \<bar>i\<bar>"
  by (simp add: normal_side_def)

end
