(* ===== verification/Journal.thy ===== *)
theory Journal
  imports Account
begin

text \<open>
  \<open>src/ledger/transfer.go\<close>: postings, transfers, the per-currency net and \<open>Validate\<close>.
  Times are nanoseconds since the Unix epoch; Go's zero \<open>time.Time\<close> is 1 January of
  year 1. The net is an \<open>int64\<close> sum, so it wraps; the lemmas relate it to the sum over
  the integers and say when \<open>Validate\<close> decides the sum-zero rule exactly.
\<close>

type_synonym time = int

definition zero_time :: time where
  "zero_time = - 62135596800000000000"

definition IsZero_time :: "time \<Rightarrow> bool" where
  "IsZero_time t \<longleftrightarrow> t = zero_time"

record posting =
  p_account :: string
  p_amount :: money
  p_dir :: Direction

record transfer =
  t_reference :: string
  t_description :: string
  t_postings :: "posting list"
  t_posted_at :: time
  t_reverses :: int

definition Transfer_Debit :: "transfer \<Rightarrow> string \<Rightarrow> money \<Rightarrow> transfer" where
  "Transfer_Debit t acc m = t\<lparr>t_postings := t_postings t @ [\<lparr>p_account = acc, p_amount = m, p_dir = Debit\<rparr>]\<rparr>"

definition Transfer_Credit :: "transfer \<Rightarrow> string \<Rightarrow> money \<Rightarrow> transfer" where
  "Transfer_Credit t acc m = t\<lparr>t_postings := t_postings t @ [\<lparr>p_account = acc, p_amount = m, p_dir = Credit\<rparr>]\<rparr>"

definition signed_of :: "posting \<Rightarrow> int64" where
  "signed_of p = signed (p_dir p) (m_amount (p_amount p))"

abbreviation p_currency :: "posting \<Rightarrow> string" where
  "p_currency p \<equiv> m_currency (p_amount p)"

text \<open>\<open>Net\<close>: the map from currency to debit minus credit, built by the loop over the postings.\<close>

fun net_loop :: "posting list \<Rightarrow> (string \<times> int64) list \<Rightarrow> (string \<times> int64) list" where
  "net_loop [] net = net"
| "net_loop (p # ps) net = net_loop ps (add_at (p_currency p) (signed_of p) net)"

definition Net :: "transfer \<Rightarrow> (string \<times> int64) list" where
  "Net t = net_loop (t_postings t) []"

definition validate_posting :: "posting \<Rightarrow> ledger_error option" where
  "validate_posting p =
     (if p_account p = [] then Some ErrInvalidAccount
      else if \<not> valid_dir (p_dir p) then Some ErrInvalidDirection
      else if \<not> validCurrency (p_currency p) then Some ErrInvalidCurrency
      else if sint (m_amount (p_amount p)) \<le> 0 then Some ErrNonPositiveAmount
      else None)"

fun validate_postings :: "posting list \<Rightarrow> ledger_error option" where
  "validate_postings [] = None"
| "validate_postings (p # ps) =
     (case validate_posting p of Some e \<Rightarrow> Some e | None \<Rightarrow> validate_postings ps)"

definition Validate :: "transfer \<Rightarrow> ledger_error option" where
  "Validate t =
     (if t_reference t = [] then Some ErrMissingReference
      else if length (t_postings t) < 2 then Some ErrTooFewPostings
      else case validate_postings (t_postings t) of
             Some e \<Rightarrow> Some e
           | None \<Rightarrow> if list_ex (\<lambda>(cur, net). net \<noteq> 0) (Net t) then Some ErrUnbalanced else None)"

section \<open>The net as a sum\<close>

lemma net_loop_total:
  "total_at (net_loop ps net) c =
     total_at net c + sum_list (map signed_of (filter (\<lambda>p. p_currency p = c) ps))"
  by (induction ps arbitrary: net) (auto simp: total_at_add_at)

lemma net_loop_distinct: "distinct (map fst net) \<Longrightarrow> distinct (map fst (net_loop ps net))"
  by (induction ps arbitrary: net) (auto simp: distinct_add_at)

lemma net_loop_keys: "fst ` set (net_loop ps net) = p_currency ` set ps \<union> fst ` set net"
  by (induction ps arbitrary: net) (auto simp: keys_add_at)

lemma Net_entry:
  "(c, v) \<in> set (Net t) \<Longrightarrow> v = sum_list (map signed_of (filter (\<lambda>p. p_currency p = c) (t_postings t)))"
  using total_at_Some [of "Net t" c v] net_loop_distinct [of "[]"] net_loop_total [of "t_postings t" "[]" c]
  by (simp add: Net_def total_at_def [of "[]"])

lemma Net_balanced_iff:
  "\<not> list_ex (\<lambda>(cur, net). net \<noteq> 0) (Net t) \<longleftrightarrow>
     (\<forall>c. sum_list (map signed_of (filter (\<lambda>p. p_currency p = c) (t_postings t))) = 0)"
proof -
  let ?net = "\<lambda>c. sum_list (map signed_of (filter (\<lambda>p. p_currency p = c) (t_postings t)))"
  have keys: "fst ` set (Net t) = p_currency ` set (t_postings t)"
    using net_loop_keys [of "t_postings t" "[]"] by (simp add: Net_def)
  have "?net c = 0" if "\<forall>x \<in> set (Net t). snd x = 0" for c
  proof (cases "c \<in> p_currency ` set (t_postings t)")
    case True
    with keys obtain v where "(c, v) \<in> set (Net t)" by force
    with that Net_entry [of c v t] show ?thesis by force
  next
    case False
    then have "filter (\<lambda>p. p_currency p = c) (t_postings t) = []"
      by (auto simp: filter_empty_conv)
    then show ?thesis by simp
  qed
  moreover have "snd x = 0" if "\<forall>c. ?net c = 0" "x \<in> set (Net t)" for x
    using that Net_entry [of "fst x" "snd x" t] by simp
  ultimately have "(\<forall>x \<in> set (Net t). snd x = 0) \<longleftrightarrow> (\<forall>c. ?net c = 0)"
    by blast
  moreover have "\<not> list_ex (\<lambda>(cur, net). net \<noteq> 0) (Net t) \<longleftrightarrow> (\<forall>x \<in> set (Net t). snd x = 0)"
    unfolding list_ex_iff by (simp add: split_beta)
  ultimately show ?thesis by (rule trans [rotated])
qed

lemma validate_postings_None_iff:
  "validate_postings ps = None \<longleftrightarrow> (\<forall>p \<in> set ps. validate_posting p = None)"
  by (induction ps) (auto split: option.splits)

definition good_posting :: "posting \<Rightarrow> bool" where
  "good_posting p \<longleftrightarrow> p_account p \<noteq> [] \<and> valid_dir (p_dir p) \<and> validCurrency (p_currency p)
     \<and> 0 < sint (m_amount (p_amount p))"

lemma validate_posting_None_iff: "validate_posting p = None \<longleftrightarrow> good_posting p"
  by (auto simp: validate_posting_def good_posting_def)

lemma Validate_None_iff:
  "Validate t = None \<longleftrightarrow>
     t_reference t \<noteq> [] \<and> 2 \<le> length (t_postings t) \<and> (\<forall>p \<in> set (t_postings t). good_posting p)
     \<and> (\<forall>c. sum_list (map signed_of (filter (\<lambda>p. p_currency p = c) (t_postings t))) = 0)"
  using Net_balanced_iff [of t] validate_postings_None_iff [of "t_postings t"]
  by (cases "validate_postings (t_postings t)")
     (auto simp: Validate_def validate_posting_None_iff not_less)

lemma Validate_good: "Validate t = None \<Longrightarrow> p \<in> set (t_postings t) \<Longrightarrow> good_posting p"
  by (simp add: Validate_None_iff)

section \<open>The net over the integers\<close>

text \<open>The exact movement of a posting, and the exact net of a transfer in a currency.\<close>

definition exact_of :: "posting \<Rightarrow> int" where
  "exact_of p = sql_signed (p_dir p) (m_amount (p_amount p))"

definition exact_net :: "posting list \<Rightarrow> string \<Rightarrow> int" where
  "exact_net ps c = sum_list (map exact_of (filter (\<lambda>p. p_currency p = c) ps))"

text \<open>The volume of a transfer: the sum of its amounts. It bounds every partial sum.\<close>

definition volume :: "posting list \<Rightarrow> int" where
  "volume ps = sum_list (map (\<lambda>p. \<bar>sint (m_amount (p_amount p))\<bar>) ps)"

lemma volume_nonneg: "0 \<le> volume ps"
  by (induction ps) (auto simp: volume_def)

lemma abs_exact_sum_le_volume: "\<bar>sum_list (map exact_of (filter P ps))\<bar> \<le> volume ps"
proof (induction ps)
  case (Cons p ps)
  then show ?case
    using abs_sql_signed [of "p_dir p" "m_amount (p_amount p)"]
    by (auto simp: volume_def exact_of_def)
qed (simp add: volume_def)

lemma signed_of_exact: "valid_dir (p_dir p) \<Longrightarrow> signed_of p = word_of_int (exact_of p)"
  by (simp add: signed_of_def exact_of_def signed_of_sql_signed)

lemma signed_sum_exact:
  assumes "\<forall>p \<in> set ps. valid_dir (p_dir p)"
  shows "sum_list (map signed_of (filter P ps)) = word_of_int (sum_list (map exact_of (filter P ps)))"
  using assms by (induction ps) (auto simp: signed_of_exact)

lemma sum_zero_exact:
  assumes dirs: "\<forall>p \<in> set ps. valid_dir (p_dir p)" and vol: "volume ps < 2 ^ 63"
  shows "sum_list (map signed_of (filter P ps)) = 0 \<longleftrightarrow> sum_list (map exact_of (filter P ps)) = 0"
proof -
  let ?e = "sum_list (map exact_of (filter P ps))"
  have "fits64 ?e"
    using abs_exact_sum_le_volume [of P ps] vol by (auto simp: fits64_def abs_le_iff)
  then have "(word_of_int ?e :: int64) = 0 \<longleftrightarrow> ?e = 0"
    by (metis sint_of_int64 signed_0 of_int_0)
  then show ?thesis
    using signed_sum_exact [OF dirs, of P] by simp
qed

lemma Validate_exact_iff:
  assumes "volume (t_postings t) < 2 ^ 63"
  shows "Validate t = None \<longleftrightarrow>
     t_reference t \<noteq> [] \<and> 2 \<le> length (t_postings t) \<and> (\<forall>p \<in> set (t_postings t). good_posting p)
     \<and> (\<forall>c. exact_net (t_postings t) c = 0)"
  using sum_zero_exact [OF _ assms]
  by (auto simp: Validate_None_iff exact_net_def good_posting_def)

section \<open>Properties of validation\<close>

text \<open>
  C24: Below a volume of \<open>2^63\<close> minor units, \<open>Validate\<close> decides exactly the rule it documents: it
  accepts a transfer if and only if it has a reference, at least two postings, every
  posting names an account, a direction, a currency code and a positive amount, and debits equal credits in every
  currency over the integers.
\<close>

theorem Validate_decides_sum_zero:
  assumes "volume (t_postings t) < 2 ^ 63"
  shows "Validate t = None \<longleftrightarrow>
     t_reference t \<noteq> [] \<and> 2 \<le> length (t_postings t) \<and> (\<forall>p \<in> set (t_postings t). good_posting p)
     \<and> (\<forall>c. exact_net (t_postings t) c = 0)"
  by (rule Validate_exact_iff [OF assms])

definition coffee :: transfer where
  "coffee = \<lparr>t_reference = ''coffee'', t_description = [],
     t_postings = [\<lparr>p_account = ''cash'', p_amount = Amount 500 ''EUR'', p_dir = Credit\<rparr>,
                   \<lparr>p_account = ''food'', p_amount = Amount 450 ''EUR'', p_dir = Debit\<rparr>,
                   \<lparr>p_account = ''tips'', p_amount = Amount 50 ''EUR'', p_dir = Debit\<rparr>],
     t_posted_at = zero_time, t_reverses = 0\<rparr>"

theorem Validate_decides_sum_zero_witness:
  "Validate coffee = None \<and> (Validate coffee = None \<longleftrightarrow>
     t_reference coffee \<noteq> [] \<and> 2 \<le> length (t_postings coffee) \<and> (\<forall>p \<in> set (t_postings coffee). good_posting p)
     \<and> (\<forall>c. exact_net (t_postings coffee) c = 0))"
proof
  show "Validate coffee = None" by code_simp
  have "volume (t_postings coffee) < 2 ^ 63" by (simp add: coffee_def volume_def Amount_def)
  then show "Validate coffee = None \<longleftrightarrow>
     t_reference coffee \<noteq> [] \<and> 2 \<le> length (t_postings coffee) \<and> (\<forall>p \<in> set (t_postings coffee). good_posting p)
     \<and> (\<forall>c. exact_net (t_postings coffee) c = 0)"
    by (rule Validate_decides_sum_zero)
qed

text \<open>Four debits of \<open>2^62\<close> minor units and no credit: the \<open>int64\<close> net wraps to zero.\<close>

definition quarter_debit :: posting where
  "quarter_debit = \<lparr>p_account = ''cash'', p_amount = Amount 4611686018427387904 ''EUR'', p_dir = Debit\<rparr>"

definition four_debits :: transfer where
  "four_debits = \<lparr>t_reference = ''wrap'', t_description = [], t_postings = replicate 4 quarter_debit,
     t_posted_at = zero_time, t_reverses = 0\<rparr>"

text \<open>
  So the bound on the volume is needed: \<open>Validate\<close> accepts it, because the sum in \<open>Net\<close> wraps, although it is off by \<open>2^64\<close>.
\<close>

lemma Validate_accepts_wrapped_net:
  "Validate four_debits = None \<and> exact_net (t_postings four_debits) ''EUR'' = 2 ^ 64"
proof
  show "Validate four_debits = None" by code_simp
  show "exact_net (t_postings four_debits) ''EUR'' = 2 ^ 64"
    by (simp add: four_debits_def quarter_debit_def exact_net_def exact_of_def Amount_def sql_signed_def
        numeral_eq_Suc)
qed

end
