(* ===== verification/Bytes.thy ===== *)
theory Bytes
  imports Prelude
begin

text \<open>
  What the chain uses of \<open>encoding/binary\<close> and \<open>crypto/sha256\<close>: big-endian words and the
  digest of a byte string, written out from FIPS 180-4. The lemmas give what the chain
  relies on: big-endian encoding is injective, and a digest has 32 bytes.
\<close>

section \<open>Strings and big-endian words\<close>

definition bytes_of :: "string \<Rightarrow> byte list" where
  "bytes_of s = map of_char s"

definition be_bytes :: "nat \<Rightarrow> 'a::len word \<Rightarrow> byte list" where
  "be_bytes n w = map (\<lambda>i. ucast (drop_bit (8 * i) w)) (rev [0..<n])"

definition PutUint32 :: "32 word \<Rightarrow> byte list" where
  "PutUint32 = be_bytes 4"

definition PutUint64 :: "64 word \<Rightarrow> byte list" where
  "PutUint64 = be_bytes 8"

lemma length_be_bytes [simp]: "length (be_bytes n w) = n"
  by (simp add: be_bytes_def)

lemma length_PutUint [simp]: "length (PutUint32 w) = 4" "length (PutUint64 v) = 8"
  by (simp_all add: PutUint32_def PutUint64_def)

lemma length_bytes_of [simp]: "length (bytes_of s) = length s"
  by (simp add: bytes_of_def)

lemma of_char_byte_inj: "(of_char c :: byte) = of_char d \<Longrightarrow> c = d"
proof -
  assume "(of_char c :: byte) = of_char d"
  then have "unat (word_of_nat (of_char c) :: byte) = unat (word_of_nat (of_char d) :: byte)"
    by (simp only: of_nat_of_char)
  then have "(of_char c :: nat) mod 256 = of_char d mod 256"
    by (simp only: unat_of_nat) simp
  then show "c = d" by simp
qed

lemma bytes_of_inj: "bytes_of s = bytes_of s' \<Longrightarrow> s = s'"
  unfolding bytes_of_def by (rule map_injective) (auto intro: injI of_char_byte_inj)

lemma be_bytes_inj:
  fixes w w' :: "'a::len word"
  assumes "LENGTH('a) = 8 * n" and "be_bytes n w = be_bytes n w'"
  shows "w = w'"
proof (rule bit_word_eqI)
  fix k assume k: "k < LENGTH('a)"
  with assms(1) have i: "k div 8 < n" by simp
  have "(ucast (drop_bit (8 * (k div 8)) w) :: byte) = ucast (drop_bit (8 * (k div 8)) w')"
    using assms(2) i by (simp add: be_bytes_def)
  then have "bit (ucast (drop_bit (8 * (k div 8)) w) :: byte) (k mod 8)
           = bit (ucast (drop_bit (8 * (k div 8)) w') :: byte) (k mod 8)" by simp
  then show "bit w k = bit w' k"
    by (simp add: bit_simps)
qed

lemma PutUint32_inj: "PutUint32 w = PutUint32 w' \<Longrightarrow> w = w'"
  unfolding PutUint32_def by (rule be_bytes_inj [of 4]) simp_all

lemma PutUint64_inj: "PutUint64 w = PutUint64 w' \<Longrightarrow> w = w'"
  unfolding PutUint64_def by (rule be_bytes_inj [of 8]) simp_all

section \<open>SHA-256\<close>

unbundle bit_operations_syntax

type_synonym w32 = "32 word"

text \<open>The round constants and the initial state of FIPS 180-4, written in decimal.\<close>

definition sha_k :: "w32 list" where
  "sha_k =
    [1116352408, 1899447441, 3049323471, 3921009573, 961987163, 1508970993, 2453635748, 2870763221,
     3624381080, 310598401, 607225278, 1426881987, 1925078388, 2162078206, 2614888103, 3248222580,
     3835390401, 4022224774, 264347078, 604807628, 770255983, 1249150122, 1555081692, 1996064986,
     2554220882, 2821834349, 2952996808, 3210313671, 3336571891, 3584528711, 113926993, 338241895,
     666307205, 773529912, 1294757372, 1396182291, 1695183700, 1986661051, 2177026350, 2456956037,
     2730485921, 2820302411, 3259730800, 3345764771, 3516065817, 3600352804, 4094571909, 275423344,
     430227734, 506948616, 659060556, 883997877, 958139571, 1322822218, 1537002063, 1747873779,
     1955562222, 2024104815, 2227730452, 2361852424, 2428436474, 2756734187, 3204031479, 3329325298]"

definition sha_h0 :: "w32 list" where
  "sha_h0 =
    [1779033703, 3144134277, 1013904242, 2773480762, 1359893119, 2600822924, 528734635, 1541459225]"

definition rotr :: "nat \<Rightarrow> w32 \<Rightarrow> w32" where
  "rotr n x = drop_bit n x OR push_bit (32 - n) x"

definition sha_ch :: "w32 \<Rightarrow> w32 \<Rightarrow> w32 \<Rightarrow> w32" where
  "sha_ch x y z = (x AND y) XOR (NOT x AND z)"

definition sha_maj :: "w32 \<Rightarrow> w32 \<Rightarrow> w32 \<Rightarrow> w32" where
  "sha_maj x y z = (x AND y) XOR (x AND z) XOR (y AND z)"

definition big_sigma0 :: "w32 \<Rightarrow> w32" where
  "big_sigma0 x = rotr 2 x XOR rotr 13 x XOR rotr 22 x"

definition big_sigma1 :: "w32 \<Rightarrow> w32" where
  "big_sigma1 x = rotr 6 x XOR rotr 11 x XOR rotr 25 x"

definition small_sigma0 :: "w32 \<Rightarrow> w32" where
  "small_sigma0 x = rotr 7 x XOR rotr 18 x XOR drop_bit 3 x"

definition small_sigma1 :: "w32 \<Rightarrow> w32" where
  "small_sigma1 x = rotr 17 x XOR rotr 19 x XOR drop_bit 10 x"

definition sha_pad :: "byte list \<Rightarrow> byte list" where
  "sha_pad m = m @ [0x80] @ replicate ((119 - length m mod 64) mod 64) 0
     @ PutUint64 (word_of_nat (8 * length m))"

fun sha_blocks :: "byte list \<Rightarrow> byte list list" where
  "sha_blocks bs = (if length bs < 64 then [] else take 64 bs # sha_blocks (drop 64 bs))"

declare sha_blocks.simps [simp del]

fun be_words :: "byte list \<Rightarrow> w32 list" where
  "be_words (a # b # c # d # bs) =
     (push_bit 24 (ucast a) OR push_bit 16 (ucast b) OR push_bit 8 (ucast c) OR ucast d) # be_words bs"
| "be_words _ = []"

text \<open>The message schedule, latest word first.\<close>

fun sha_extend :: "nat \<Rightarrow> w32 list \<Rightarrow> w32 list" where
  "sha_extend 0 ws = ws"
| "sha_extend (Suc n) ws =
     sha_extend n ((small_sigma1 (ws ! 1) + ws ! 6 + small_sigma0 (ws ! 14) + ws ! 15) # ws)"

definition sha_schedule :: "byte list \<Rightarrow> w32 list" where
  "sha_schedule block = rev (sha_extend 48 (rev (be_words block)))"

type_synonym sha_state = "w32 \<times> w32 \<times> w32 \<times> w32 \<times> w32 \<times> w32 \<times> w32 \<times> w32"

fun sha_round :: "w32 \<times> w32 \<Rightarrow> sha_state \<Rightarrow> sha_state" where
  "sha_round (k, w) (a, b, c, d, e, f, g, h) =
     (let t1 = h + big_sigma1 e + sha_ch e f g + k + w;
          t2 = big_sigma0 a + sha_maj a b c
      in (t1 + t2, a, b, c, d + t1, e, f, g))"

fun sha_compress :: "byte list \<Rightarrow> sha_state \<Rightarrow> sha_state" where
  "sha_compress block (a, b, c, d, e, f, g, h) =
     (case fold sha_round (zip sha_k (sha_schedule block)) (a, b, c, d, e, f, g, h) of
        (a', b', c', d', e', f', g', h') \<Rightarrow>
          (a + a', b + b', c + c', d + d', e + e', f + f', g + g', h + h'))"

definition sha_init :: sha_state where
  "sha_init = (sha_h0 ! 0, sha_h0 ! 1, sha_h0 ! 2, sha_h0 ! 3, sha_h0 ! 4, sha_h0 ! 5, sha_h0 ! 6, sha_h0 ! 7)"

definition sha256 :: "byte list \<Rightarrow> byte list" where
  "sha256 m =
     (case fold sha_compress (sha_blocks (sha_pad m)) sha_init of
        (a, b, c, d, e, f, g, h) \<Rightarrow> concat (map PutUint32 [a, b, c, d, e, f, g, h]))"

lemma length_sha256 [simp]: "length (sha256 m) = 32"
proof -
  obtain a b c d e f g h where
    fin: "fold sha_compress (sha_blocks (sha_pad m)) sha_init = (a, b, c, d, e, f, g, h)"
    by (metis prod.collapse)
  show ?thesis
    unfolding sha256_def fin by simp
qed

end
