(* ===== verification/Chain.thy ===== *)
theory Chain
  imports Journal Bytes
begin

text \<open>
  \<open>src/ledger/chain.go\<close>: the digest that links a transfer to its predecessor. The bytes
  that are hashed are kept apart from the hash, so that the encoding can be shown
  injective (\<open>chain_bytes_inj\<close>): for transfers with three-letter currencies and a valid
  direction, no byte can move between two fields, and a reversal link is never read as
  a posting. The locale \<open>digest_function\<close> states what the chain needs of the hash, and
  \<open>sha256\<close> is its interpretation.
\<close>

section \<open>The encoding\<close>

text \<open>\<open>t.UTC().Truncate(time.Microsecond)\<close> and \<open>UnixNano\<close>, which wraps at 64 bits.\<close>

definition Truncate_us :: "time \<Rightarrow> time" where
  "Truncate_us t = t - t mod 1000"

definition UnixNano :: "time \<Rightarrow> 64 word" where
  "UnixNano t = word_of_int t"

definition writeField :: "byte list \<Rightarrow> byte list" where
  "writeField b = PutUint32 (word_of_nat (length b)) @ b"

definition posting_bytes :: "posting \<Rightarrow> byte list" where
  "posting_bytes p =
     writeField (bytes_of (p_account p))
     @ writeField (bytes_of (p_currency p))
     @ writeField (bytes_of (p_dir p))
     @ PutUint64 (m_amount (p_amount p))"

definition chain_bytes :: "byte list \<Rightarrow> transfer \<Rightarrow> time \<Rightarrow> byte list" where
  "chain_bytes prev t postedAt =
     prev
     @ writeField (bytes_of (t_reference t))
     @ writeField (bytes_of (t_description t))
     @ PutUint64 (UnixNano (Truncate_us postedAt))
     @ (if t_reverses t \<noteq> 0 then writeField (PutUint64 (word_of_int (t_reverses t))) else [])
     @ concat (map posting_bytes (t_postings t))"

definition chainDigest :: "byte list \<Rightarrow> transfer \<Rightarrow> time \<Rightarrow> byte list" where
  "chainDigest prev t postedAt = sha256 (chain_bytes prev t postedAt)"

section \<open>Instants\<close>

lemma Truncate_us_mod [simp]: "Truncate_us t mod 1000 = 0"
  by (simp add: Truncate_us_def mod_diff_eq flip: mod_diff_left_eq)

lemma Truncate_us_idem [simp]: "Truncate_us (Truncate_us t) = Truncate_us t"
  using Truncate_us_mod [of t] by (simp add: Truncate_us_def)

text \<open>
  Truncation makes the 64-bit nanosecond count injective on a range 125 times wider
  than the 584 years the count itself covers: instants that agree modulo \<open>2^64\<close> and are
  both whole microseconds differ by a multiple of \<open>125 * 2^64\<close>.
\<close>

lemma UnixNano_inj:
  assumes "t mod 1000 = 0" "t' mod 1000 = 0" "\<bar>t - t'\<bar> < 125 * 2 ^ 64" "UnixNano t = UnixNano t'"
  shows "t = t'"
proof -
  have "(2 ^ 64 :: int) dvd t - t'"
    using assms(4) by (simp add: UnixNano_def word_of_int_eq_iff take_bit_eq_mod mod_eq_dvd_iff)
  moreover have "(125 :: int) dvd t - t'"
  proof -
    have "(1000 :: int) dvd t - t'" using assms(1,2) by (simp add: dvd_eq_mod_eq_0 mod_diff_eq [symmetric])
    then show ?thesis by (rule dvd_trans [rotated]) simp
  qed
  moreover have "coprime (125 :: int) (2 ^ 64)"
    by (simp only: coprime_power_right_iff coprime_right_2_iff_odd) simp
  ultimately have "125 * 2 ^ 64 dvd t - t'"
    by (intro divides_mult)
  with assms(3) have "t - t' = 0"
    by (metis dvd_imp_le_int abs_of_nonneg not_le zero_le_mult_iff zero_le_numeral zero_le_power)
  then show ?thesis by simp
qed

section \<open>Unique readability\<close>

lemma length_writeField [simp]: "length (writeField b) = 4 + length b"
  by (simp add: writeField_def)

lemma writeField_append_inj:
  assumes "writeField a @ x = writeField b @ y" "length a < 2 ^ 32" "length b < 2 ^ 32"
  shows "a = b \<and> x = y"
proof -
  have "PutUint32 (word_of_nat (length a)) = PutUint32 (word_of_nat (length b))" and rest: "a @ x = b @ y"
    using assms(1) by (simp_all add: writeField_def)
  then have "unat (word_of_nat (length a) :: 32 word) = unat (word_of_nat (length b) :: 32 word)"
    by (auto dest: PutUint32_inj)
  with assms(2,3) have "length a = length b"
    by (simp add: unat_of_nat)
  with rest show ?thesis by simp
qed

lemma PutUint64_append_inj: "PutUint64 v @ x = PutUint64 w @ y \<Longrightarrow> v = w \<and> x = y"
  by (simp add: PutUint64_inj)

text \<open>The postings a stored transfer can have: bounded account ids, three-letter codes, valid sides.\<close>

definition wf_posting :: "posting \<Rightarrow> bool" where
  "wf_posting p \<longleftrightarrow> length (p_account p) < 2 ^ 32 \<and> length (p_currency p) = 3 \<and> valid_dir (p_dir p)"

definition wf_transfer :: "transfer \<Rightarrow> bool" where
  "wf_transfer t \<longleftrightarrow> length (t_reference t) < 2 ^ 32 \<and> length (t_description t) < 2 ^ 32
     \<and> 0 \<le> t_reverses t \<and> t_reverses t < 2 ^ 63 \<and> (\<forall>p \<in> set (t_postings t). wf_posting p)"

lemma wf_dir_length: "wf_posting p \<Longrightarrow> length (p_dir p) = 5 \<or> length (p_dir p) = 6"
  by (auto simp: wf_posting_def valid_dir_def Debit_def Credit_def)

lemma wf_field_lengths:
  assumes "wf_posting p"
  shows "length (bytes_of (p_account p)) < 2 ^ 32" "length (bytes_of (p_currency p)) < 2 ^ 32"
    "length (bytes_of (p_dir p)) < 2 ^ 32"
  using assms wf_dir_length [OF assms] by (auto simp: wf_posting_def)

lemma posting_bytes_append_inj:
  assumes eq: "posting_bytes p @ x = posting_bytes q @ y" and wf: "wf_posting p" "wf_posting q"
  shows "p = q \<and> x = y"
proof -
  note lens = wf_field_lengths [OF wf(1)] wf_field_lengths [OF wf(2)]
  from eq have 1: "bytes_of (p_account p) = bytes_of (p_account q)"
    and r1: "writeField (bytes_of (p_currency p)) @ writeField (bytes_of (p_dir p)) @ PutUint64 (m_amount (p_amount p)) @ x
       = writeField (bytes_of (p_currency q)) @ writeField (bytes_of (p_dir q)) @ PutUint64 (m_amount (p_amount q)) @ y"
    using writeField_append_inj [OF _ lens(1) lens(4)] by (auto simp: posting_bytes_def)
  from r1 have 2: "bytes_of (p_currency p) = bytes_of (p_currency q)"
    and r2: "writeField (bytes_of (p_dir p)) @ PutUint64 (m_amount (p_amount p)) @ x
       = writeField (bytes_of (p_dir q)) @ PutUint64 (m_amount (p_amount q)) @ y"
    using writeField_append_inj [OF r1 lens(2) lens(5)] by auto
  from r2 have 3: "bytes_of (p_dir p) = bytes_of (p_dir q)"
    and r3: "PutUint64 (m_amount (p_amount p)) @ x = PutUint64 (m_amount (p_amount q)) @ y"
    using writeField_append_inj [OF r2 lens(3) lens(6)] by auto
  from PutUint64_append_inj [OF r3] 1 2 3 show ?thesis
    by (auto dest!: bytes_of_inj intro: posting.equality money.equality)
qed

lemma posting_bytes_nonempty: "posting_bytes p \<noteq> []"
  by (simp add: posting_bytes_def flip: length_0_conv)

lemma postings_bytes_inj:
  assumes "concat (map posting_bytes ps) = concat (map posting_bytes qs)"
    and "\<forall>p \<in> set ps. wf_posting p" "\<forall>q \<in> set qs. wf_posting q"
  shows "ps = qs"
  using assms
proof (induction ps arbitrary: qs)
  case Nil
  then show ?case using posting_bytes_nonempty by (cases qs) auto
next
  case (Cons p ps)
  then obtain q qs' where qs: "qs = q # qs'"
    using posting_bytes_nonempty by (cases qs) auto
  with Cons.prems have "p = q \<and> concat (map posting_bytes ps) = concat (map posting_bytes qs')"
    by (intro posting_bytes_append_inj) auto
  with Cons.IH [of qs'] Cons.prems qs show ?case by auto
qed

text \<open>
  A reversal link is eight bytes behind a length, which is also how a posting starts when
  its account id has eight bytes. What follows tells them apart: the second field of a
  posting is a currency code, never as long as a direction.
\<close>

lemma reversal_not_posting:
  assumes "writeField (PutUint64 r) @ concat (map posting_bytes ps) = concat (map posting_bytes qs)"
    and wf: "\<forall>p \<in> set ps. wf_posting p" "\<forall>q \<in> set qs. wf_posting q"
  shows False
proof (cases qs)
  case Nil
  with assms(1) show ?thesis by (simp flip: length_0_conv)
next
  case (Cons q qs')
  let ?tail = "writeField (bytes_of (p_dir q)) @ PutUint64 (m_amount (p_amount q)) @ concat (map posting_bytes qs')"
  from wf Cons have wq: "wf_posting q" by simp
  note lq = wf_field_lengths [OF wq]
  have *: "concat (map posting_bytes ps) = writeField (bytes_of (p_currency q)) @ ?tail"
    using assms(1) Cons writeField_append_inj [of "PutUint64 r" "concat (map posting_bytes ps)"
      "bytes_of (p_account q)" "writeField (bytes_of (p_currency q)) @ ?tail"] lq
    by (simp add: posting_bytes_def)
  show ?thesis
  proof (cases ps)
    case Nil
    with * show ?thesis by (simp flip: length_0_conv)
  next
    fix p ps' assume ps: "ps = p # ps'"
    with wf have wp: "wf_posting p" by simp
    note lp = wf_field_lengths [OF wp]
    have "writeField (bytes_of (p_currency p)) @ writeField (bytes_of (p_dir p)) @ PutUint64 (m_amount (p_amount p))
        @ concat (map posting_bytes ps') = ?tail"
      using * ps writeField_append_inj [of "bytes_of (p_account p)" _ "bytes_of (p_currency q)" ?tail] lp(1) lq(2)
      by (simp add: posting_bytes_def)
    then have "bytes_of (p_currency p) = bytes_of (p_dir q)"
      using writeField_append_inj lp(2) lq(3) by blast
    then have "length (p_currency p) = length (p_dir q)"
      by (metis length_bytes_of)
    with wp wf_dir_length [OF wq] show False
      by (auto simp: wf_posting_def)
  qed
qed

lemma word_of_reverses_inj:
  "(word_of_int i :: 64 word) = word_of_int j \<Longrightarrow> 0 \<le> i \<Longrightarrow> i < 2 ^ 63 \<Longrightarrow> 0 \<le> j \<Longrightarrow> j < 2 ^ 63 \<Longrightarrow> i = j"
  by (simp add: word_of_int_eq_iff take_bit_eq_mod)

lemma link_bytes_inj:
  assumes eq: "(if r \<noteq> 0 then writeField (PutUint64 (word_of_int r)) else []) @ concat (map posting_bytes ps)
      = (if r' \<noteq> 0 then writeField (PutUint64 (word_of_int r')) else []) @ concat (map posting_bytes qs)"
    and wf: "\<forall>p \<in> set ps. wf_posting p" "\<forall>q \<in> set qs. wf_posting q"
    and r: "0 \<le> r" "r < 2 ^ 63" "0 \<le> r'" "r' < 2 ^ 63"
  shows "r = r' \<and> ps = qs"
proof (cases "r = 0"; cases "r' = 0")
  assume "r = 0" "r' = 0"
  with eq wf show ?thesis by (auto intro: postings_bytes_inj)
next
  assume "r = 0" "r' \<noteq> 0"
  with eq wf reversal_not_posting [of "word_of_int r'" qs ps] show ?thesis by simp
next
  assume "r \<noteq> 0" "r' = 0"
  with eq wf reversal_not_posting [of "word_of_int r" ps qs] show ?thesis by simp
next
  assume "r \<noteq> 0" "r' \<noteq> 0"
  with eq have "PutUint64 (word_of_int r) = PutUint64 (word_of_int r')
      \<and> concat (map posting_bytes ps) = concat (map posting_bytes qs)"
    by (intro writeField_append_inj) simp_all
  with wf r show ?thesis
    by (auto dest: PutUint64_inj intro: word_of_reverses_inj postings_bytes_inj)
qed

text \<open>What a transfer's digest commits to.\<close>

definition content :: "transfer \<Rightarrow> time \<Rightarrow> string \<times> string \<times> time \<times> int \<times> posting list" where
  "content t at = (t_reference t, t_description t, Truncate_us at, t_reverses t, t_postings t)"

lemma chain_bytes_inj_raw:
  assumes eq: "chain_bytes prev t at = chain_bytes prev' t' at'"
    and len: "length prev = length prev'" and wf: "wf_transfer t" "wf_transfer t'"
    and range: "\<bar>Truncate_us at - Truncate_us at'\<bar> < 125 * 2 ^ 64"
  shows "prev = prev' \<and> content t at = content t' at'"
proof -
  let ?links = "\<lambda>t. (if t_reverses t \<noteq> 0 then writeField (PutUint64 (word_of_int (t_reverses t))) else [])
     @ concat (map posting_bytes (t_postings t))"
  let ?ts = "\<lambda>at. PutUint64 (UnixNano (Truncate_us at))"
  have lens: "length (bytes_of (t_reference t)) < 2 ^ 32" "length (bytes_of (t_reference t')) < 2 ^ 32"
    "length (bytes_of (t_description t)) < 2 ^ 32" "length (bytes_of (t_description t')) < 2 ^ 32"
    using wf by (simp_all add: wf_transfer_def)
  from eq len have p: "prev = prev'"
    and e0: "writeField (bytes_of (t_reference t)) @ writeField (bytes_of (t_description t)) @ ?ts at @ ?links t
       = writeField (bytes_of (t_reference t')) @ writeField (bytes_of (t_description t')) @ ?ts at' @ ?links t'"
    by (simp_all add: chain_bytes_def)
  from writeField_append_inj [OF e0 lens(1,2)] have ref: "t_reference t = t_reference t'"
    and e1: "writeField (bytes_of (t_description t)) @ ?ts at @ ?links t
       = writeField (bytes_of (t_description t')) @ ?ts at' @ ?links t'"
    by (auto dest: bytes_of_inj)
  from writeField_append_inj [OF e1 lens(3,4)] have desc: "t_description t = t_description t'"
    and e2: "?ts at @ ?links t = ?ts at' @ ?links t'"
    by (auto dest: bytes_of_inj)
  from PutUint64_append_inj [OF e2] have ts: "Truncate_us at = Truncate_us at'" and e3: "?links t = ?links t'"
    using UnixNano_inj range by auto
  from e3 wf have "t_reverses t = t_reverses t' \<and> t_postings t = t_postings t'"
    by (intro link_bytes_inj) (auto simp: wf_transfer_def)
  with p ref desc ts show ?thesis by (simp add: content_def)
qed

section \<open>Chains\<close>

record link =
  l_transfer :: transfer
  l_at :: time
  l_prev :: "byte list"
  l_hash :: "byte list"

definition link_bytes :: "link \<Rightarrow> byte list" where
  "link_bytes l = chain_bytes (l_prev l) (l_transfer l) (l_at l)"

definition link_content :: "link \<Rightarrow> string \<times> string \<times> time \<times> int \<times> posting list" where
  "link_content l = content (l_transfer l) (l_at l)"

text \<open>A chain in which every link names its predecessor's digest and carries its own.\<close>

fun chain_ok :: "(byte list \<Rightarrow> byte list) \<Rightarrow> byte list \<Rightarrow> link list \<Rightarrow> bool" where
  "chain_ok H expected [] = True"
| "chain_ok H expected (l # ls) =
     (l_prev l = expected \<and> l_hash l = H (link_bytes l) \<and> chain_ok H (l_hash l) ls)"

definition head_hash :: "byte list \<Rightarrow> link list \<Rightarrow> byte list" where
  "head_hash expected ls = (if ls = [] then expected else l_hash (last ls))"

lemma chain_ok_snoc:
  "chain_ok H e (ls @ [l]) \<longleftrightarrow>
     chain_ok H e ls \<and> l_prev l = head_hash e ls \<and> l_hash l = H (link_bytes l)"
  by (induction ls arbitrary: e) (auto simp: head_hash_def)

lemma chain_ok_append_left: "chain_ok H e (ls @ ls') \<Longrightarrow> chain_ok H e ls"
  by (induction ls arbitrary: e) auto

lemma head_hash_snoc [simp]: "head_hash e (ls @ [l]) = l_hash l"
  by (simp add: head_hash_def)

definition wf_link :: "link \<Rightarrow> bool" where
  "wf_link l \<longleftrightarrow> wf_transfer (l_transfer l) \<and> \<bar>Truncate_us (l_at l)\<bar> < 62 * 2 ^ 64"

text \<open>
  The interface of a hash as the chain uses it: digests of one length. Two chains of the
  same length that end in the same digest then hold the same history, or some position
  exhibits two different inputs with the same digest.
\<close>

locale digest_function =
  fixes H :: "byte list \<Rightarrow> byte list"
  assumes digest_length: "length (H m) = 32"
begin

lemma hash_length: "chain_ok H e ls \<Longrightarrow> l \<in> set ls \<Longrightarrow> length (l_hash l) = 32"
  by (induction ls arbitrary: e) (auto simp: digest_length)

lemma head_length: "chain_ok H [] ls \<Longrightarrow> length (head_hash [] ls) = (if ls = [] then 0 else 32)"
  by (auto simp: head_hash_def intro: hash_length)

lemma same_bytes_same_link:
  assumes "link_bytes x = link_bytes y" "length (l_prev x) = length (l_prev y)" "wf_link x" "wf_link y"
  shows "l_prev x = l_prev y \<and> link_content x = link_content y"
  using assms unfolding link_bytes_def link_content_def wf_link_def by (intro chain_bytes_inj_raw) auto

lemma agree_or_collide_snoc:
  assumes "map link_content xs = map link_content ys
    \<or> (\<exists>i < length xs. link_bytes (xs ! i) \<noteq> link_bytes (ys ! i) \<and> H (link_bytes (xs ! i)) = H (link_bytes (ys ! i)))"
    and "length xs = length ys" "link_content x = link_content y"
  shows "map link_content (xs @ [x]) = map link_content (ys @ [y])
    \<or> (\<exists>i < length (xs @ [x]). link_bytes ((xs @ [x]) ! i) \<noteq> link_bytes ((ys @ [y]) ! i)
         \<and> H (link_bytes ((xs @ [x]) ! i)) = H (link_bytes ((ys @ [y]) ! i)))"
  using assms(1)
proof (elim disjE exE conjE)
  fix i assume "i < length xs" "link_bytes (xs ! i) \<noteq> link_bytes (ys ! i)" "H (link_bytes (xs ! i)) = H (link_bytes (ys ! i))"
  with assms(2) show ?thesis by (intro disjI2 exI [of _ i]) (auto simp: nth_append)
qed (use assms(3) in simp)

lemma same_head_same_history:
  assumes "length xs = length ys" "chain_ok H [] xs" "chain_ok H [] ys"
    and "head_hash [] xs = head_hash [] ys"
    and "\<forall>l \<in> set xs. wf_link l" "\<forall>l \<in> set ys. wf_link l"
  shows "map link_content xs = map link_content ys
    \<or> (\<exists>i < length xs. link_bytes (xs ! i) \<noteq> link_bytes (ys ! i)
         \<and> H (link_bytes (xs ! i)) = H (link_bytes (ys ! i)))"
  using assms
proof (induction xs arbitrary: ys rule: rev_induct)
  case Nil
  then show ?case by simp
next
  case (snoc x xs)
  from snoc.prems(1) obtain y ys' where ys: "ys = ys' @ [y]" and len: "length xs = length ys'"
    by (cases ys rule: rev_cases) auto
  from snoc.prems(2,3) ys have ok: "chain_ok H [] xs" "chain_ok H [] ys'"
    and px: "l_prev x = head_hash [] xs" "l_prev y = head_hash [] ys'"
    and hx: "l_hash x = H (link_bytes x)" "l_hash y = H (link_bytes y)"
    by (auto simp: chain_ok_snoc)
  have same: "H (link_bytes x) = H (link_bytes y)"
    using snoc.prems(4) ys hx by simp
  show ?case
  proof (cases "link_bytes x = link_bytes y")
    case False
    with same len ys show ?thesis
      by (intro disjI2 exI [of _ "length xs"]) (simp add: nth_append)
  next
    case True
    have "length (l_prev x) = length (l_prev y)"
      using px head_length [OF ok(1)] head_length [OF ok(2)] len by (auto split: if_splits)
    moreover have "wf_link x" "wf_link y"
      using snoc.prems(5,6) ys by auto
    ultimately have both: "l_prev x = l_prev y \<and> link_content x = link_content y"
      using True by (intro same_bytes_same_link)
    with px have "head_hash [] xs = head_hash [] ys'" by simp
    with snoc.IH [OF len ok] snoc.prems(5,6) ys both show ?thesis
      unfolding ys by (intro agree_or_collide_snoc len) auto
  qed
qed

end

interpretation sha: digest_function sha256
  by unfold_locales simp

section \<open>Properties of the digest\<close>

text \<open>
  The bytes that \<open>chainDigest\<close> hashes determine what it is meant to protect: two transfers
  with the same bytes, after previous hashes of one length, agree in previous hash,
  reference, description, instant to the microsecond, reversal link and every posting in
  order. The instants may differ by up to 125 times the range of an \<open>int64\<close> nanosecond count.
\<close>

lemma chain_bytes_inj:
  assumes "chain_bytes prev t at = chain_bytes prev' t' at'" "length prev = length prev'"
    and "wf_transfer t" "wf_transfer t'" "\<bar>Truncate_us at - Truncate_us at'\<bar> < 125 * 2 ^ 64"
  shows "prev = prev' \<and> content t at = content t' at'"
  using assms by (rule chain_bytes_inj_raw)

lemma chain_bytes_inj_sample:
  "[] = ([] :: byte list) \<and> content coffee 1500 = content (coffee\<lparr>t_posted_at := 7\<rparr>) 1999"
proof (rule chain_bytes_inj)
  show "chain_bytes [] coffee 1500 = chain_bytes [] (coffee\<lparr>t_posted_at := 7\<rparr>) 1999"
    by (simp add: chain_bytes_def coffee_def Truncate_us_def)
  show "wf_transfer coffee" "wf_transfer (coffee\<lparr>t_posted_at := 7\<rparr>)"
    by (simp_all add: wf_transfer_def wf_posting_def coffee_def Amount_def)
qed (simp_all add: Truncate_us_def)

text \<open>
  C23: The chain is tamper evident. If two intact chains of the same length end in the same
  digest, they hold the same transfers, unless two different inputs with one SHA-256 digest sit at
  the same position of the two.
\<close>

theorem chain_tamper_evident:
  assumes "length xs = length ys" "chain_ok sha256 [] xs" "chain_ok sha256 [] ys"
    and "head_hash [] xs = head_hash [] ys"
    and "\<forall>l \<in> set xs. wf_link l" "\<forall>l \<in> set ys. wf_link l"
  shows "map link_content xs = map link_content ys
    \<or> (\<exists>i < length xs. link_bytes (xs ! i) \<noteq> link_bytes (ys ! i)
         \<and> sha256 (link_bytes (xs ! i)) = sha256 (link_bytes (ys ! i)))"
  using assms by (rule sha.same_head_same_history)

definition coffee_link :: "time \<Rightarrow> link" where
  "coffee_link at = \<lparr>l_transfer = coffee, l_at = at, l_prev = [], l_hash = chainDigest [] coffee at\<rparr>"

theorem chain_tamper_evident_witness:
  "map link_content [coffee_link 1500] = map link_content [coffee_link 1999]
    \<or> (\<exists>i < length [coffee_link 1500]. link_bytes ([coffee_link 1500] ! i) \<noteq> link_bytes ([coffee_link 1999] ! i)
         \<and> sha256 (link_bytes ([coffee_link 1500] ! i)) = sha256 (link_bytes ([coffee_link 1999] ! i)))"
proof (rule chain_tamper_evident)
  show "head_hash [] [coffee_link 1500] = head_hash [] [coffee_link 1999]"
    by (simp add: head_hash_def coffee_link_def chainDigest_def chain_bytes_def Truncate_us_def)
qed (simp_all add: coffee_link_def chainDigest_def link_bytes_def wf_link_def wf_transfer_def
       wf_posting_def coffee_def Amount_def Truncate_us_def)

end
