(* ===== verification/Schema.thy ===== *)
theory Schema
  imports Chain
begin

text \<open>
  The tables of \<open>src/migrations/0001_init.sql\<close>, \<open>0003_holds.sql\<close> and \<open>0004_reversals.sql\<close>, the
  SQL statements of the ledger package over them, and the transaction wrapper \<open>inTx\<close> of
  \<open>src/ledger/store.go\<close>.

  A table is the list of its rows in insertion order. A statement returns a Postgres error
  or a value and leaves the tables it wrote; identity sequences advance even when the
  insert fails, as Postgres' do. Inside a transaction the first error aborts it: every
  later statement answers \<open>InFailedTransaction\<close> until the transaction ends.
\<close>

section \<open>Tables\<close>

record transfer_row =
  tr_id :: int
  tr_reference :: string
  tr_description :: string
  tr_posted_at :: time
  tr_prev_hash :: "byte list"   \<comment> \<open>\<open>[]\<close> for NULL, Go's nil slice\<close>
  tr_hash :: "byte list"
  tr_reverses :: "int option"

record posting_row =
  po_id :: int
  po_transfer_id :: int
  po_account_id :: string
  po_amount :: int64
  po_currency :: string
  po_direction :: string

record balance_row =
  ba_account_id :: string
  ba_balance :: int64

datatype HoldStatus = HoldActive | HoldCaptured | HoldReleased | HoldExpired

record hold =
  h_id :: int
  h_account :: string
  h_reference :: string
  h_amount :: money
  h_status :: HoldStatus
  h_created_at :: time
  h_expires_at :: "time option"
  h_closed_at :: "time option"
  h_transfer_id :: "int option"

record db =
  accounts :: "account list"
  transfers :: "transfer_row list"
  postings :: "posting_row list"
  balances :: "balance_row list"
  holds :: "hold list"
  seq_transfers :: int
  seq_postings :: int
  seq_holds :: int
  tx_aborted :: bool

definition empty_db :: db where
  "empty_db = \<lparr>accounts = [], transfers = [], postings = [], balances = [], holds = [],
     seq_transfers = 0, seq_postings = 0, seq_holds = 0, tx_aborted = False\<rparr>"

type_synonym 'a run = "(ledger_error, db, 'a) prog"
type_synonym 'a stmt = "db \<Rightarrow> (pg_error + 'a) \<times> db"

section \<open>Running statements\<close>

definition rollback :: "db \<Rightarrow> db \<Rightarrow> db" where
  "rollback s s' = s\<lparr>seq_transfers := seq_transfers s', seq_postings := seq_postings s',
     seq_holds := seq_holds s'\<rparr>"

definition sql :: "'a stmt \<Rightarrow> 'a run" where
  "sql st s =
     (if tx_aborted s then (Inl (DbError InFailedTransaction), s)
      else case st s of
             (Inl e, s') \<Rightarrow> (Inl (DbError e), (rollback s s')\<lparr>tx_aborted := True\<rparr>)
           | (Inr x, s') \<Rightarrow> (Inr x, s'))"

definition select :: "(db \<Rightarrow> 'a) \<Rightarrow> 'a run" where
  "select f = sql (\<lambda>s. (Inr (f s), s))"

definition map_error :: "('e \<Rightarrow> 'f) \<Rightarrow> ('e, db, 'a) prog \<Rightarrow> ('f, db, 'a) prog" where
  "map_error g m s = (case m s of (Inl e, s') \<Rightarrow> (Inl (g e), s') | (Inr x, s') \<Rightarrow> (Inr x, s'))"

text \<open>
  \<open>New\<close> owns its connections: \<open>inTx\<close> opens a transaction, commits on success and rolls back on
  an error, and a single statement outside \<open>inTx\<close> is a transaction of its own. \<open>NewTx\<close> runs
  inside the caller's transaction and leaves commit and rollback to the caller.
\<close>

datatype ledger = New | NewTx

definition inTx :: "ledger \<Rightarrow> ('e, db, 'a) prog \<Rightarrow> ('e, db, 'a) prog" where
  "inTx l fn s =
     (case l of
        NewTx \<Rightarrow> fn s
      | New \<Rightarrow> (case fn s of
                 (Inl e, s') \<Rightarrow> (Inl e, rollback s s')
               | (Inr x, s') \<Rightarrow> (Inr x, s')))"

lemma sql_Inr [simp, prog_simps]:
  "sql st s = (Inr x, s') \<longleftrightarrow> \<not> tx_aborted s \<and> st s = (Inr x, s')"
  by (auto simp: sql_def split: prod.splits sum.splits)

lemma select_Inr [simp, prog_simps]:
  "select f s = (Inr x, s') \<longleftrightarrow> \<not> tx_aborted s \<and> x = f s \<and> s' = s"
  by (auto simp: select_def)

lemma map_error_Inr [simp, prog_simps]: "map_error g m s = (Inr x, s') \<longleftrightarrow> m s = (Inr x, s')"
  by (auto simp: map_error_def split: prod.splits sum.splits)

lemma inTx_Inr [simp, prog_simps]: "inTx l fn s = (Inr x, s') \<longleftrightarrow> fn s = (Inr x, s')"
  by (auto simp: inTx_def split: ledger.splits prod.splits sum.splits)

lemma inTx_New_Inl:
  "inTx New fn s = (Inl e, s') \<longleftrightarrow> (\<exists>s1. fn s = (Inl e, s1) \<and> s' = rollback s s1)"
  by (auto simp: inTx_def split: prod.splits sum.splits)

lemma inTx_NewTx [simp]: "inTx NewTx fn = fn"
  by (simp add: inTx_def fun_eq_iff)

lemma rollback_simps [simp]:
  "accounts (rollback s s') = accounts s" "transfers (rollback s s') = transfers s"
  "postings (rollback s s') = postings s" "balances (rollback s s') = balances s"
  "holds (rollback s s') = holds s" "tx_aborted (rollback s s') = tx_aborted s"
  "seq_transfers (rollback s s') = seq_transfers s'" "seq_postings (rollback s s') = seq_postings s'"
  "seq_holds (rollback s s') = seq_holds s'"
  by (simp_all add: rollback_def)

lemma rollback_self [simp]: "rollback s s = s"
  by (simp add: rollback_def)

text \<open>The data of a database: everything but the sequences and the transaction flag.\<close>

definition data_of :: "db \<Rightarrow> account list \<times> transfer_row list \<times> posting_row list \<times> balance_row list \<times> hold list" where
  "data_of s = (accounts s, transfers s, postings s, balances s, holds s)"

lemma data_of_rollback [simp]: "data_of (rollback s s') = data_of s"
  by (simp add: data_of_def)

text \<open>Sequences only move forward.\<close>

definition seqs_from :: "db \<Rightarrow> db \<Rightarrow> bool" where
  "seqs_from s s' \<longleftrightarrow> seq_transfers s \<le> seq_transfers s' \<and> seq_postings s \<le> seq_postings s'
     \<and> seq_holds s \<le> seq_holds s'"

lemma seqs_from_refl [simp]: "seqs_from s s"
  by (simp add: seqs_from_def)

definition forward :: "'a stmt \<Rightarrow> bool" where
  "forward st \<longleftrightarrow> (\<forall>s r s'. st s = (r, s') \<longrightarrow> seqs_from s s')"

lemma keeps_sql_seqs [keeps_intros]:
  "forward st \<Longrightarrow> keeps (seqs_from s0) (sql st)"
proof (rule keepsI)
  fix s r s' assume "forward st" "seqs_from s0 s" "sql st s = (r, s')"
  moreover obtain v s1 where "st s = (v, s1)" by fastforce
  ultimately have "seqs_from s s1" and "s' = s \<or> s' = s1 \<or> s' = (rollback s s1)\<lparr>tx_aborted := True\<rparr>"
    by (cases v; force simp: sql_def forward_def split: if_splits)+
  with \<open>seqs_from s0 s\<close> show "seqs_from s0 s'"
    by (auto simp: seqs_from_def)
qed

lemma seqs_from_trans: "seqs_from s0 s \<Longrightarrow> seqs_from s s' \<Longrightarrow> seqs_from s0 s'"
  by (auto simp: seqs_from_def)

lemma forward_pure [intro]: "(\<And>s. snd (st s) = s) \<Longrightarrow> forward st"
  by (auto simp: forward_def dest: arg_cong [of _ _ snd])

lemma keeps_select_seqs [keeps_intros]: "keeps (seqs_from s0) (select f)"
  unfolding select_def by (intro keeps_sql_seqs forward_pure) simp

lemma keeps_map_error [keeps_intros]: "keeps P m \<Longrightarrow> keeps P (map_error g m)"
  by (force simp: keeps_def map_error_def split: prod.splits sum.splits)

section \<open>Accounts and balances\<close>

text \<open>\<open>INSERT INTO accounts ... ON CONFLICT (id) DO NOTHING\<close>: the number of rows affected.\<close>

definition insert_account :: "account \<Rightarrow> nat stmt" where
  "insert_account a s =
     (if \<not> valid_type (a_type a) \<or> \<not> validCurrency (a_currency a) then (Inl CheckViolation, s)
      else if a_id a \<in> a_id ` set (accounts s) then (Inr 0, s)
      else (Inr 1, s\<lparr>accounts := accounts s @ [a\<lparr>a_archived := False\<rparr>]\<rparr>))"

text \<open>\<open>INSERT INTO account_balances (account_id) VALUES ($1)\<close>.\<close>

definition insert_balance :: "string \<Rightarrow> unit stmt" where
  "insert_balance acc s =
     (if acc \<in> ba_account_id ` set (balances s) then (Inl (UniqueViolation ''account_balances_pkey''), s)
      else if acc \<notin> a_id ` set (accounts s) then (Inl ForeignKeyViolation, s)
      else (Inr (), s\<lparr>balances := balances s @ [\<lparr>ba_account_id = acc, ba_balance = 0\<rparr>]\<rparr>))"

text \<open>The upsert of \<open>applyBalances\<close>: bigint addition is checked, not modular.\<close>

definition upsert_balance :: "string \<Rightarrow> int64 \<Rightarrow> unit stmt" where
  "upsert_balance acc d s =
     (case find_row ba_account_id acc (balances s) of
        None \<Rightarrow>
          if acc \<notin> a_id ` set (accounts s) then (Inl ForeignKeyViolation, s)
          else (Inr (), s\<lparr>balances := balances s @ [\<lparr>ba_account_id = acc, ba_balance = d\<rparr>]\<rparr>)
      | Some b \<Rightarrow>
          if fits64 (sint (ba_balance b) + sint d)
          then (Inr (), s\<lparr>balances := update_rows (\<lambda>b. ba_account_id b = acc)
                                       (\<lambda>b. b\<lparr>ba_balance := ba_balance b + d\<rparr>) (balances s)\<rparr>)
          else (Inl BigintOutOfRange, s))"

text \<open>\<open>UPDATE accounts SET archived = true WHERE id = $1\<close>: the number of rows affected.\<close>

definition archive_account :: "string \<Rightarrow> nat stmt" where
  "archive_account acc s =
     (Inr (length (filter (\<lambda>a. a_id a = acc) (accounts s))),
      s\<lparr>accounts := update_rows (\<lambda>a. a_id a = acc) (\<lambda>a. a\<lparr>a_archived := True\<rparr>) (accounts s)\<rparr>)"

text \<open>\<open>coalesce((SELECT balance FROM account_balances WHERE account_id = $1), 0)\<close>.\<close>

definition balance_of :: "db \<Rightarrow> string \<Rightarrow> int64" where
  "balance_of s acc = (case find_row ba_account_id acc (balances s) of None \<Rightarrow> 0 | Some b \<Rightarrow> ba_balance b)"

section \<open>Transfers and postings\<close>

definition max_id :: int where
  "max_id = 2 ^ 63 - 1"

text \<open>
  \<open>INSERT INTO transfers ... RETURNING id\<close>. The unique index on \<open>reference\<close> is older than the
  one on \<open>reverses_transfer_id\<close> and is checked first; the foreign key is checked last.
\<close>

definition insert_transfer :: "transfer \<Rightarrow> time \<Rightarrow> byte list \<Rightarrow> byte list \<Rightarrow> int stmt" where
  "insert_transfer t postedAt prev digest s =
     (let tid = seq_transfers s + 1;
          reverses = (if t_reverses t \<noteq> 0 then Some (t_reverses t) else None);
          s1 = s\<lparr>seq_transfers := tid\<rparr>
      in if max_id < tid then (Inl SequenceExhausted, s)
         else if t_reference t \<in> tr_reference ` set (transfers s)
         then (Inl (UniqueViolation ''transfers_reference_key''), s1)
         else if reverses \<noteq> None \<and> reverses \<in> tr_reverses ` set (transfers s)
         then (Inl (UniqueViolation ''transfers_reverses_key''), s1)
         else if reverses \<noteq> None \<and> the reverses \<noteq> tid \<and> the reverses \<notin> tr_id ` set (transfers s)
         then (Inl ForeignKeyViolation, s1)
         else (Inr tid, s1\<lparr>transfers := transfers s @
                 [\<lparr>tr_id = tid, tr_reference = t_reference t, tr_description = t_description t,
                   tr_posted_at = postedAt, tr_prev_hash = prev, tr_hash = digest, tr_reverses = reverses\<rparr>]\<rparr>))"

definition posting_row_of :: "int \<Rightarrow> int \<Rightarrow> posting \<Rightarrow> posting_row" where
  "posting_row_of tid k p = \<lparr>po_id = k, po_transfer_id = tid, po_account_id = p_account p,
     po_amount = m_amount (p_amount p), po_currency = p_currency p, po_direction = p_dir p\<rparr>"

definition insert_posting :: "int \<Rightarrow> posting \<Rightarrow> unit stmt" where
  "insert_posting tid p s =
     (let k = seq_postings s + 1; s1 = s\<lparr>seq_postings := k\<rparr>
      in if max_id < k then (Inl SequenceExhausted, s)
         else if sint (m_amount (p_amount p)) \<le> 0 \<or> \<not> valid_dir (p_dir p) then (Inl CheckViolation, s1)
         else if tid \<notin> tr_id ` set (transfers s) \<or> p_account p \<notin> a_id ` set (accounts s)
         then (Inl ForeignKeyViolation, s1)
         else (Inr (), s1\<lparr>postings := postings s @ [posting_row_of tid k p]\<rparr>))"

text \<open>\<open>SELECT hash FROM transfers ORDER BY id DESC LIMIT 1\<close>; no row leaves the slice nil.\<close>

definition newest_hash :: "db \<Rightarrow> byte list" where
  "newest_hash s = (if transfers s = [] then [] else tr_hash (last (sort_key tr_id (transfers s))))"

text \<open>The postings of a transfer, \<open>ORDER BY id\<close>, as Go values.\<close>

definition posting_of_row :: "posting_row \<Rightarrow> posting" where
  "posting_of_row r = \<lparr>p_account = po_account_id r,
     p_amount = \<lparr>m_amount = po_amount r, m_currency = po_currency r\<rparr>, p_dir = po_direction r\<rparr>"

definition postings_of :: "db \<Rightarrow> int \<Rightarrow> posting list" where
  "postings_of s tid = map posting_of_row (sort_key po_id (filter (\<lambda>r. po_transfer_id r = tid) (postings s)))"

definition transfer_of_row :: "db \<Rightarrow> transfer_row \<Rightarrow> transfer" where
  "transfer_of_row s r = \<lparr>t_reference = tr_reference r, t_description = tr_description r,
     t_postings = postings_of s (tr_id r), t_posted_at = tr_posted_at r,
     t_reverses = (case tr_reverses r of None \<Rightarrow> 0 | Some i \<Rightarrow> i)\<rparr>"

text \<open>\<open>CASE direction WHEN 'debit' THEN amount ELSE -amount END\<close> of a stored posting.\<close>

definition row_exact :: "posting_row \<Rightarrow> int" where
  "row_exact r = sql_signed (po_direction r) (po_amount r)"

section \<open>Holds\<close>

text \<open>\<open>sum(amount) ... WHERE account_id = $1 AND status = 'active' AND id <> $2\<close>, a numeric.\<close>

definition held_sum :: "db \<Rightarrow> string \<Rightarrow> int \<Rightarrow> int" where
  "held_sum s acc exclude = sum_list (map (\<lambda>h. sint (m_amount (h_amount h)))
     (filter (\<lambda>h. h_account h = acc \<and> h_status h = HoldActive \<and> h_id h \<noteq> exclude) (holds s)))"

definition insert_hold :: "string \<Rightarrow> string \<Rightarrow> money \<Rightarrow> time option \<Rightarrow> time \<Rightarrow> hold stmt" where
  "insert_hold acc reference m expires now s =
     (let k = seq_holds s + 1; s1 = s\<lparr>seq_holds := k\<rparr>;
          h = \<lparr>h_id = k, h_account = acc, h_reference = reference, h_amount = m, h_status = HoldActive,
               h_created_at = now, h_expires_at = expires, h_closed_at = None, h_transfer_id = None\<rparr>
      in if max_id < k then (Inl SequenceExhausted, s)
         else if sint (m_amount m) \<le> 0 then (Inl CheckViolation, s1)
         else if reference \<in> h_reference ` set (holds s) then (Inl (UniqueViolation ''holds_reference_key''), s1)
         else if acc \<notin> a_id ` set (accounts s) then (Inl ForeignKeyViolation, s1)
         else (Inr h, s1\<lparr>holds := holds s @ [h]\<rparr>))"

text \<open>\<open>UPDATE holds SET status = ..., closed_at = now() ... WHERE p\<close>: the number of rows affected.\<close>

definition close_holds :: "(hold \<Rightarrow> bool) \<Rightarrow> HoldStatus \<Rightarrow> time \<Rightarrow> (int option \<Rightarrow> int option) \<Rightarrow> nat stmt" where
  "close_holds p status now tid s =
     (Inr (length (filter p (holds s))),
      s\<lparr>holds := update_rows p
          (\<lambda>h. h\<lparr>h_status := status, h_closed_at := Some now, h_transfer_id := tid (h_transfer_id h)\<rparr>) (holds s)\<rparr>)"

lemma forward_stmts [intro]:
  "forward (insert_account a)" "forward (insert_balance acc)" "forward (upsert_balance acc d)"
  "forward (archive_account acc)" "forward (insert_transfer t at pr dg)" "forward (insert_posting tid p')"
  "forward (insert_hold acc ref m ex now)" "forward (close_holds q st now f)"
  by (auto simp: forward_def seqs_from_def Let_def insert_account_def insert_balance_def
      upsert_balance_def archive_account_def insert_transfer_def insert_posting_def insert_hold_def
      close_holds_def split: if_splits option.splits)

lemmas stmt_defs = insert_account_def insert_balance_def upsert_balance_def archive_account_def
  insert_transfer_def insert_posting_def insert_hold_def close_holds_def

end
