(* ===== verification/Store.thy ===== *)
theory Store
  imports Schema
begin

text \<open>
  \<open>src/ledger/store.go\<close>: accounts, \<open>Post\<close> with its account locks, chain link, balance
  updates and overdraft guard, and \<open>Reverse\<close>; with \<open>availableLocked\<close> of \<open>hold.go\<close> and
  \<open>TransferByReference\<close> of \<open>query.go\<close>, which they call. The lemmas describe a successful
  \<open>post\<close> completely (\<open>post_success\<close>): the rows it appends, the balances it leaves, what it
  has checked.
\<close>

section \<open>Accounts\<close>

definition CreateAccount :: "ledger \<Rightarrow> account \<Rightarrow> unit run" where
  "CreateAccount l a =
     (if a_id a = [] then fail_with ErrInvalidAccount
      else if \<not> valid_type (a_type a) then fail_with ErrInvalidType
      else if \<not> validCurrency (a_currency a) then fail_with ErrInvalidCurrency
      else inTx l (and_then (sql (insert_account a)) (\<lambda>rows.
             if rows = 0 then fail_with ErrAccountExists else sql (insert_balance (a_id a)))))"

definition get_account :: "string \<Rightarrow> account run" where
  "get_account acc = and_then (select (\<lambda>s. find_row a_id acc (accounts s))) (\<lambda>r.
     case r of None \<Rightarrow> fail_with ErrUnknownAccount | Some a \<Rightarrow> ret a)"

definition Account :: "ledger \<Rightarrow> string \<Rightarrow> account run" where
  "Account l acc = inTx l (get_account acc)"

definition Archive :: "ledger \<Rightarrow> string \<Rightarrow> unit run" where
  "Archive l acc = inTx l (and_then (sql (archive_account acc)) (\<lambda>rows.
     if rows = 0 then fail_with ErrUnknownAccount else ret ()))"

section \<open>Posting\<close>

definition resolve_posted_at :: "time \<Rightarrow> transfer \<Rightarrow> time" where
  "resolve_posted_at now t = Truncate_us (if IsZero_time (t_posted_at t) then now else t_posted_at t)"

fun collect_ids :: "posting list \<Rightarrow> string list \<Rightarrow> string list" where
  "collect_ids [] seen = []"
| "collect_ids (p # ps) seen =
     (if p_account p \<in> set seen then collect_ids ps seen
      else p_account p # collect_ids ps (p_account p # seen))"

text \<open>The accounts a transfer touches, \<open>ORDER BY id FOR UPDATE\<close>.\<close>

definition lockAccounts :: "transfer \<Rightarrow> account list run" where
  "lockAccounts t = select (\<lambda>s. sort_key a_id
     (filter (\<lambda>a. a_id a \<in> set (collect_ids (t_postings t) [])) (accounts s)))"

fun check_accounts :: "account list \<Rightarrow> posting list \<Rightarrow> ledger_error + unit" where
  "check_accounts accs [] = Inr ()"
| "check_accounts accs (p # ps) =
     (case find_row a_id (p_account p) accs of
        None \<Rightarrow> Inl ErrUnknownAccount
      | Some acc \<Rightarrow>
          if a_archived acc then Inl ErrAccountArchived
          else if a_currency acc \<noteq> p_currency p then Inl ErrCurrencyMismatch
          else check_accounts accs ps)"

text \<open>What \<open>post\<close> makes of an error of the transfer insert.\<close>

fun isUniqueViolation :: "ledger_error \<Rightarrow> bool" where
  "isUniqueViolation (DbError (UniqueViolation c)) = True"
| "isUniqueViolation _ = False"

fun uniqueViolationOn :: "ledger_error \<Rightarrow> string \<Rightarrow> bool" where
  "uniqueViolationOn (DbError (UniqueViolation c)) constraint \<longleftrightarrow> c = constraint"
| "uniqueViolationOn _ constraint \<longleftrightarrow> False"

definition insert_error :: "transfer \<Rightarrow> ledger_error \<Rightarrow> ledger_error" where
  "insert_error t e =
     (if isUniqueViolation e
      then (if t_reverses t \<noteq> 0 \<and> uniqueViolationOn e ''transfers_reverses_key'' then ErrAlreadyReversed
            else ErrDuplicateReference)
      else e)"

text \<open>\<open>applyBalances\<close>: sum per account in the order of first appearance, then one upsert each.\<close>

fun delta_loop :: "posting list \<Rightarrow> (string \<times> int64) list \<Rightarrow> (string \<times> int64) list" where
  "delta_loop [] delta = delta"
| "delta_loop (p # ps) delta = delta_loop ps (add_at (p_account p) (signed_of p) delta)"

definition applyBalances :: "transfer \<Rightarrow> unit run" where
  "applyBalances t = for_each
     (\<lambda>(acc, d). if d = 0 then ret () else sql (upsert_balance acc d))
     (delta_loop (t_postings t) [])"

definition availableLocked :: "account \<Rightarrow> int \<Rightarrow> int64 run" where
  "availableLocked acc excludeHold =
     and_then (select (\<lambda>s. (balance_of s (a_id acc), held_sum s (a_id acc) excludeHold)))
       (\<lambda>(raw, held). if \<not> fits64 held then fail_with ScanOutOfRange
                       else ret (normalise raw (a_type acc) - word_of_int held))"

definition guard_account :: "int \<Rightarrow> account \<Rightarrow> unit run" where
  "guard_account excludeHold acc =
     (if a_allow_negative acc then ret ()
      else and_then (availableLocked acc excludeHold) (\<lambda>avail.
             if sint avail < 0 then fail_with ErrInsufficientFunds else ret ()))"

text \<open>
  \<open>post\<close> returns the new id and the transfer with its resolved instant. The accounts are
  guarded in the order they were read; Go ranges over the map in no fixed order.
\<close>

definition post :: "time \<Rightarrow> transfer \<Rightarrow> int \<Rightarrow> (int \<times> transfer) run" where
  "post now t0 excludeHold =
     (let postedAt = resolve_posted_at now t0; t = t0\<lparr>t_posted_at := postedAt\<rparr> in
      and_then (lockAccounts t) (\<lambda>accs.
      and_then (of_result (check_accounts accs (t_postings t))) (\<lambda>_.
      and_then (select (\<lambda>s. ())) (\<lambda>_. \<comment> \<open>\<open>pg_advisory_xact_lock(chainLockKey)\<close>\<close>
      and_then (select newest_hash) (\<lambda>prev.
      and_then (map_error (insert_error t)
                 (sql (insert_transfer t postedAt prev (chainDigest prev t postedAt)))) (\<lambda>tid.
      and_then (for_each (\<lambda>p. sql (insert_posting tid p)) (t_postings t)) (\<lambda>_.
      and_then (applyBalances t) (\<lambda>_.
      and_then (for_each (guard_account excludeHold) accs) (\<lambda>_.
      ret (tid, t))))))))))"

definition Post :: "ledger \<Rightarrow> time \<Rightarrow> transfer \<Rightarrow> (int \<times> transfer) run" where
  "Post l now t =
     (case Validate t of Some e \<Rightarrow> fail_with e | None \<Rightarrow> inTx l (post now t 0))"

section \<open>Reversal\<close>

definition find_transfer :: "string \<Rightarrow> transfer_row run" where
  "find_transfer reference = and_then (select (\<lambda>s. find_row tr_reference reference (transfers s))) (\<lambda>r.
     case r of None \<Rightarrow> fail_with ErrUnknownTransfer | Some row \<Rightarrow> ret row)"

definition TransferByReference :: "ledger \<Rightarrow> string \<Rightarrow> (transfer \<times> int) run" where
  "TransferByReference l reference =
     and_then (inTx l (find_transfer reference)) (\<lambda>row.
     and_then (inTx l (select (\<lambda>s. transfer_of_row s row))) (\<lambda>t.
     ret (t, tr_id row)))"

definition mirror :: "posting list \<Rightarrow> posting list" where
  "mirror ps = map (\<lambda>p. p\<lparr>p_dir := flip_dir (p_dir p)\<rparr>) ps"

definition reversal_of :: "string \<Rightarrow> string \<Rightarrow> string \<Rightarrow> transfer \<Rightarrow> int \<Rightarrow> transfer" where
  "reversal_of reference newReference description orig origID =
     \<lparr>t_reference = newReference,
      t_description = (if description = [] then ''reversal of '' @ reference else description),
      t_postings = mirror (t_postings orig), t_posted_at = zero_time, t_reverses = origID\<rparr>"

definition Reverse :: "ledger \<Rightarrow> time \<Rightarrow> string \<Rightarrow> string \<Rightarrow> string \<Rightarrow> (int \<times> transfer) run" where
  "Reverse l now reference newReference description =
     (if newReference = [] then fail_with ErrMissingReference
      else and_then (TransferByReference l reference) (\<lambda>(orig, origID).
             Post l now (reversal_of reference newReference description orig origID)))"

section \<open>Reading lemmas\<close>

lemma collect_ids_set: "set (collect_ids ps seen) \<union> set seen = p_account ` set ps \<union> set seen"
  by (induction ps seen rule: collect_ids.induct) auto

lemma collect_ids_set_Nil [simp]: "set (collect_ids ps []) = p_account ` set ps"
  using collect_ids_set [of ps "[]"] by simp

lemma check_accounts_Inr_iff:
  "check_accounts accs ps = Inr () \<longleftrightarrow>
     (\<forall>p \<in> set ps. \<exists>acc. find_row a_id (p_account p) accs = Some acc
        \<and> \<not> a_archived acc \<and> a_currency acc = p_currency p)"
  by (induction ps) (auto split: option.splits)

lemma find_row_sort_filter:
  assumes "distinct (map key rows)" "P k"
  shows "find_row key k (sort_key key (filter (\<lambda>r. P (key r)) rows)) = find_row key k rows"
proof -
  let ?f = "sort_key key (filter (\<lambda>r. P (key r)) rows)"
  have "distinct (map key (filter (\<lambda>r. P (key r)) rows))"
    using assms(1) by (rule distinct_map_filter)
  then have "distinct (map key ?f)"
    by (simp add: distinct_map)
  then have "find_row key k ?f = Some r \<longleftrightarrow> find_row key k rows = Some r" for r
    using assms by (auto simp: find_row_Some_iff)
  then show ?thesis by (metis not_None_eq)
qed

lemma get_account_Inr [simp, prog_simps]:
  "get_account acc s = (Inr a, s') \<longleftrightarrow>
     \<not> tx_aborted s \<and> find_row a_id acc (accounts s) = Some a \<and> s' = s"
  by (auto simp: get_account_def split: option.splits)

lemma availableLocked_Inr [prog_simps]:
  "availableLocked acc ex s = (Inr v, s') \<longleftrightarrow>
     \<not> tx_aborted s \<and> fits64 (held_sum s (a_id acc) ex) \<and> s' = s
     \<and> v = normalise (balance_of s (a_id acc)) (a_type acc) - word_of_int (held_sum s (a_id acc) ex)"
  by (auto simp: availableLocked_def)

lemma guard_account_Inr [prog_simps]:
  "guard_account ex acc s = (Inr u, s') \<longleftrightarrow> s' = s \<and>
     (a_allow_negative acc \<or> \<not> tx_aborted s \<and> fits64 (held_sum s (a_id acc) ex) \<and>
      0 \<le> sint (normalise (balance_of s (a_id acc)) (a_type acc) - word_of_int (held_sum s (a_id acc) ex)))"
  by (auto simp: guard_account_def availableLocked_Inr)

lemma for_each_read_Inr:
  assumes "\<And>x u s'. f x s = (Inr u, s') \<longleftrightarrow> s' = s \<and> P x"
  shows "for_each f xs s = (Inr u, s') \<longleftrightarrow> s' = s \<and> (\<forall>x \<in> set xs. P x)"
  by (induction xs) (auto simp: assms)

end
