(* ===== verification/Posting_Facts.thy ===== *)
theory Posting_Facts
  imports Store
begin

text \<open>
  What a successful \<open>post\<close> does, statement by statement and as a whole: \<open>post_success\<close>
  gives the state it leaves in terms of the state it found, and everything it checked.
  All invariants of the store are proved from it.
\<close>

section \<open>Inserting the postings\<close>

fun posting_rows :: "int \<Rightarrow> int \<Rightarrow> posting list \<Rightarrow> posting_row list" where
  "posting_rows tid k [] = []"
| "posting_rows tid k (p # ps) = posting_row_of tid (k + 1) p # posting_rows tid (k + 1) ps"

lemma length_posting_rows [simp]: "length (posting_rows tid k ps) = length ps"
  by (induction ps arbitrary: k) auto

lemma posting_of_posting_row [simp]: "posting_of_row (posting_row_of tid k p) = p"
  by (simp add: posting_of_row_def posting_row_of_def)

lemma postings_of_posting_rows [simp]: "map posting_of_row (posting_rows tid k ps) = ps"
  by (induction ps arbitrary: k) auto

lemma posting_rows_tid: "r \<in> set (posting_rows tid k ps) \<Longrightarrow> po_transfer_id r = tid"
  by (induction ps arbitrary: k) (auto simp: posting_row_of_def)

lemma posting_rows_ids: "map po_id (posting_rows tid k ps) = map (\<lambda>i. k + 1 + int i) [0..<length ps]"
proof (induction ps arbitrary: k)
  case (Cons p ps)
  have "map (\<lambda>i. k + 1 + int i) [0..<length (p # ps)]
      = (k + 1) # map (\<lambda>i. k + 1 + int (Suc i)) [0..<length ps]"
    by (simp add: upt_conv_Cons map_Suc_upt [symmetric] del: upt_Suc map_Suc_upt)
  with Cons show ?case by (simp add: posting_row_of_def algebra_simps)
qed simp

lemma posting_rows_bounds: "r \<in> set (posting_rows tid k ps) \<Longrightarrow> k < po_id r \<and> po_id r \<le> k + int (length ps)"
  by (induction ps arbitrary: k) (fastforce simp: posting_row_of_def)+

lemma posting_rows_sorted: "sorted_wrt (<) (map po_id (posting_rows tid k ps))"
  by (simp add: posting_rows_ids sorted_wrt_map)

lemma row_exact_of_row: "row_exact r = exact_of (posting_of_row r)"
  by (simp add: row_exact_def exact_of_def posting_of_row_def)

lemma insert_posting_Inr:
  assumes "insert_posting tid p s = (Inr u, s')"
  shows "s' = s\<lparr>seq_postings := seq_postings s + 1, postings := postings s @ [posting_row_of tid (seq_postings s + 1) p]\<rparr>
    \<and> 0 < sint (m_amount (p_amount p)) \<and> valid_dir (p_dir p)
    \<and> tid \<in> tr_id ` set (transfers s) \<and> p_account p \<in> a_id ` set (accounts s)"
  using assms unfolding insert_posting_def Let_def by (auto split: if_splits)

lemma insert_postings_Inr:
  assumes "for_each (\<lambda>p. sql (insert_posting tid p)) ps s = (Inr u, s')"
  shows "s' = s\<lparr>postings := postings s @ posting_rows tid (seq_postings s) ps,
                seq_postings := seq_postings s + int (length ps)\<rparr>
    \<and> (\<forall>p \<in> set ps. 0 < sint (m_amount (p_amount p)) \<and> valid_dir (p_dir p)
         \<and> tid \<in> tr_id ` set (transfers s) \<and> p_account p \<in> a_id ` set (accounts s))"
  using assms
proof (induction ps arbitrary: s)
  case (Cons p ps)
  from Cons.prems obtain s1 where ins: "insert_posting tid p s = (Inr (), s1)"
    and rest: "for_each (\<lambda>p. sql (insert_posting tid p)) ps s1 = (Inr u, s')"
    by auto
  from insert_posting_Inr [OF ins] Cons.IH [OF rest] show ?case by simp
qed simp

section \<open>Balances\<close>

definition bal_of :: "balance_row list \<Rightarrow> string \<Rightarrow> int" where
  "bal_of bs acc = (case find_row ba_account_id acc bs of None \<Rightarrow> 0 | Some b \<Rightarrow> sint (ba_balance b))"

lemma sint_balance_of [simp]: "sint (balance_of s acc) = bal_of (balances s) acc"
  by (simp add: balance_of_def bal_of_def split: option.splits)

lemma bal_of_fits [simp]: "fits64 (bal_of bs acc)"
  by (auto simp: bal_of_def split: option.splits) (simp add: fits64_def)

lemma upsert_Inr:
  assumes "upsert_balance acc d s = (Inr u, s')" and dist: "distinct (map ba_account_id (balances s))"
  shows "\<exists>bs. s' = s\<lparr>balances := bs\<rparr> \<and> distinct (map ba_account_id bs)
     \<and> ba_account_id ` set bs = insert acc (ba_account_id ` set (balances s))
     \<and> (acc \<in> ba_account_id ` set (balances s) \<or> acc \<in> a_id ` set (accounts s))
     \<and> (\<forall>a. bal_of bs a = bal_of (balances s) a + (if a = acc then sint d else 0))"
proof (cases "find_row ba_account_id acc (balances s)")
  case None
  then have "acc \<notin> ba_account_id ` set (balances s)" by (simp add: find_row_None_iff)
  with None assms show ?thesis
    by (intro exI [of _ "balances s @ [\<lparr>ba_account_id = acc, ba_balance = d\<rparr>]"])
       (auto simp: upsert_balance_def bal_of_def find_row_append split: if_splits option.splits)
next
  case (Some b)
  let ?up = "\<lambda>b. b\<lparr>ba_balance := ba_balance b + d\<rparr>"
  let ?bs = "update_rows (\<lambda>b. ba_account_id b = acc) ?up (balances s)"
  from Some assms(1) have fits: "fits64 (sint (ba_balance b) + sint d)" and s': "s' = s\<lparr>balances := ?bs\<rparr>"
    by (auto simp: upsert_balance_def split: if_splits)
  have keys: "map ba_account_id ?bs = map ba_account_id (balances s)" by simp
  have mem: "acc \<in> ba_account_id ` set (balances s)"
    using find_row_SomeD [OF Some] by auto
  have "bal_of ?bs a = bal_of (balances s) a + (if a = acc then sint d else 0)" for a
    using Some fits sint64_add [OF fits] find_row_SomeD [of ba_account_id a "balances s"]
    by (auto simp: bal_of_def find_row_update_rows split: option.splits)
  moreover have "ba_account_id ` set ?bs = ba_account_id ` set (balances s)"
    using keys by (metis list.set_map)
  ultimately show ?thesis
    using dist s' mem keys by (intro exI [of _ ?bs]) auto
qed

definition sum_at :: "(string \<times> int64) list \<Rightarrow> string \<Rightarrow> int" where
  "sum_at ds acc = sint (total_at ds acc)"

lemma upserts_Inr:
  assumes "for_each (\<lambda>(acc, d). if d = 0 then ret () else sql (upsert_balance acc d)) ds s = (Inr u, s')"
    and "distinct (map ba_account_id (balances s))" and "distinct (map fst ds)"
    and "ba_account_id ` set (balances s) \<subseteq> a_id ` set (accounts s)"
  shows "\<exists>bs. s' = s\<lparr>balances := bs\<rparr> \<and> distinct (map ba_account_id bs)
     \<and> ba_account_id ` set (balances s) \<subseteq> ba_account_id ` set bs
     \<and> ba_account_id ` set bs \<subseteq> a_id ` set (accounts s)
     \<and> (\<forall>a. bal_of bs a = bal_of (balances s) a + sum_at ds a)"
  using assms
proof (induction ds arbitrary: s)
  case Nil
  then show ?case by (intro exI [of _ "balances s"]) (simp add: sum_at_def total_at_def)
next
  case (Cons x ds)
  obtain acc d where x: "x = (acc, d)" by fastforce
  have absent: "total_at ds acc = 0"
    using Cons.prems(3) x by (intro total_at_absent) (auto simp: image_iff)
  have split: "sum_at ((acc, d) # ds) a = (if a = acc then sint d else 0) + sum_at ds a" for a
    using absent by (simp add: sum_at_def total_at_def)
  show ?case
  proof (cases "d = 0")
    case True
    with split have "sum_at (x # ds) = sum_at ds" by (simp add: x fun_eq_iff)
    with Cons.IH [of s] Cons.prems x True show ?thesis by simp
  next
    case False
    with Cons.prems(1) x obtain s1 where
      up: "upsert_balance acc d s = (Inr (), s1)" and
      rest: "for_each (\<lambda>(acc, d). if d = 0 then ret () else sql (upsert_balance acc d)) ds s1 = (Inr u, s')"
      by auto
    from upsert_Inr [OF up Cons.prems(2)] obtain bs where bs: "s1 = s\<lparr>balances := bs\<rparr>"
      "distinct (map ba_account_id bs)" "ba_account_id ` set bs = insert acc (ba_account_id ` set (balances s))"
      "acc \<in> ba_account_id ` set (balances s) \<or> acc \<in> a_id ` set (accounts s)"
      "\<forall>a. bal_of bs a = bal_of (balances s) a + (if a = acc then sint d else 0)"
      by auto
    have "\<exists>bs'. s' = s1\<lparr>balances := bs'\<rparr> \<and> distinct (map ba_account_id bs')
     \<and> ba_account_id ` set (balances s1) \<subseteq> ba_account_id ` set bs'
     \<and> ba_account_id ` set bs' \<subseteq> a_id ` set (accounts s1)
     \<and> (\<forall>a. bal_of bs' a = bal_of (balances s1) a + sum_at ds a)"
      using bs Cons.prems by (intro Cons.IH [OF rest]) auto
    then obtain bs' where bs': "s' = s1\<lparr>balances := bs'\<rparr>" "distinct (map ba_account_id bs')"
      "ba_account_id ` set (balances s1) \<subseteq> ba_account_id ` set bs'"
      "ba_account_id ` set bs' \<subseteq> a_id ` set (accounts s1)"
      "\<forall>a. bal_of bs' a = bal_of (balances s1) a + sum_at ds a" by blast
    from bs bs' x split show ?thesis by (intro exI [of _ bs']) auto
  qed
qed

text \<open>The movement of one account, as Go sums it.\<close>

definition delta_of :: "posting list \<Rightarrow> string \<Rightarrow> int64" where
  "delta_of ps acc = sum_list (map signed_of (filter (\<lambda>p. p_account p = acc) ps))"

lemma delta_loop_total: "total_at (delta_loop ps m) acc = total_at m acc + delta_of ps acc"
  by (induction ps arbitrary: m) (auto simp: total_at_add_at delta_of_def)

lemma delta_loop_distinct: "distinct (map fst m) \<Longrightarrow> distinct (map fst (delta_loop ps m))"
  by (induction ps arbitrary: m) (auto simp: distinct_add_at)

lemma sum_at_delta_loop [simp]: "sum_at (delta_loop ps []) acc = sint (delta_of ps acc)"
  by (simp add: sum_at_def delta_loop_total) (simp add: total_at_def)

section \<open>A successful post\<close>

definition stored_reverses :: "transfer \<Rightarrow> int option" where
  "stored_reverses t = (if t_reverses t \<noteq> 0 then Some (t_reverses t) else None)"

definition new_row :: "db \<Rightarrow> int \<Rightarrow> transfer \<Rightarrow> transfer_row" where
  "new_row s tid t = \<lparr>tr_id = tid, tr_reference = t_reference t, tr_description = t_description t,
     tr_posted_at = t_posted_at t, tr_prev_hash = newest_hash s,
     tr_hash = chainDigest (newest_hash s) t (t_posted_at t), tr_reverses = stored_reverses t\<rparr>"

definition post_state :: "db \<Rightarrow> int \<Rightarrow> transfer \<Rightarrow> balance_row list \<Rightarrow> db" where
  "post_state s tid t bs = s\<lparr>transfers := transfers s @ [new_row s tid t],
     postings := postings s @ posting_rows tid (seq_postings s) (t_postings t), balances := bs,
     seq_transfers := tid, seq_postings := seq_postings s + int (length (t_postings t))\<rparr>"

lemma post_state_simps [simp]:
  "accounts (post_state s tid t bs) = accounts s"
  "transfers (post_state s tid t bs) = transfers s @ [new_row s tid t]"
  "postings (post_state s tid t bs) = postings s @ posting_rows tid (seq_postings s) (t_postings t)"
  "balances (post_state s tid t bs) = bs"
  "holds (post_state s tid t bs) = holds s"
  "seq_transfers (post_state s tid t bs) = tid"
  "seq_postings (post_state s tid t bs) = seq_postings s + int (length (t_postings t))"
  "seq_holds (post_state s tid t bs) = seq_holds s"
  "tx_aborted (post_state s tid t bs) = tx_aborted s"
  by (simp_all add: post_state_def)

lemma new_row_simps [simp]:
  "tr_id (new_row s tid t) = tid" "tr_reference (new_row s tid t) = t_reference t"
  "tr_description (new_row s tid t) = t_description t" "tr_posted_at (new_row s tid t) = t_posted_at t"
  "tr_prev_hash (new_row s tid t) = newest_hash s"
  "tr_hash (new_row s tid t) = chainDigest (newest_hash s) t (t_posted_at t)"
  "tr_reverses (new_row s tid t) = stored_reverses t"
  by (simp_all add: new_row_def)

text \<open>The keys the store relies on.\<close>

definition keys_ok :: "db \<Rightarrow> bool" where
  "keys_ok s \<longleftrightarrow> distinct (map a_id (accounts s)) \<and> distinct (map ba_account_id (balances s))
     \<and> ba_account_id ` set (balances s) \<subseteq> a_id ` set (accounts s)"

text \<open>What \<open>post\<close> has checked of the guarded accounts it touched.\<close>

definition guard_passed :: "db \<Rightarrow> int \<Rightarrow> account \<Rightarrow> bool" where
  "guard_passed s ex a \<longleftrightarrow> a_allow_negative a \<or> fits64 (held_sum s (a_id a) ex) \<and>
      0 \<le> sint (normalise (balance_of s (a_id a)) (a_type a) - word_of_int (held_sum s (a_id a) ex))"

definition post_checked :: "db \<Rightarrow> transfer \<Rightarrow> bool" where
  "post_checked s t \<longleftrightarrow>
     (\<forall>p \<in> set (t_postings t). \<exists>a. find_row a_id (p_account p) (accounts s) = Some a
        \<and> \<not> a_archived a \<and> a_currency a = p_currency p \<and> 0 < sint (m_amount (p_amount p)) \<and> valid_dir (p_dir p))
     \<and> t_reference t \<notin> tr_reference ` set (transfers s)
     \<and> (stored_reverses t = None \<or> stored_reverses t \<notin> tr_reverses ` set (transfers s))
     \<and> (t_reverses t = 0 \<or> t_reverses t = seq_transfers s + 1 \<or> t_reverses t \<in> tr_id ` set (transfers s))
     \<and> seq_transfers s < max_id"

lemma insert_transfer_Inr:
  assumes "insert_transfer t at prev dg s = (Inr tid, s')"
  shows "tid = seq_transfers s + 1 \<and> seq_transfers s < max_id
    \<and> s' = s\<lparr>seq_transfers := tid, transfers := transfers s @
         [\<lparr>tr_id = tid, tr_reference = t_reference t, tr_description = t_description t,
           tr_posted_at = at, tr_prev_hash = prev, tr_hash = dg, tr_reverses = stored_reverses t\<rparr>]\<rparr>
    \<and> t_reference t \<notin> tr_reference ` set (transfers s)
    \<and> (stored_reverses t = None \<or> stored_reverses t \<notin> tr_reverses ` set (transfers s))
    \<and> (t_reverses t = 0 \<or> t_reverses t = tid \<or> t_reverses t \<in> tr_id ` set (transfers s))"
  using assms unfolding insert_transfer_def Let_def stored_reverses_def
  by (simp split: if_splits) auto

text \<open>The parts of \<open>post\<close>: the rows it locks, the balances it moves, the guard it runs over them.\<close>

lemma find_locked:
  "keys_ok s \<Longrightarrow> k \<in> ks \<Longrightarrow>
     find_row a_id k (sort_key a_id (filter (\<lambda>a. a_id a \<in> ks) (accounts s))) = find_row a_id k (accounts s)"
  using find_row_sort_filter [of a_id "accounts s" "\<lambda>k. k \<in> ks"] by (auto simp: keys_ok_def)

lemma applyBalances_Inr:
  assumes "applyBalances t s = (Inr (), s')" "keys_ok s"
  shows "\<exists>bs. s' = s\<lparr>balances := bs\<rparr> \<and> keys_ok s' \<and> ba_account_id ` set (balances s) \<subseteq> ba_account_id ` set bs
    \<and> (\<forall>a. bal_of bs a = bal_of (balances s) a + sint (delta_of (t_postings t) a))"
proof -
  have "for_each (\<lambda>(acc, d). if d = 0 then ret () else sql (upsert_balance acc d)) (delta_loop (t_postings t) []) s = (Inr (), s')"
    using assms(1) by (simp add: applyBalances_def)
  from upserts_Inr [OF this _ delta_loop_distinct] assms(2) show ?thesis by (auto simp: keys_ok_def)
qed

lemma guards_Inr:
  assumes "for_each (guard_account ex) accs s = (Inr (), s')" "\<not> tx_aborted s"
  shows "s' = s \<and> (\<forall>a \<in> set accs. guard_passed s ex a)"
proof -
  have "guard_account ex a s = (Inr u, s'') \<longleftrightarrow> s'' = s \<and> guard_passed s ex a" for a u s''
    using assms(2) by (auto simp: guard_account_Inr guard_passed_def)
  from for_each_read_Inr [of "guard_account ex" s, OF this] assms(1) show ?thesis by blast
qed

lemma post_success:
  assumes run: "post now t0 ex s = (Inr (tid, t), s')" and keys: "keys_ok s"
  shows "\<not> tx_aborted s \<and> t = t0\<lparr>t_posted_at := resolve_posted_at now t0\<rparr> \<and> tid = seq_transfers s + 1
    \<and> post_checked s t
    \<and> (\<exists>bs. s' = post_state s tid t bs \<and> keys_ok s'
         \<and> ba_account_id ` set (balances s) \<subseteq> ba_account_id ` set bs
         \<and> (\<forall>a. bal_of bs a = bal_of (balances s) a + sint (delta_of (t_postings t) a)))
    \<and> (\<forall>a \<in> set (accounts s). a_id a \<in> p_account ` set (t_postings t) \<longrightarrow> guard_passed s' ex a)"
proof -
  let ?t = "t0\<lparr>t_posted_at := resolve_posted_at now t0\<rparr>"
  let ?accs = "sort_key a_id (filter (\<lambda>a. a_id a \<in> p_account ` set (t_postings t0)) (accounts s))"
  let ?digest = "chainDigest (newest_hash s) ?t (resolve_posted_at now t0)"
  from run obtain s1 s2 s3 where ab: "\<not> tx_aborted s" and t: "t = ?t"
    and chk: "check_accounts ?accs (t_postings t0) = Inr ()"
    and ins: "insert_transfer ?t (resolve_posted_at now t0) (newest_hash s) ?digest s = (Inr tid, s1)"
    and posts: "for_each (\<lambda>p. sql (insert_posting tid p)) (t_postings t0) s1 = (Inr (), s2)"
    and app: "applyBalances ?t s2 = (Inr (), s3)"
    and guard: "for_each (guard_account ex) ?accs s3 = (Inr (), s')"
    by (auto simp: post_def Let_def lockAccounts_def)
  note I = insert_transfer_Inr [OF ins]
  note P = insert_postings_Inr [OF posts]
  have keys2: "keys_ok s2" using keys I P by (simp add: keys_ok_def)
  from applyBalances_Inr [OF app keys2] obtain bs where bs: "s3 = s2\<lparr>balances := bs\<rparr>" "keys_ok s3"
     "ba_account_id ` set (balances s2) \<subseteq> ba_account_id ` set bs"
     "\<forall>a. bal_of bs a = bal_of (balances s2) a + sint (delta_of (t_postings t0) a)"
    by auto
  have g: "s' = s3 \<and> (\<forall>a \<in> set ?accs. guard_passed s3 ex a)"
    using guards_Inr [OF guard] ab I P bs by simp
  have s': "s' = post_state s tid t bs"
    using I P bs g t by (simp add: post_state_def new_row_def)
  have "post_checked s t"
    using chk I P t find_locked [OF keys, of _ "p_account ` set (t_postings t0)"]
    unfolding post_checked_def check_accounts_Inr_iff by auto
  moreover have "keys_ok s'"
    using bs(2) g by simp
  moreover have "\<forall>a. bal_of bs a = bal_of (balances s) a + sint (delta_of (t_postings t) a)"
    using bs I P t by simp
  moreover have "ba_account_id ` set (balances s) \<subseteq> ba_account_id ` set bs"
    using bs I P by simp
  ultimately show ?thesis
    using ab t I s' g by auto
qed

end
