(* ===== verification/Holds.thy ===== *)
theory Holds
  imports Posting_Facts
begin

text \<open>
  \<open>src/ledger/hold.go\<close>: placing, capturing, releasing and expiring holds, and the available
  balance. Go's clock (\<open>time.Now()\<close>) and the database's (\<open>now()\<close>) are arguments: the code
  reads both. The lemmas describe each successful operation by the state it leaves.
\<close>

section \<open>Operations\<close>

record HoldRequest =
  hr_account :: string
  hr_reference :: string
  hr_amount :: money
  hr_expires_at :: time

definition lockAccount :: "string \<Rightarrow> account run" where
  "lockAccount acc = get_account acc"

definition hold_insert_error :: "ledger_error \<Rightarrow> ledger_error" where
  "hold_insert_error e = (if isUniqueViolation e then ErrDuplicateReference else e)"

definition hold_body :: "time \<Rightarrow> HoldRequest \<Rightarrow> hold run" where
  "hold_body pg_now req =
     and_then (lockAccount (hr_account req)) (\<lambda>acc.
       if a_archived acc then fail_with ErrAccountArchived
       else if a_currency acc \<noteq> m_currency (hr_amount req) then fail_with ErrCurrencyMismatch
       else and_then
         (if \<not> a_allow_negative acc
          then and_then (availableLocked acc 0) (\<lambda>avail.
                 if sint avail < sint (m_amount (hr_amount req)) then fail_with ErrInsufficientFunds else ret ())
          else ret ())
         (\<lambda>_. map_error hold_insert_error
                (sql (insert_hold (a_id acc) (hr_reference req) (hr_amount req)
                   (if IsZero_time (hr_expires_at req) then None else Some (Truncate_us (hr_expires_at req))) pg_now))))"

definition Hold :: "ledger \<Rightarrow> time \<Rightarrow> HoldRequest \<Rightarrow> hold run" where
  "Hold l pg_now req =
     (if hr_reference req = [] then fail_with ErrMissingReference
      else if sint (m_amount (hr_amount req)) \<le> 0 then fail_with ErrNonPositiveAmount
      else inTx l (hold_body pg_now req))"

definition lockHold :: "string \<Rightarrow> hold run" where
  "lockHold reference = and_then (select (\<lambda>s. find_row h_reference reference (holds s))) (\<lambda>r.
     case r of None \<Rightarrow> fail_with ErrUnknownHold | Some h \<Rightarrow> ret h)"

definition HoldByReference :: "ledger \<Rightarrow> string \<Rightarrow> hold run" where
  "HoldByReference l reference = inTx l (lockHold reference)"

text \<open>The amount a transfer takes off an account, on its normal side: the loop of \<open>Capture\<close>.\<close>

fun spent_loop :: "string \<Rightarrow> AccountType \<Rightarrow> posting list \<Rightarrow> int64 \<Rightarrow> int64" where
  "spent_loop acc typ [] spent = spent"
| "spent_loop acc typ (p # ps) spent =
     spent_loop acc typ ps
       (if p_account p = acc then spent - normalise (signed (p_dir p) (m_amount (p_amount p))) typ else spent)"

definition past_due :: "time \<Rightarrow> hold \<Rightarrow> bool" where
  "past_due now h = (case h_expires_at h of None \<Rightarrow> False | Some e \<Rightarrow> \<not> now < e)"

definition plain :: "'a run \<Rightarrow> (ledger_error \<times> int, db, 'a) prog" where
  "plain m = map_error (\<lambda>e. (e, 0)) m"

text \<open>
  The transaction of \<open>Capture\<close>. An error carries the value of the Go variable \<open>expired\<close>:
  the id of a hold found past due, else 0.
\<close>

definition capture_body ::
  "time \<Rightarrow> time \<Rightarrow> time \<Rightarrow> string \<Rightarrow> transfer \<Rightarrow> (ledger_error \<times> int, db, int \<times> transfer) prog" where
  "capture_body now post_now pg_now holdReference t =
     and_then (plain (lockHold holdReference)) (\<lambda>h.
       if h_status h \<noteq> HoldActive then fail_with (ErrHoldNotActive, 0)
       else if past_due now h then fail_with (ErrHoldExpired, h_id h)
       else and_then (plain (lockAccount (h_account h))) (\<lambda>acc.
         let spent = spent_loop (h_account h) (a_type acc) (t_postings t) 0 in
         if sint spent \<le> 0 then fail_with (ErrCaptureMismatch, 0)
         else if sint (m_amount (h_amount h)) < sint spent then fail_with (ErrCaptureMismatch, 0)
         else and_then (plain (post post_now t (h_id h))) (\<lambda>(tid, t').
              and_then (plain (sql (close_holds (\<lambda>h'. h_id h' = h_id h) HoldCaptured pg_now (\<lambda>_. Some tid)))) (\<lambda>_.
              ret (tid, t')))))"

text \<open>
  After the transaction, a past-due hold is marked on its own. If that fails too, Go joins
  the two errors; the sentinel of the first is what a caller can test for.
\<close>

definition Capture :: "ledger \<Rightarrow> time \<Rightarrow> time \<Rightarrow> time \<Rightarrow> string \<Rightarrow> transfer \<Rightarrow> (int \<times> transfer) run" where
  "Capture l now post_now pg_now holdReference t s =
     (case Validate t of
        Some e \<Rightarrow> (Inl e, s)
      | None \<Rightarrow>
         (case inTx l (capture_body now post_now pg_now holdReference t) s of
            (Inr r, s1) \<Rightarrow> (Inr r, s1)
          | (Inl (e, expired), s1) \<Rightarrow>
              if expired \<noteq> 0
              then (Inl e, snd (inTx l (sql (close_holds (\<lambda>h. h_id h = expired \<and> h_status h = HoldActive)
                                               HoldExpired pg_now (\<lambda>x. x))) s1))
              else (Inl e, s1)))"

definition Release :: "ledger \<Rightarrow> time \<Rightarrow> string \<Rightarrow> unit run" where
  "Release l pg_now holdReference =
     inTx l (and_then (lockHold holdReference) (\<lambda>h.
       if h_status h \<noteq> HoldActive then fail_with ErrHoldNotActive
       else and_then (sql (close_holds (\<lambda>h'. h_id h' = h_id h) HoldReleased pg_now (\<lambda>x. x))) (\<lambda>_. ret ())))"

definition ExpireHolds :: "ledger \<Rightarrow> time \<Rightarrow> nat run" where
  "ExpireHolds l pg_now =
     inTx l (sql (close_holds
       (\<lambda>h. h_status h = HoldActive \<and> (case h_expires_at h of None \<Rightarrow> False | Some e \<Rightarrow> e \<le> pg_now))
       HoldExpired pg_now (\<lambda>x. x)))"

definition Available :: "ledger \<Rightarrow> string \<Rightarrow> money run" where
  "Available l acc =
     and_then (Account l acc) (\<lambda>a.
     and_then (inTx l (availableLocked a 0)) (\<lambda>avail.
     ret \<lparr>m_amount = avail, m_currency = a_currency a\<rparr>))"

section \<open>What success means\<close>

lemma plain_Inr [simp, prog_simps]: "plain m s = (Inr x, s') \<longleftrightarrow> m s = (Inr x, s')"
  by (simp add: plain_def)

lemma lockAccount_Inr [simp, prog_simps]:
  "lockAccount acc s = (Inr a, s') \<longleftrightarrow>
     \<not> tx_aborted s \<and> find_row a_id acc (accounts s) = Some a \<and> s' = s"
  by (simp add: lockAccount_def)

lemma lockHold_Inr [simp, prog_simps]:
  "lockHold reference s = (Inr h, s') \<longleftrightarrow>
     \<not> tx_aborted s \<and> find_row h_reference reference (holds s) = Some h \<and> s' = s"
  by (auto simp: lockHold_def split: option.splits)

lemma normalise_add: "normalise (x + y) t = normalise x t + normalise y t"
  by (simp add: normalise_def)

lemma spent_loop_delta:
  "spent_loop acc typ ps x = x - normalise (delta_of ps acc) typ"
  by (induction ps arbitrary: x)
     (auto simp: delta_of_def normalise_add signed_of_def normalise_def)

text \<open>The available balance of an account over the integers.\<close>

definition available :: "db \<Rightarrow> account \<Rightarrow> int \<Rightarrow> int" where
  "available s a ex = normal_side (a_type a) (bal_of (balances s) (a_id a)) - held_sum s (a_id a) ex"

lemma insert_hold_Inr:
  assumes "insert_hold acc reference m expires now s = (Inr h, s')"
  shows "h = \<lparr>h_id = seq_holds s + 1, h_account = acc, h_reference = reference, h_amount = m,
       h_status = HoldActive, h_created_at = now, h_expires_at = expires, h_closed_at = None, h_transfer_id = None\<rparr>
    \<and> s' = s\<lparr>seq_holds := seq_holds s + 1, holds := holds s @ [h]\<rparr>
    \<and> 0 < sint (m_amount m) \<and> reference \<notin> h_reference ` set (holds s)
    \<and> acc \<in> a_id ` set (accounts s) \<and> seq_holds s < max_id"
  using assms unfolding insert_hold_def Let_def by (auto split: if_splits)

lemma hold_body_success:
  assumes "hold_body pg_now req s = (Inr h, s')"
  shows "\<not> tx_aborted s
    \<and> h_id h = seq_holds s + 1 \<and> h_account h = hr_account req \<and> h_reference h = hr_reference req
    \<and> h_amount h = hr_amount req \<and> h_status h = HoldActive \<and> h_transfer_id h = None
    \<and> s' = s\<lparr>seq_holds := seq_holds s + 1, holds := holds s @ [h]\<rparr>
    \<and> 0 < sint (m_amount (hr_amount req)) \<and> hr_reference req \<notin> h_reference ` set (holds s)
    \<and> (\<exists>a. find_row a_id (hr_account req) (accounts s) = Some a \<and> \<not> a_archived a
         \<and> a_currency a = m_currency (hr_amount req)
         \<and> (a_allow_negative a \<or> fits64 (held_sum s (a_id a) 0)
            \<and> sint (m_amount (hr_amount req))
                \<le> sint (normalise (balance_of s (a_id a)) (a_type a) - word_of_int (held_sum s (a_id a) 0))))"
proof -
  let ?exp = "if IsZero_time (hr_expires_at req) then None else Some (Truncate_us (hr_expires_at req))"
  from assms obtain a where
    "\<not> tx_aborted s" "find_row a_id (hr_account req) (accounts s) = Some a" "\<not> a_archived a"
    "a_currency a = m_currency (hr_amount req)"
    "a_allow_negative a \<or> fits64 (held_sum s (a_id a) 0)
            \<and> sint (m_amount (hr_amount req))
                \<le> sint (normalise (balance_of s (a_id a)) (a_type a) - word_of_int (held_sum s (a_id a) 0))"
    and ins: "insert_hold (a_id a) (hr_reference req) (hr_amount req) ?exp pg_now s = (Inr h, s')"
    by (auto simp: hold_body_def availableLocked_Inr split: if_splits)
  moreover have "a_id a = hr_account req"
    using calculation(2) by (auto dest: find_row_SomeD)
  ultimately show ?thesis
    using insert_hold_Inr [OF ins] by auto
qed

lemma Hold_success:
  assumes "Hold l pg_now req s = (Inr h, s')"
  shows "hold_body pg_now req s = (Inr h, s')"
  using assms by (simp add: Hold_def split: if_splits)

text \<open>The state after \<open>UPDATE holds SET status = ..., closed_at = now() ... WHERE q\<close>.\<close>

definition closed :: "(hold \<Rightarrow> bool) \<Rightarrow> HoldStatus \<Rightarrow> time \<Rightarrow> (int option \<Rightarrow> int option) \<Rightarrow> db \<Rightarrow> db" where
  "closed q st now f s = s\<lparr>holds := update_rows q
     (\<lambda>h. h\<lparr>h_status := st, h_closed_at := Some now, h_transfer_id := f (h_transfer_id h)\<rparr>) (holds s)\<rparr>"

lemma closed_simps [simp]:
  "accounts (closed q st now f s) = accounts s" "balances (closed q st now f s) = balances s"
  "transfers (closed q st now f s) = transfers s" "postings (closed q st now f s) = postings s"
  "seq_transfers (closed q st now f s) = seq_transfers s" "seq_postings (closed q st now f s) = seq_postings s"
  "seq_holds (closed q st now f s) = seq_holds s" "tx_aborted (closed q st now f s) = tx_aborted s"
  "holds (closed q st now f s) = update_rows q
     (\<lambda>h. h\<lparr>h_status := st, h_closed_at := Some now, h_transfer_id := f (h_transfer_id h)\<rparr>) (holds s)"
  by (simp_all add: closed_def)

lemma close_holds_run [simp]:
  "close_holds q st now f s = (r, s') \<longleftrightarrow> r = Inr (length (filter q (holds s))) \<and>
     s' = closed q st now f s"
  by (auto simp: close_holds_def closed_def)

lemma capture_body_success:
  assumes "capture_body now post_now pg_now ref t0 s = (Inr (tid, t), s')"
  obtains h a s1 where "find_row h_reference ref (holds s) = Some h" "h_status h = HoldActive" "\<not> past_due now h"
    "find_row a_id (h_account h) (accounts s) = Some a"
    "0 < sint (- normalise (delta_of (t_postings t0) (h_account h)) (a_type a))"
    "sint (- normalise (delta_of (t_postings t0) (h_account h)) (a_type a)) \<le> sint (m_amount (h_amount h))"
    "post post_now t0 (h_id h) s = (Inr (tid, t), s1)"
    "s' = closed (\<lambda>h'. h_id h' = h_id h) HoldCaptured pg_now (\<lambda>_. Some tid) s1"
  using assms unfolding capture_body_def Let_def
  by (fastforce simp: spent_loop_delta split: if_splits)

lemma Capture_success:
  "Capture l now post_now pg_now ref t0 s = (Inr r, s') \<Longrightarrow>
     Validate t0 = None \<and> capture_body now post_now pg_now ref t0 s = (Inr r, s')"
  by (auto simp: Capture_def split: option.splits prod.splits sum.splits if_splits)

lemma Release_success:
  assumes "Release l pg_now ref s = (Inr u, s')"
  shows "\<exists>h. find_row h_reference ref (holds s) = Some h \<and> h_status h = HoldActive \<and> \<not> tx_aborted s
    \<and> s' = closed (\<lambda>h'. h_id h' = h_id h) HoldReleased pg_now (\<lambda>x. x) s"
  using assms by (auto simp: Release_def split: if_splits)

end
