(* ===== verification/Steps.thy ===== *)
theory Steps
  imports Holds
begin

text \<open>
  The ledger as a state machine: one step is one call of an operation that owns its
  transactions (\<open>New\<close>), with any arguments, clocks and outcome. The locale
  \<open>ledger_invariant\<close> is the contract between the operations and a property of the tables:
  it asks for the property after each way an operation can commit, and concludes that
  every step keeps it, failures included, because a failure only moves the sequences.
\<close>

section \<open>Sequences never move backwards\<close>

lemma keeps_case_prod [keeps_intros]:
  "(\<And>a b. keeps P (f a b)) \<Longrightarrow> keeps P (case x of (a, b) \<Rightarrow> f a b)"
  by (cases x) simp

lemma keeps_case_option [keeps_intros]:
  "keeps P f \<Longrightarrow> (\<And>a. keeps P (g a)) \<Longrightarrow> keeps P (case x of None \<Rightarrow> f | Some a \<Rightarrow> g a)"
  by (cases x) simp_all

lemma keeps_for_each_pair [keeps_intros]:
  "(\<And>a b. keeps P (f a b)) \<Longrightarrow> keeps P (for_each (\<lambda>(a, b). f a b) xs)"
  by (intro keeps_for_each) auto

lemma seqs_get_account [keeps_intros]: "keeps (seqs_from s0) (get_account acc)"
  unfolding get_account_def by (intro keeps_intros)

lemma seqs_lockAccount [keeps_intros]: "keeps (seqs_from s0) (lockAccount acc)"
  unfolding lockAccount_def by (intro keeps_intros)

lemma seqs_lockHold [keeps_intros]: "keeps (seqs_from s0) (lockHold acc)"
  unfolding lockHold_def by (intro keeps_intros)

lemma seqs_lockAccounts [keeps_intros]: "keeps (seqs_from s0) (lockAccounts t)"
  unfolding lockAccounts_def by (intro keeps_intros)

lemma seqs_applyBalances [keeps_intros]: "keeps (seqs_from s0) (applyBalances t)"
  unfolding applyBalances_def by (intro keeps_intros forward_stmts)

lemma seqs_availableLocked [keeps_intros]: "keeps (seqs_from s0) (availableLocked a ex)"
  unfolding availableLocked_def by (intro keeps_intros)

lemma seqs_guard_account [keeps_intros]: "keeps (seqs_from s0) (guard_account ex a)"
  unfolding guard_account_def by (intro keeps_intros)

lemma seqs_post [keeps_intros]: "keeps (seqs_from s0) (post now t ex)"
  unfolding post_def Let_def by (intro keeps_intros forward_stmts)

lemma seqs_hold_body [keeps_intros]: "keeps (seqs_from s0) (hold_body pg_now req)"
  unfolding hold_body_def by (intro keeps_intros forward_stmts)

lemma seqs_plain [keeps_intros]: "keeps P m \<Longrightarrow> keeps P (plain m)"
  unfolding plain_def by (rule keeps_map_error)

lemma seqs_capture_body [keeps_intros]: "keeps (seqs_from s0) (capture_body now pnow pg_now ref t)"
  unfolding capture_body_def Let_def by (intro keeps_intros forward_stmts)

text \<open>A transaction that owns its connection commits, or leaves only sequence gaps.\<close>

lemma inTx_New_cases:
  assumes run: "inTx New m s = (r, s')" and seqs: "keeps (seqs_from s) m"
  obtains (committed) x where "r = Inr x" "m s = (Inr x, s')"
    | (undone) e s1 where "r = Inl e" "m s = (Inl e, s1)" "s' = rollback s s1" "seqs_from s s1"
proof (cases "m s")
  case (Pair v s1)
  then have "seqs_from s s1" using keepsD [OF seqs] by simp
  with Pair run that show thesis
    by (cases v) (auto simp: inTx_def)
qed

section \<open>Steps\<close>

inductive ledger_step :: "db \<Rightarrow> db \<Rightarrow> bool" where
  step_create: "CreateAccount New a s = (r, s') \<Longrightarrow> ledger_step s s'"
| step_archive: "Archive New acc s = (r, s') \<Longrightarrow> ledger_step s s'"
| step_post: "Post New now t s = (r, s') \<Longrightarrow> ledger_step s s'"
| step_reverse: "Reverse New now ref newRef desc s = (r, s') \<Longrightarrow> ledger_step s s'"
| step_hold: "Hold New pg_now req s = (r, s') \<Longrightarrow> ledger_step s s'"
| step_capture: "Capture New now post_now pg_now ref t s = (r, s') \<Longrightarrow> ledger_step s s'"
| step_release: "Release New pg_now ref s = (r, s') \<Longrightarrow> ledger_step s s'"
| step_expire: "ExpireHolds New pg_now s = (r, s') \<Longrightarrow> ledger_step s s'"

inductive_cases ledger_step_cases: "ledger_step s s'"

definition reachable :: "db \<Rightarrow> bool" where
  "reachable s \<longleftrightarrow> ledger_step\<^sup>*\<^sup>* empty_db s"

section \<open>Ways to commit\<close>

definition opened :: "account \<Rightarrow> db \<Rightarrow> db" where
  "opened a s = s\<lparr>accounts := accounts s @ [a\<lparr>a_archived := False\<rparr>],
     balances := balances s @ [\<lparr>ba_account_id = a_id a, ba_balance = 0\<rparr>]\<rparr>"

definition archived :: "string \<Rightarrow> db \<Rightarrow> db" where
  "archived acc s = s\<lparr>accounts := update_rows (\<lambda>a. a_id a = acc) (\<lambda>a. a\<lparr>a_archived := True\<rparr>) (accounts s)\<rparr>"

lemma opened_simps [simp]:
  "accounts (opened a s) = accounts s @ [a\<lparr>a_archived := False\<rparr>]"
  "balances (opened a s) = balances s @ [\<lparr>ba_account_id = a_id a, ba_balance = 0\<rparr>]"
  "transfers (opened a s) = transfers s" "postings (opened a s) = postings s" "holds (opened a s) = holds s"
  "seq_transfers (opened a s) = seq_transfers s" "seq_postings (opened a s) = seq_postings s"
  "seq_holds (opened a s) = seq_holds s" "tx_aborted (opened a s) = tx_aborted s"
  by (simp_all add: opened_def)

lemma archived_simps [simp]:
  "accounts (archived acc s) = update_rows (\<lambda>a. a_id a = acc) (\<lambda>a. a\<lparr>a_archived := True\<rparr>) (accounts s)"
  "balances (archived acc s) = balances s"
  "transfers (archived acc s) = transfers s" "postings (archived acc s) = postings s"
  "holds (archived acc s) = holds s"
  "seq_transfers (archived acc s) = seq_transfers s" "seq_postings (archived acc s) = seq_postings s"
  "seq_holds (archived acc s) = seq_holds s" "tx_aborted (archived acc s) = tx_aborted s"
  by (simp_all add: archived_def)

lemma CreateAccount_success:
  assumes "CreateAccount l a s = (Inr u, s')"
  shows "s' = opened a s \<and> a_id a \<noteq> [] \<and> valid_type (a_type a) \<and> validCurrency (a_currency a)
    \<and> a_id a \<notin> a_id ` set (accounts s) \<and> a_id a \<notin> ba_account_id ` set (balances s) \<and> \<not> tx_aborted s"
  using assms unfolding CreateAccount_def
  by (auto simp: insert_account_def insert_balance_def opened_def split: if_splits)

lemma CreateAccount_cases:
  assumes "CreateAccount New a s = (r, s')"
  shows "(r = Inr () \<and> s' = opened a s \<and> CreateAccount New a s = (Inr (), s'))
    \<or> (\<exists>e s1. r = Inl e \<and> s' = rollback s s1 \<and> seqs_from s s1)"
proof (cases r)
  case (Inr u)
  with assms CreateAccount_success show ?thesis by auto
next
  case (Inl e)
  have seqs: "keeps (seqs_from s) (and_then (sql (insert_account a)) (\<lambda>rows.
             if rows = 0 then fail_with ErrAccountExists else sql (insert_balance (a_id a))))"
    by (intro keeps_intros forward_stmts)
  show ?thesis
  proof (cases "a_id a \<noteq> [] \<and> valid_type (a_type a) \<and> validCurrency (a_currency a)")
    case True
    with assms Inl show ?thesis
      by (auto simp: CreateAccount_def elim!: inTx_New_cases [OF _ seqs])
  next
    case False
    with assms Inl show ?thesis
      by (intro disjI2 exI [of _ e] exI [of _ s]) (auto simp: CreateAccount_def split: if_splits)
  qed
qed

lemma archive_account_run [simp]:
  "archive_account acc s = (r, s') \<longleftrightarrow>
     r = Inr (length (filter (\<lambda>a. a_id a = acc) (accounts s))) \<and> s' = archived acc s"
  by (auto simp: archive_account_def archived_def)

lemma Archive_cases:
  assumes "Archive New acc s = (r, s')"
  shows "r = Inr () \<and> s' = archived acc s \<or> (\<exists>s1. s' = rollback s s1 \<and> seqs_from s s1)"
proof -
  have seqs: "keeps (seqs_from s) (and_then (sql (archive_account acc)) (\<lambda>rows.
      if rows = 0 then fail_with ErrUnknownAccount else ret ()))"
    by (intro keeps_intros forward_stmts)
  from assms show ?thesis unfolding Archive_def
    by (auto split: if_splits elim!: inTx_New_cases [OF _ seqs])
qed

lemma Post_cases:
  assumes "Post New now t0 s = (r, s')"
  shows "(\<exists>x. r = Inr x \<and> Validate t0 = None \<and> post now t0 0 s = (Inr x, s'))
    \<or> (\<exists>e s1. r = Inl e \<and> s' = rollback s s1 \<and> seqs_from s s1)"
proof (cases "Validate t0")
  case None
  with assms have run: "inTx New (post now t0 0) s = (r, s')" by (simp add: Post_def)
  show ?thesis by (rule inTx_New_cases [OF run seqs_post]) (use None in blast)+
next
  case (Some e)
  with assms show ?thesis
    by (intro disjI2 exI [of _ e] exI [of _ s]) (simp add: Post_def)
qed



lemma select_rollback: "inTx New (select f) s = (r, s') \<Longrightarrow> s' = s"
  by (auto simp: inTx_def select_def sql_def split: prod.splits sum.splits if_splits)

lemma find_transfer_rollback: "inTx New (find_transfer ref) s = (r, s') \<Longrightarrow> s' = s"
  by (auto simp: inTx_def find_transfer_def and_then_def select_def sql_def ret_def fail_with_def
      split: prod.splits sum.splits if_splits option.splits)

lemma find_transfer_Inr [simp, prog_simps]:
  "find_transfer ref s = (Inr row, s') \<longleftrightarrow>
     \<not> tx_aborted s \<and> find_row tr_reference ref (transfers s) = Some row \<and> s' = s"
  by (auto simp: find_transfer_def split: option.splits)

lemma TransferByReference_New: "TransferByReference New ref s = (r, s') \<Longrightarrow> s' = s"
  unfolding TransferByReference_def
  by (auto simp: and_then_def ret_def split: prod.splits sum.splits
      dest!: select_rollback find_transfer_rollback)

lemma Reverse_cases:
  assumes "Reverse New now ref newRef desc s = (r, s')"
  shows "s' = s \<or> (\<exists>t. Post New now t s = (r, s'))"
  using assms unfolding Reverse_def
  by (auto simp: and_then_def split: prod.splits sum.splits if_splits dest: TransferByReference_New)

lemma Hold_cases:
  assumes "Hold New pg_now req s = (r, s')"
  shows "(\<exists>h. r = Inr h \<and> hold_body pg_now req s = (Inr h, s'))
    \<or> (\<exists>s1. s' = rollback s s1 \<and> seqs_from s s1)"
proof (cases "hr_reference req = [] \<or> sint (m_amount (hr_amount req)) \<le> 0")
  case True
  with assms show ?thesis
    by (intro disjI2 exI [of _ s]) (auto simp: Hold_def split: if_splits)
next
  case False
  with assms have run: "inTx New (hold_body pg_now req) s = (r, s')" by (simp add: Hold_def)
  show ?thesis by (rule inTx_New_cases [OF run seqs_hold_body]) blast+
qed

lemma inTx_close:
  assumes "\<not> tx_aborted s"
  shows "inTx l (sql (close_holds q st now f)) s
     = (Inr (length (filter q (holds s))), closed q st now f s)"
  using assms by simp

lemma plain_Inl: "plain m s = (Inl (e, i), s') \<Longrightarrow> i = 0"
  by (auto simp: plain_def map_error_def split: prod.splits sum.splits)

lemma capture_expired:
  assumes "capture_body now post_now pg_now ref t0 s = (Inl (e, i), s')" "i \<noteq> 0"
  shows "\<exists>h. find_row h_reference ref (holds s) = Some h \<and> i = h_id h"
  using assms unfolding capture_body_def Let_def
  by (auto simp: and_then_Inl case_prod_unfold split: if_splits dest!: plain_Inl)

lemma Capture_cases:
  assumes run: "Capture New now post_now pg_now ref t0 s = (r, s')" and clean: "\<not> tx_aborted s"
  shows "(\<exists>x. r = Inr x \<and> Validate t0 = None \<and> capture_body now post_now pg_now ref t0 s = (Inr x, s'))
    \<or> (\<exists>s1. s' = rollback s s1 \<and> seqs_from s s1)
    \<or> (\<exists>s1 h. seqs_from s s1 \<and> find_row h_reference ref (holds s) = Some h
        \<and> s' = closed (\<lambda>h'. h_id h' = h_id h \<and> h_status h' = HoldActive) HoldExpired pg_now (\<lambda>x. x) (rollback s s1))"
proof (cases "Validate t0")
  case (Some e)
  with run show ?thesis by (intro disjI2 disjI1 exI [of _ s]) (simp add: Capture_def)
next
  case None
  obtain r1 s1 where tx: "inTx New (capture_body now post_now pg_now ref t0) s = (r1, s1)" by fastforce
  show ?thesis
  proof (rule inTx_New_cases [OF tx seqs_capture_body], goal_cases)
    case (1 x)
    with None run tx show ?thesis by (auto simp: Capture_def)
  next
    case undone: (2 e s2)
    then obtain e0 expired where e: "e = (e0, expired)" by fastforce
    show ?thesis
    proof (cases "expired = 0")
      case True
      with undone e None run tx show ?thesis by (auto simp: Capture_def)
    next
      case False
      with undone e None run tx clean
      have "s' = closed (\<lambda>h. h_id h = expired \<and> h_status h = HoldActive) HoldExpired pg_now (\<lambda>x. x) (rollback s s2)"
        by (simp add: Capture_def inTx_close)
      with undone capture_expired [of now post_now pg_now ref t0 s e0 expired s2] e False show ?thesis by blast
    qed
  qed
qed

lemma Release_cases:
  assumes "Release New pg_now ref s = (r, s')"
  shows "(\<exists>h. find_row h_reference ref (holds s) = Some h \<and> h_status h = HoldActive
        \<and> s' = closed (\<lambda>h'. h_id h' = h_id h) HoldReleased pg_now (\<lambda>x. x) s)
    \<or> (\<exists>s1. s' = rollback s s1 \<and> seqs_from s s1)"
proof -
  have seqs: "keeps (seqs_from s) (and_then (lockHold ref) (\<lambda>h.
       if h_status h \<noteq> HoldActive then fail_with ErrHoldNotActive
       else and_then (sql (close_holds (\<lambda>h'. h_id h' = h_id h) HoldReleased pg_now (\<lambda>x. x))) (\<lambda>_. ret ())))"
    by (intro keeps_intros forward_stmts)
  from assms show ?thesis unfolding Release_def
    by (auto split: if_splits elim!: inTx_New_cases [OF _ seqs])
qed

lemma ExpireHolds_cases:
  assumes "ExpireHolds New pg_now s = (r, s')"
  shows "s' = closed (\<lambda>h. h_status h = HoldActive \<and> (case h_expires_at h of None \<Rightarrow> False | Some e \<Rightarrow> e \<le> pg_now))
      HoldExpired pg_now (\<lambda>x. x) s
    \<or> (\<exists>s1. s' = rollback s s1 \<and> seqs_from s s1)"
proof -
  have seqs: "keeps (seqs_from s) (sql (close_holds
       (\<lambda>h. h_status h = HoldActive \<and> (case h_expires_at h of None \<Rightarrow> False | Some e \<Rightarrow> e \<le> pg_now))
       HoldExpired pg_now (\<lambda>x. x)))"
    by (intro keeps_intros forward_stmts)
  from assms show ?thesis unfolding ExpireHolds_def
    by (auto elim!: inTx_New_cases [OF _ seqs])
qed

section \<open>The contract\<close>

text \<open>
  A property of the tables, and what each way to commit owes it. Closing holds covers
  release, sweep and the expiry a refused capture records: it never opens one.
\<close>

locale ledger_invariant =
  fixes I :: "db \<Rightarrow> bool"
  assumes I_clean: "I s \<Longrightarrow> \<not> tx_aborted s"
    and I_undone: "I s \<Longrightarrow> seqs_from s s1 \<Longrightarrow> I (rollback s s1)"
    and I_opened: "I s \<Longrightarrow> CreateAccount New a s = (Inr (), opened a s) \<Longrightarrow> I (opened a s)"
    and I_archived: "I s \<Longrightarrow> I (archived acc s)"
    and I_posted: "I s \<Longrightarrow> Validate t0 = None \<Longrightarrow> post now t0 0 s = (Inr x, s') \<Longrightarrow> I s'"
    and I_held: "I s \<Longrightarrow> hold_body pg_now req s = (Inr h, s') \<Longrightarrow> I s'"
    and I_captured: "I s \<Longrightarrow> Validate t0 = None \<Longrightarrow>
          capture_body now post_now pg_now ref t0 s = (Inr x, s') \<Longrightarrow> I s'"
    and I_closed: "I s \<Longrightarrow> (\<And>h. h \<in> set (holds s) \<Longrightarrow> q h \<Longrightarrow> h_status h = HoldActive) \<Longrightarrow>
          st \<in> {HoldReleased, HoldExpired} \<Longrightarrow> I (closed q st pg_now (\<lambda>x. x) s)"
    and I_hold_ids: "I s \<Longrightarrow> distinct (map h_id (holds s))"
begin

lemma closed_one:
  assumes "I s" "find_row h_reference ref (holds s) = Some h" "h_status h = HoldActive"
    "st \<in> {HoldReleased, HoldExpired}"
  shows "I (closed (\<lambda>h'. h_id h' = h_id h) st pg_now (\<lambda>x. x) s)"
proof (rule I_closed [OF assms(1) _ assms(4)])
  fix h' assume "h' \<in> set (holds s)" "h_id h' = h_id h"
  moreover have "h \<in> set (holds s)" using find_row_SomeD [OF assms(2)] by simp
  ultimately have "h' = h"
    using I_hold_ids [OF assms(1)] by (auto simp: distinct_map dest: inj_onD)
  with assms(3) show "h_status h' = HoldActive" by simp
qed

lemma ledger_step_keeps: "ledger_step s s' \<Longrightarrow> I s \<Longrightarrow> I s'"
proof (induction rule: ledger_step.induct)
  case (step_create a s r s')
  then show ?case
    using CreateAccount_cases [OF step_create(1)] by (auto intro: I_opened I_undone)
next
  case (step_archive acc s r s')
  then show ?case using Archive_cases by (blast intro: I_archived I_undone)
next
  case (step_post now t s r s')
  then show ?case using Post_cases by (blast intro: I_posted I_undone)
next
  case (step_reverse now ref newRef desc s r s')
  then show ?case using Reverse_cases Post_cases by (blast intro: I_posted I_undone)
next
  case (step_hold pg_now req s r s')
  then show ?case using Hold_cases by (blast intro: I_held I_undone)
next
  case (step_capture now post_now pg_now ref t s r s')
  have expired: "I (closed (\<lambda>h. h_id h = hid \<and> h_status h = HoldActive) HoldExpired pg_now (\<lambda>x. x) (rollback s s1))"
    if "seqs_from s s1" for s1 hid
    using step_capture(2) that by (intro I_closed I_undone) auto
  from Capture_cases [OF step_capture(1) I_clean [OF step_capture(2)]] step_capture(2) expired
  show ?case by (blast intro: I_captured I_undone)
next
  case (step_release pg_now ref s r s')
  then show ?case using Release_cases by (blast intro: closed_one I_undone)
next
  case (step_expire pg_now s r s')
  have "I (closed (\<lambda>h. h_status h = HoldActive \<and> (case h_expires_at h of None \<Rightarrow> False | Some e \<Rightarrow> e \<le> pg_now))
      HoldExpired pg_now (\<lambda>x. x) s)"
    using step_expire(2) by (intro I_closed) auto
  with ExpireHolds_cases [OF step_expire(1)] step_expire(2) show ?case
    by (blast intro: I_undone)
qed

sublocale step_invariant ledger_step I
  by unfold_locales (rule ledger_step_keeps)

lemma reachable_keeps: "I empty_db \<Longrightarrow> reachable s \<Longrightarrow> I s"
  unfolding reachable_def by (rule reached_inv)

end

end
