(* ===== verification/Well_Formed.thy ===== *)
theory Well_Formed
  imports Steps
begin

text \<open>
  The structural invariant of the tables (\<open>wf_db\<close>): keys and references are unique, ids
  ascend in insertion order and never pass their sequence, foreign keys resolve, a posting
  is in its account's currency, a hold is captured exactly when it names a transfer. Every
  operation keeps it. It is what lets \<open>ORDER BY id\<close> be read as insertion order.
\<close>

section \<open>The invariant\<close>

definition account_keys :: "db \<Rightarrow> (string \<times> string) set" where
  "account_keys s = (\<lambda>a. (a_id a, a_currency a)) ` set (accounts s)"

definition account_wf :: "account \<Rightarrow> bool" where
  "account_wf a \<longleftrightarrow> a_id a \<noteq> [] \<and> valid_type (a_type a) \<and> validCurrency (a_currency a)"

definition accounts_wf :: "db \<Rightarrow> bool" where
  "accounts_wf s \<longleftrightarrow> keys_ok s \<and> (\<forall>a \<in> set (accounts s). account_wf a)
     \<and> a_id ` set (accounts s) \<subseteq> ba_account_id ` set (balances s)"

definition posting_row_wf :: "db \<Rightarrow> posting_row \<Rightarrow> bool" where
  "posting_row_wf s r \<longleftrightarrow> po_transfer_id r \<in> tr_id ` set (transfers s)
     \<and> good_posting (posting_of_row r) \<and> (po_account_id r, po_currency r) \<in> account_keys s"

definition journal_wf :: "db \<Rightarrow> bool" where
  "journal_wf s \<longleftrightarrow> sorted_wrt (<) (map tr_id (transfers s)) \<and> sorted_wrt (<) (map po_id (postings s))
     \<and> distinct (map tr_reference (transfers s))
     \<and> (\<forall>r \<in> set (transfers s). 0 < tr_id r \<and> tr_id r \<le> seq_transfers s \<and> tr_reference r \<noteq> [])
     \<and> (\<forall>r \<in> set (postings s). po_id r \<le> seq_postings s \<and> posting_row_wf s r)
     \<and> 0 \<le> seq_transfers s"

definition reversals_wf :: "db \<Rightarrow> bool" where
  "reversals_wf s \<longleftrightarrow> distinct (map tr_reverses (filter (\<lambda>r. tr_reverses r \<noteq> None) (transfers s)))
     \<and> (\<forall>r \<in> set (transfers s). \<forall>i. tr_reverses r = Some i \<longrightarrow> i \<in> tr_id ` set (transfers s))"

definition hold_wf :: "db \<Rightarrow> hold \<Rightarrow> bool" where
  "hold_wf s h \<longleftrightarrow> 0 < h_id h \<and> h_id h \<le> seq_holds s \<and> 0 < sint (m_amount (h_amount h))
     \<and> (h_account h, m_currency (h_amount h)) \<in> account_keys s
     \<and> (h_status h = HoldCaptured \<longleftrightarrow> h_transfer_id h \<noteq> None)
     \<and> (\<forall>i. h_transfer_id h = Some i \<longrightarrow> i \<in> tr_id ` set (transfers s))"

definition holds_wf :: "db \<Rightarrow> bool" where
  "holds_wf s \<longleftrightarrow> distinct (map h_id (holds s)) \<and> distinct (map h_reference (holds s))
     \<and> (\<forall>h \<in> set (holds s). hold_wf s h) \<and> 0 \<le> seq_holds s"

definition wf_db :: "db \<Rightarrow> bool" where
  "wf_db s \<longleftrightarrow> \<not> tx_aborted s \<and> accounts_wf s \<and> journal_wf s \<and> reversals_wf s \<and> holds_wf s"

lemmas wf_defs = accounts_wf_def journal_wf_def reversals_wf_def holds_wf_def

lemma wf_clean: "wf_db s \<Longrightarrow> \<not> tx_aborted s"
  by (simp add: wf_db_def)

lemma wf_keys_ok: "wf_db s \<Longrightarrow> keys_ok s"
  by (simp add: wf_db_def accounts_wf_def)

lemma wf_empty: "wf_db empty_db"
  by (simp add: wf_db_def wf_defs empty_db_def keys_ok_def)

section \<open>Each way to commit keeps it\<close>

lemma image_update_rows: "(\<And>r. f (g r) = f r) \<Longrightarrow> f ` set (update_rows p g rows) = f ` set rows"
  by (induction rows) (auto simp: update_rows_def)

lemma account_keys_simps [simp]:
  "account_keys (opened a s) = insert (a_id a, a_currency a) (account_keys s)"
  "account_keys (archived acc s) = account_keys s"
  "account_keys (closed q st now f s) = account_keys s"
  "account_keys (rollback s s1) = account_keys s"
  "account_keys (post_state s tid t bs) = account_keys s"
  by (simp_all add: account_keys_def image_update_rows)

lemma wf_undone: "wf_db s \<Longrightarrow> seqs_from s s1 \<Longrightarrow> wf_db (rollback s s1)"
  by (fastforce simp: wf_db_def wf_defs keys_ok_def seqs_from_def posting_row_wf_def hold_wf_def)

lemma wf_opened:
  assumes wf: "wf_db s" and run: "CreateAccount New a s = (Inr (), opened a s)"
  shows "wf_db (opened a s)"
  using wf CreateAccount_success [OF run]
  by (auto simp: wf_db_def wf_defs keys_ok_def account_wf_def posting_row_wf_def hold_wf_def)

lemma a_id_archived [simp]: "a_id ` set (accounts (archived acc s)) = a_id ` set (accounts s)"
  by (simp add: image_update_rows)

lemma wf_archived: "wf_db s \<Longrightarrow> wf_db (archived acc s)"
proof -
  assume wf: "wf_db s"
  have "map a_id (accounts (archived acc s)) = map a_id (accounts s)" by simp
  with wf have "keys_ok (archived acc s)"
    using a_id_archived [of acc s]
    by (simp add: wf_db_def accounts_wf_def keys_ok_def del: a_id_archived archived_simps(1))
  moreover have "\<forall>a \<in> set (accounts (archived acc s)). account_wf a"
    using wf by (auto simp: wf_db_def accounts_wf_def update_rows_def account_wf_def)
  ultimately show ?thesis
    using wf a_id_archived [of acc s]
    by (simp add: wf_db_def wf_defs posting_row_wf_def hold_wf_def del: a_id_archived archived_simps(1))
qed

lemma frame_closed [simp]:
  "accounts_wf (closed q st now f s) = accounts_wf s" "journal_wf (closed q st now f s) = journal_wf s"
  "reversals_wf (closed q st now f s) = reversals_wf s"
  by (simp_all add: accounts_wf_def journal_wf_def reversals_wf_def keys_ok_def posting_row_wf_def)

lemma wf_closed_holds:
  assumes wf: "wf_db s"
    and ok: "\<And>h. h \<in> set (holds s) \<Longrightarrow> hold_wf s h \<Longrightarrow> q h \<Longrightarrow>
      hold_wf s (h\<lparr>h_status := st, h_closed_at := Some now, h_transfer_id := f (h_transfer_id h)\<rparr>)"
  shows "wf_db (closed q st now f s)"
proof -
  have "hold_wf (closed q st now f s) = hold_wf s"
    by (simp add: hold_wf_def fun_eq_iff)
  moreover have "holds_wf s" using wf by (simp add: wf_db_def)
  ultimately have "holds_wf (closed q st now f s)"
    using ok by (simp add: holds_wf_def) (auto simp: update_rows_def)
  with wf show ?thesis by (simp add: wf_db_def)
qed

lemma wf_closed:
  assumes wf: "wf_db s" and active: "\<And>h. h \<in> set (holds s) \<Longrightarrow> q h \<Longrightarrow> h_status h = HoldActive"
    and st: "st \<in> {HoldReleased, HoldExpired}"
  shows "wf_db (closed q st pg_now (\<lambda>x. x) s)"
  using assms by (intro wf_closed_holds) (auto simp: hold_wf_def)

lemma frame_held [simp]:
  "accounts_wf (s\<lparr>seq_holds := k, holds := hs\<rparr>) = accounts_wf s"
  "journal_wf (s\<lparr>seq_holds := k, holds := hs\<rparr>) = journal_wf s"
  "reversals_wf (s\<lparr>seq_holds := k, holds := hs\<rparr>) = reversals_wf s"
  "account_keys (s\<lparr>seq_holds := k, holds := hs\<rparr>) = account_keys s"
  by (simp_all add: accounts_wf_def journal_wf_def reversals_wf_def keys_ok_def posting_row_wf_def account_keys_def)

lemma holds_wf_snoc:
  assumes "holds_wf s" and "h_id h = seq_holds s + 1" "h_reference h \<notin> h_reference ` set (holds s)"
    and "0 < sint (m_amount (h_amount h))" "(h_account h, m_currency (h_amount h)) \<in> account_keys s"
    and "h_status h = HoldActive" "h_transfer_id h = None"
  shows "holds_wf (s\<lparr>seq_holds := seq_holds s + 1, holds := holds s @ [h]\<rparr>)"
proof -
  have old: "\<forall>h' \<in> set (holds s). hold_wf s h'" and pos: "0 \<le> seq_holds s"
    using assms(1) by (simp_all add: holds_wf_def)
  from old have ids: "h_id h \<notin> h_id ` set (holds s)"
    using assms(2) by (force simp: hold_wf_def)
  have "hold_wf (s\<lparr>seq_holds := seq_holds s + 1, holds := holds s @ [h]\<rparr>) h'" if "hold_wf s h'" for h'
    using that by (simp add: hold_wf_def)
  moreover have "hold_wf (s\<lparr>seq_holds := seq_holds s + 1, holds := holds s @ [h]\<rparr>) h"
    using assms pos by (simp add: hold_wf_def)
  ultimately show ?thesis
    using assms(1,3) ids old pos by (simp add: holds_wf_def)
qed

lemma wf_held:
  assumes wf: "wf_db s" and run: "hold_body pg_now req s = (Inr h, s')"
  shows "wf_db s'"
proof -
  note H = hold_body_success [OF run]
  from H obtain a where a: "find_row a_id (hr_account req) (accounts s) = Some a"
    "a_currency a = m_currency (hr_amount req)" by blast
  have key: "(h_account h, m_currency (h_amount h)) \<in> account_keys s"
    using find_row_SomeD [OF a(1)] a(2) H by (force simp: account_keys_def)
  have "holds_wf (s\<lparr>seq_holds := seq_holds s + 1, holds := holds s @ [h]\<rparr>)"
    using wf H key by (intro holds_wf_snoc) (simp_all add: wf_db_def)
  with wf H show ?thesis by (simp add: wf_db_def)
qed

lemma posting_rows_wf:
  assumes "Validate t0 = None" "t_postings t = t_postings t0" "post_checked s t"
    and "r \<in> set (posting_rows tid k (t_postings t))"
  shows "good_posting (posting_of_row r) \<and> (po_account_id r, po_currency r) \<in> account_keys s"
proof -
  have "posting_of_row r \<in> set (t_postings t)"
    using assms(4) postings_of_posting_rows [of tid k "t_postings t"] by (metis image_eqI list.set_map)
  moreover obtain p where p: "p = posting_of_row r" by simp
  moreover have "po_account_id r = p_account p" "po_currency r = p_currency p"
    by (simp_all add: p posting_of_row_def)
  moreover obtain a where "find_row a_id (p_account p) (accounts s) = Some a" "a_currency a = p_currency p"
    using assms(3) calculation unfolding post_checked_def by blast
  ultimately show ?thesis
    using Validate_good [OF assms(1)] assms(2)
    by (force simp: account_keys_def dest: find_row_SomeD)
qed

lemma journal_posted:
  assumes j: "journal_wf s" and chk: "post_checked s t" and val: "Validate t0 = None"
    and same: "t_postings t = t_postings t0" "t_reference t = t_reference t0"
  shows "journal_wf (post_state s (seq_transfers s + 1) t bs)"
proof -
  let ?tid = "seq_transfers s + 1"
  have ref: "t_reference t \<noteq> []" using val same by (simp add: Validate_None_iff)
  have rows: "\<forall>r \<in> set (posting_rows ?tid (seq_postings s) (t_postings t)).
      seq_postings s < po_id r \<and> po_id r \<le> seq_postings s + int (length (t_postings t))
      \<and> po_transfer_id r = ?tid \<and> good_posting (posting_of_row r)
      \<and> (po_account_id r, po_currency r) \<in> account_keys s"
    using posting_rows_bounds posting_rows_tid posting_rows_wf [OF val same(1) chk] by blast
  have "sorted_wrt (<) (map po_id (postings s @ posting_rows ?tid (seq_postings s) (t_postings t)))"
    using j rows posting_rows_sorted by (fastforce simp: journal_wf_def sorted_wrt_append)
  moreover have "sorted_wrt (<) (map tr_id (transfers s @ [new_row s ?tid t]))"
    using j by (fastforce simp: journal_wf_def sorted_wrt_append)
  moreover have "distinct (map tr_reference (transfers s @ [new_row s ?tid t]))"
    using j chk by (simp add: journal_wf_def post_checked_def)
  moreover have "\<forall>r \<in> set (transfers s @ [new_row s ?tid t]). 0 < tr_id r \<and> tr_id r \<le> ?tid \<and> tr_reference r \<noteq> []"
    using j ref by (auto simp: journal_wf_def)
  moreover have "posting_row_wf (post_state s ?tid t bs) r" if "posting_row_wf s r" for r
    using that by (simp add: posting_row_wf_def)
  then have "\<forall>r \<in> set (postings s). po_id r \<le> seq_postings s + int (length (t_postings t))
      \<and> posting_row_wf (post_state s ?tid t bs) r"
    using j by (auto simp: journal_wf_def)
  moreover have "\<forall>r \<in> set (posting_rows ?tid (seq_postings s) (t_postings t)).
      po_id r \<le> seq_postings s + int (length (t_postings t)) \<and> posting_row_wf (post_state s ?tid t bs) r"
    using rows by (simp add: posting_row_wf_def)
  moreover have "0 \<le> seq_transfers s" using j by (simp add: journal_wf_def)
  ultimately show ?thesis
    unfolding journal_wf_def by (simp add: ball_Un)
qed

lemma reversals_posted:
  assumes rev: "reversals_wf s" and chk: "post_checked s t"
  shows "reversals_wf (post_state s (seq_transfers s + 1) t bs)"
  using assms by (auto simp: reversals_wf_def post_checked_def stored_reverses_def image_iff)

lemma wf_posted_state:
  assumes wf: "wf_db s" and val: "Validate t0 = None" and run: "post now t0 ex s = (Inr (tid, t), s')"
  shows "wf_db s'"
proof -
  note P = post_success [OF run wf_keys_ok [OF wf]]
  from P obtain bs where s': "s' = post_state s tid t bs" and k: "keys_ok s'"
    and tid: "tid = seq_transfers s + 1" and chk: "post_checked s t"
    and bids: "ba_account_id ` set (balances s) \<subseteq> ba_account_id ` set bs"
    and t: "t = t0\<lparr>t_posted_at := resolve_posted_at now t0\<rparr>" by blast
  have "accounts_wf s'"
    using wf k bids s' unfolding wf_db_def accounts_wf_def by (metis order_trans post_state_simps(1,4))
  moreover have "journal_wf s'"
    unfolding s' tid using wf val chk t by (intro journal_posted) (auto simp: wf_db_def)
  moreover have "reversals_wf s'"
    unfolding s' tid using wf chk by (intro reversals_posted) (auto simp: wf_db_def)
  moreover have "holds_wf s'"
    using wf s' by (auto simp: wf_db_def holds_wf_def hold_wf_def)
  ultimately show ?thesis
    using wf s' by (simp add: wf_db_def)
qed

lemma wf_captured_holds:
  assumes wf: "wf_db s" and tid: "tid \<in> tr_id ` set (transfers s)"
  shows "wf_db (closed q HoldCaptured pg_now (\<lambda>_. Some tid) s)"
  using wf by (rule wf_closed_holds) (use tid in \<open>simp add: hold_wf_def\<close>)

lemma wf_captured:
  assumes wf: "wf_db s" and val: "Validate t0 = None"
    and run: "capture_body now post_now pg_now ref t0 s = (Inr x, s')"
  shows "wf_db s'"
proof -
  obtain tid t where x: "x = (tid, t)" by fastforce
  show ?thesis
  proof (rule capture_body_success [OF run [unfolded x]])
    fix h a s1
    assume post: "post post_now t0 (h_id h) s = (Inr (tid, t), s1)"
      and s': "s' = closed (\<lambda>h'. h_id h' = h_id h) HoldCaptured pg_now (\<lambda>_. Some tid) s1"
    have "tid \<in> tr_id ` set (transfers s1)"
      using post_success [OF post wf_keys_ok [OF wf]] by auto
    with wf_posted_state [OF wf val post] show "wf_db s'"
      unfolding s' by (rule wf_captured_holds)
  qed
qed

lemma wf_hold_ids: "wf_db s \<Longrightarrow> distinct (map h_id (holds s))"
  by (simp add: wf_db_def holds_wf_def)

interpretation wf: ledger_invariant wf_db
proof (unfold_locales, goal_cases)
  case (5 s t0 now x s')
  then show ?case by (cases x) (auto intro: wf_posted_state)
qed (auto intro: wf_undone wf_opened wf_archived wf_held wf_captured wf_closed dest: wf_clean wf_hold_ids)

lemma reachable_wf: "reachable s \<Longrightarrow> wf_db s"
  by (rule wf.reachable_keeps [OF wf_empty])

section \<open>Properties of the journal alone\<close>

text \<open>
  A property that looks only at the transfers and postings of a well-formed ledger: it is
  enough that \<open>post\<close> keeps it, and every other operation does.
\<close>

locale journal_invariant =
  fixes J :: "db \<Rightarrow> bool"
  assumes J_wf: "J s \<Longrightarrow> wf_db s"
    and J_frame: "J s \<Longrightarrow> wf_db s' \<Longrightarrow> transfers s' = transfers s \<Longrightarrow> postings s' = postings s \<Longrightarrow> J s'"
    and J_posted: "J s \<Longrightarrow> Validate t0 = None \<Longrightarrow> post now t0 hid s = (Inr (tid, t), s') \<Longrightarrow> J s'"
begin

lemma J_captured:
  assumes "J s" "Validate t0 = None" "capture_body now post_now pg_now ref t0 s = (Inr (tid, t), s')"
  shows "J s'"
proof (rule capture_body_success [OF assms(3)])
  fix h a s1
  assume "post post_now t0 (h_id h) s = (Inr (tid, t), s1)"
    and s': "s' = closed (\<lambda>h'. h_id h' = h_id h) HoldCaptured pg_now (\<lambda>_. Some tid) s1"
  with assms have "J s1" by (blast intro: J_posted)
  then show "J s'"
    by (rule J_frame [OF _ wf_captured [OF J_wf [OF assms(1)] assms(2,3)]]) (simp_all add: s')
qed

end

sublocale journal_invariant \<subseteq> ledger_invariant J
proof (unfold_locales, goal_cases)
  case (1 s)
  then show ?case by (intro wf_clean J_wf)
next
  case (2 s s1)
  show ?case by (rule J_frame [OF 2(1)]) (use 2 in \<open>auto intro: wf_undone J_wf\<close>)
next
  case (3 s a)
  show ?case by (rule J_frame [OF 3(1)]) (use 3 in \<open>auto intro: wf_opened J_wf\<close>)
next
  case (4 s acc)
  show ?case by (rule J_frame [OF 4]) (use 4 in \<open>auto intro: wf_archived J_wf\<close>)
next
  case (5 s t0 now x s')
  then show ?case by (cases x) (auto intro: J_posted)
next
  case (6 s pg_now req h s')
  have wf: "wf_db s'" using 6 by (auto intro: wf_held J_wf)
  show ?case by (rule J_frame [OF 6(1) wf]) (use hold_body_success [OF 6(2)] in auto)
next
  case (7 s t0 now post_now pg_now ref x s')
  then show ?case by (cases x) (auto intro: J_captured)
next
  case (8 s q st pg_now)
  have "wf_db (closed q st pg_now (\<lambda>x. x) s)" using 8 by (intro wf_closed J_wf) auto
  then show ?case by (rule J_frame [OF 8(1)]) simp_all
next
  case (9 s)
  then show ?case by (intro wf_hold_ids J_wf)
qed

section \<open>Reading the tables in order\<close>

lemma postings_of_wf:
  assumes "journal_wf s"
  shows "postings_of s tid = map posting_of_row (filter (\<lambda>r. po_transfer_id r = tid) (postings s))"
proof -
  have "sorted_wrt (<) (map po_id (filter (\<lambda>r. po_transfer_id r = tid) (postings s)))"
    using assms by (auto simp: journal_wf_def sorted_wrt_map intro: sorted_wrt_filter)
  then have "sorted (map po_id (filter (\<lambda>r. po_transfer_id r = tid) (postings s)))"
    by (rule strict_sorted_imp_sorted)
  then show ?thesis by (simp add: postings_of_def sorted_sort_id sort_key_id_if_sorted)
qed

lemma newest_hash_wf:
  assumes "journal_wf s"
  shows "newest_hash s = (if transfers s = [] then [] else tr_hash (last (transfers s)))"
proof -
  have "sorted (map tr_id (transfers s))"
    using assms by (auto simp: journal_wf_def intro: strict_sorted_imp_sorted)
  then show ?thesis by (simp add: newest_hash_def sort_key_id_if_sorted)
qed

lemma postings_of_posted:
  assumes j: "journal_wf s" and j': "journal_wf (post_state s tid t bs)" and tid: "tid = seq_transfers s + 1"
  shows "postings_of (post_state s tid t bs) i = (if i = tid then t_postings t else postings_of s i)"
proof -
  have old: "filter (\<lambda>r. po_transfer_id r = tid) (postings s) = []"
    using j tid by (force simp: journal_wf_def posting_row_wf_def filter_empty_conv)
  have new: "filter (\<lambda>r. po_transfer_id r = i) (posting_rows tid (seq_postings s) (t_postings t))
      = (if i = tid then posting_rows tid (seq_postings s) (t_postings t) else [])"
    using posting_rows_tid [of _ tid "seq_postings s" "t_postings t"]
    by (auto simp: filter_id_conv filter_empty_conv)
  show ?thesis
    unfolding postings_of_wf [OF j'] postings_of_wf [OF j] using old new by simp
qed

end
