(* ===== verification/Sample.thy ===== *)
theory Sample
  imports Steps
begin

text \<open>
  A small ledger, run through the model: two accounts, a sale, a hold on the income
  account and a capture that refunds part of it. It shows that the hypotheses of the properties hold
  together in a state the operations really reach. The digest is never evaluated.
\<close>

definition cash :: account where
  "cash = \<lparr>a_id = ''cash'', a_type = Asset, a_currency = ''EUR'', a_archived = False, a_allow_negative = True\<rparr>"

definition sales :: account where
  "sales = \<lparr>a_id = ''sales'', a_type = Income, a_currency = ''EUR'', a_archived = False, a_allow_negative = False\<rparr>"

definition noon :: time where
  "noon = 1700000000000000000"

definition leg :: "string \<Rightarrow> int64 \<Rightarrow> Direction \<Rightarrow> posting" where
  "leg acc n d = \<lparr>p_account = acc, p_amount = \<lparr>m_amount = n, m_currency = ''EUR''\<rparr>, p_dir = d\<rparr>"

definition sale :: transfer where
  "sale = \<lparr>t_reference = ''sale-1'', t_description = ''first sale'',
     t_postings = [leg ''cash'' 500 Debit, leg ''sales'' 500 Credit], t_posted_at = zero_time, t_reverses = 0\<rparr>"

definition refund :: transfer where
  "refund = \<lparr>t_reference = ''refund-1'', t_description = ''part refund'',
     t_postings = [leg ''sales'' 150 Debit, leg ''cash'' 150 Credit], t_posted_at = zero_time, t_reverses = 0\<rparr>"

definition earmark :: HoldRequest where
  "earmark = \<lparr>hr_account = ''sales'', hr_reference = ''hold-1'',
     hr_amount = \<lparr>m_amount = 200, m_currency = ''EUR''\<rparr>, hr_expires_at = zero_time\<rparr>"

section \<open>The run\<close>

definition opened_db :: db where
  "opened_db = opened sales (opened cash empty_db)"

definition posted_sale :: transfer where
  "posted_sale = sale\<lparr>t_posted_at := noon\<rparr>"

definition sold_db :: db where
  "sold_db = post_state opened_db 1 posted_sale
     [\<lparr>ba_account_id = ''cash'', ba_balance = 500\<rparr>, \<lparr>ba_account_id = ''sales'', ba_balance = - 500\<rparr>]"

definition placed_hold :: hold where
  "placed_hold = \<lparr>h_id = 1, h_account = ''sales'', h_reference = ''hold-1'',
     h_amount = \<lparr>m_amount = 200, m_currency = ''EUR''\<rparr>, h_status = HoldActive,
     h_created_at = noon, h_expires_at = None, h_closed_at = None, h_transfer_id = None\<rparr>"

definition held_db :: db where
  "held_db = sold_db\<lparr>seq_holds := 1, holds := [placed_hold]\<rparr>"

definition posted_refund :: transfer where
  "posted_refund = refund\<lparr>t_posted_at := noon\<rparr>"

definition refunded_db :: db where
  "refunded_db = post_state held_db 2 posted_refund
     [\<lparr>ba_account_id = ''cash'', ba_balance = 350\<rparr>, \<lparr>ba_account_id = ''sales'', ba_balance = - 350\<rparr>]"

definition captured_db :: db where
  "captured_db = closed (\<lambda>h. h_id h = 1) HoldCaptured noon (\<lambda>_. Some 2) refunded_db"

lemmas sample_data = cash_def sales_def noon_def leg_def sale_def refund_def earmark_def posted_sale_def
  placed_hold_def posted_refund_def

lemma EUR_valid [simp]: "validCurrency ''EUR''"
  by code_simp

lemma open_cash: "CreateAccount New cash empty_db = (Inr (), opened cash empty_db)"
  by (simp add: CreateAccount_def insert_account_def insert_balance_def opened_def cash_def empty_db_def
      valid_type_def)

lemma open_sales: "CreateAccount New sales (opened cash empty_db) = (Inr (), opened_db)"
  by (simp add: CreateAccount_def insert_account_def insert_balance_def opened_def opened_db_def
      cash_def sales_def empty_db_def valid_type_def)

lemma opened_db_simps [simp]:
  "accounts opened_db = [cash, sales]"
  "balances opened_db = [\<lparr>ba_account_id = ''cash'', ba_balance = 0\<rparr>, \<lparr>ba_account_id = ''sales'', ba_balance = 0\<rparr>]"
  "transfers opened_db = []" "postings opened_db = []" "holds opened_db = []"
  "seq_transfers opened_db = 0" "seq_postings opened_db = 0" "seq_holds opened_db = 0" "\<not> tx_aborted opened_db"
  by (simp_all add: opened_db_def empty_db_def) (simp_all add: cash_def sales_def)

lemma noon_resolved: "t_posted_at t = zero_time \<Longrightarrow> resolve_posted_at noon t = noon"
  by (simp add: resolve_posted_at_def IsZero_time_def Truncate_us_def noon_def)

lemma sale_valid [simp]: "Validate sale = None"
  by code_simp

lemma refund_valid [simp]: "Validate refund = None"
  by code_simp

lemma string_order: "(''cash'' :: string) \<le> ''sales''" "\<not> (''sales'' :: string) \<le> ''cash''"
  by code_simp+

lemma lock_sample:
  assumes "accounts s = [cash, sales]" "\<not> tx_aborted s"
    "set (map p_account (t_postings t)) = {''cash'', ''sales''}"
  shows "lockAccounts t s = (Inr [cash, sales], s)"
proof -
  have "sort_key a_id [cash, sales] = [cash, sales]"
    by (rule sort_key_id_if_sorted) (simp add: cash_def sales_def string_order)
  moreover have "p_account ` set (t_postings t) = {''cash'', ''sales''}" using assms(3) by simp
  ultimately show ?thesis
    using assms(1,2) by (simp add: lockAccounts_def cash_def sales_def)
qed

text \<open>One \<open>post\<close> over the two accounts, step by step.\<close>

lemma sale_checked: "check_accounts [cash, sales] (t_postings posted_sale) = Inr ()"
  by code_simp

lemma refund_checked: "check_accounts [cash, sales] (t_postings posted_refund) = Inr ()"
  by code_simp

lemma sale_deltas: "delta_loop (t_postings posted_sale) [] = [(''cash'', 500), (''sales'', - 500)]"
  by code_simp

lemma refund_deltas: "delta_loop (t_postings posted_refund) [] = [(''sales'', 150), (''cash'', - 150)]"
  by code_simp

lemma insert_one:
  assumes "seq_postings s < 10" "accounts s = [cash, sales]" "tid \<in> tr_id ` set (transfers s)"
    "0 < sint (m_amount (p_amount p))" "p_account p \<in> {''cash'', ''sales''}" "valid_dir (p_dir p)"
  shows "insert_posting tid p s = (Inr (), s\<lparr>seq_postings := seq_postings s + 1,
     postings := postings s @ [posting_row_of tid (seq_postings s + 1) p]\<rparr>)"
  using assms by (auto simp: insert_posting_def Let_def max_id_def cash_def sales_def)

lemma insert_two:
  assumes "seq_postings s < 9" "\<not> tx_aborted s" "accounts s = [cash, sales]"
    "tid \<in> tr_id ` set (transfers s)"
    "\<forall>p \<in> {p, q}. 0 < sint (m_amount (p_amount p)) \<and> p_account p \<in> {''cash'', ''sales''} \<and> valid_dir (p_dir p)"
  shows "for_each (\<lambda>p. sql (insert_posting tid p)) [p, q] s
    = (Inr (), s\<lparr>seq_postings := seq_postings s + 2, postings := postings s @ posting_rows tid (seq_postings s) [p, q]\<rparr>)"
proof -
  let ?s1 = "s\<lparr>seq_postings := seq_postings s + 1, postings := postings s @ [posting_row_of tid (seq_postings s + 1) p]\<rparr>"
  have "insert_posting tid p s = (Inr (), ?s1)" using assms by (intro insert_one) auto
  moreover have "insert_posting tid q ?s1 = (Inr (), ?s1\<lparr>seq_postings := seq_postings ?s1 + 1,
     postings := postings ?s1 @ [posting_row_of tid (seq_postings ?s1 + 1) q]\<rparr>)"
    using assms by (intro insert_one) auto
  ultimately show ?thesis using assms(2) by simp
qed

lemma upsert_sample:
  assumes "balances s = [\<lparr>ba_account_id = ''cash'', ba_balance = x\<rparr>, \<lparr>ba_account_id = ''sales'', ba_balance = y\<rparr>]"
  shows "fits64 (sint x + sint d) \<Longrightarrow> upsert_balance ''cash'' d s = (Inr (),
      s\<lparr>balances := [\<lparr>ba_account_id = ''cash'', ba_balance = x + d\<rparr>, \<lparr>ba_account_id = ''sales'', ba_balance = y\<rparr>]\<rparr>)"
    and "fits64 (sint y + sint d) \<Longrightarrow> upsert_balance ''sales'' d s = (Inr (),
      s\<lparr>balances := [\<lparr>ba_account_id = ''cash'', ba_balance = x\<rparr>, \<lparr>ba_account_id = ''sales'', ba_balance = y + d\<rparr>]\<rparr>)"
  using assms by (simp_all add: upsert_balance_def update_rows_def)

lemma guard_sample:
  assumes "\<not> tx_aborted s" "balance_of s ''sales'' = b" "held_sum s ''sales'' ex = n" "fits64 n"
    "0 \<le> sint (- b - word_of_int n)"
  shows "for_each (guard_account ex) [cash, sales] s = (Inr (), s)"
proof -
  have "guard_account ex cash s = (Inr (), s)"
    by (simp add: guard_account_Inr) (simp add: cash_def)
  moreover have "guard_account ex sales s = (Inr (), s)"
    using assms by (simp add: guard_account_Inr)
      (simp add: sales_def normalise_def debitNormal_def account_type_defs)
  ultimately show ?thesis by simp
qed

text \<open>A \<open>post\<close> of two legs up to its guard.\<close>

lemma post_two:
  assumes s: "accounts s = [cash, sales]" "\<not> tx_aborted s" "0 \<le> seq_transfers s" "seq_transfers s < 9" "seq_postings s < 9"
    and t: "t_posted_at t0 = zero_time" "t_postings t0 = [p, q]" "{p_account p, p_account q} = {''cash'', ''sales''}"
      "\<forall>x \<in> {p, q}. p_currency x = ''EUR'' \<and> 0 < sint (m_amount (p_amount x)) \<and> valid_dir (p_dir x)"
    and fresh: "t_reference t0 \<notin> tr_reference ` set (transfers s)"
      "t_reverses t0 = 0 \<or> t_reverses t0 \<in> tr_id ` set (transfers s) \<and> Some (t_reverses t0) \<notin> tr_reverses ` set (transfers s)"
    and app: "\<And>s2. balances s2 = balances s \<Longrightarrow> \<not> tx_aborted s2 \<Longrightarrow>
      applyBalances (t0\<lparr>t_posted_at := noon\<rparr>) s2 = (Inr (), s2\<lparr>balances := bs\<rparr>)"
  shows "post noon t0 ex s = and_then (for_each (guard_account ex) [cash, sales])
     (\<lambda>_. ret (seq_transfers s + 1, t0\<lparr>t_posted_at := noon\<rparr>))
     (post_state s (seq_transfers s + 1) (t0\<lparr>t_posted_at := noon\<rparr>) bs)"
proof -
  let ?t = "t0\<lparr>t_posted_at := noon\<rparr>" and ?tid = "seq_transfers s + 1"
  let ?d = "chainDigest (newest_hash s) ?t noon"
  have at: "resolve_posted_at noon t0 = noon" using t(1) by (rule noon_resolved)
  have lock: "lockAccounts ?t s = (Inr [cash, sales], s)"
    using s t(2,3) by (intro lock_sample) auto
  have checked: "check_accounts [cash, sales] (t_postings t0) = Inr ()"
    using t(2,3,4) by (auto simp: doubleton_eq_iff) (simp_all add: cash_def sales_def)
  define s1 where "s1 = s\<lparr>seq_transfers := ?tid, transfers := transfers s @ [new_row s ?tid ?t]\<rparr>"
  define s2 where "s2 = s1\<lparr>seq_postings := seq_postings s1 + 2, postings := postings s1 @ posting_rows ?tid (seq_postings s1) [p, q]\<rparr>"
  have ins: "insert_transfer ?t noon (newest_hash s) ?d s = (Inr ?tid, s1)"
    using fresh s by (auto simp: insert_transfer_def Let_def max_id_def s1_def new_row_def stored_reverses_def)
  have legs: "for_each (\<lambda>p. sql (insert_posting ?tid p)) [p, q] s1 = (Inr (), s2)"
  proof -
    have "p_account p \<in> {''cash'', ''sales''}" "p_account q \<in> {''cash'', ''sales''}"
      using t(3) by (metis insertI1 insertI2)+
    then show ?thesis
      unfolding s2_def using s t(4) by (intro insert_two) (simp_all add: s1_def)
  qed
  have "applyBalances ?t s2 = (Inr (), s2\<lparr>balances := bs\<rparr>)"
    by (rule app) (simp_all add: s2_def s1_def s)
  moreover have "s2\<lparr>balances := bs\<rparr> = post_state s ?tid ?t bs"
    using t(2) by (simp add: s2_def s1_def post_state_def)
  ultimately have bal: "applyBalances ?t s2 = (Inr (), post_state s ?tid ?t bs)" by simp

  show ?thesis
    unfolding post_def Let_def at
    apply (subst and_then_run_Inr, rule lock)
    apply (subst and_then_run_Inr, simp add: checked)
    apply (subst and_then_run_Inr, simp add: s)
    apply (subst and_then_run_Inr, simp add: s)
    apply (subst and_then_run_Inr, simp add: s ins)
    apply (subst and_then_run_Inr, use legs t(2) in \<open>simp del: for_each.simps\<close>)
    apply (subst and_then_run_Inr, rule bal)
    by (rule refl)
qed

lemma post_sale: "post noon sale 0 opened_db = (Inr (1, posted_sale), sold_db)"
proof -
  let ?bs = "[\<lparr>ba_account_id = ''cash'', ba_balance = 500\<rparr>, \<lparr>ba_account_id = ''sales'', ba_balance = - 500\<rparr>]"
  have t: "sale\<lparr>t_posted_at := noon\<rparr> = posted_sale" by (simp add: posted_sale_def)
  have guard: "for_each (guard_account 0) [cash, sales] sold_db = (Inr (), sold_db)"
    by (rule guard_sample [where b = "- 500" and n = 0])
       (simp_all add: sold_db_def balance_of_def held_sum_def fits64_def)
  have "post noon sale 0 opened_db = and_then (for_each (guard_account 0) [cash, sales])
     (\<lambda>_. ret (seq_transfers opened_db + 1, sale\<lparr>t_posted_at := noon\<rparr>))
     (post_state opened_db (seq_transfers opened_db + 1) (sale\<lparr>t_posted_at := noon\<rparr>) ?bs)"
  proof (rule post_two)
    show "applyBalances (sale\<lparr>t_posted_at := noon\<rparr>) s2 = (Inr (), s2\<lparr>balances := ?bs\<rparr>)"
      if "balances s2 = balances opened_db" "\<not> tx_aborted s2" for s2
      using that by (simp add: t applyBalances_def sale_deltas upsert_sample fits64_def)
  qed (auto simp: sale_def leg_def)
  then show ?thesis
    using guard by (simp add: t sold_db_def and_then_run_Inr del: for_each.simps)
qed

lemma Post_sale: "Post New noon sale opened_db = (Inr (1, posted_sale), sold_db)"
  by (simp add: Post_def post_sale)

lemma sold_db_simps [simp]:
  "accounts sold_db = [cash, sales]"
  "balances sold_db = [\<lparr>ba_account_id = ''cash'', ba_balance = 500\<rparr>, \<lparr>ba_account_id = ''sales'', ba_balance = - 500\<rparr>]"
  "transfers sold_db = [new_row opened_db 1 posted_sale]"
  "postings sold_db = posting_rows 1 0 (t_postings posted_sale)" "holds sold_db = []"
  "seq_transfers sold_db = 1" "seq_postings sold_db = 2" "seq_holds sold_db = 0" "\<not> tx_aborted sold_db"
  by (simp_all add: sold_db_def) (simp_all add: posted_sale_def sale_def)

lemma sample_accounts [simp]:
  "a_id cash = ''cash''" "a_id sales = ''sales''" "a_type sales = Income" "a_currency sales = ''EUR''"
  "\<not> a_archived sales" "\<not> a_allow_negative sales"
  by (simp_all add: cash_def sales_def)

lemma hold_sample:
  fixes e :: time
  defines "h \<equiv> placed_hold\<lparr>h_expires_at := if IsZero_time e then None else Some (Truncate_us e)\<rparr>"
  shows "hold_body noon (earmark\<lparr>hr_expires_at := e\<rparr>) sold_db = (Inr h, sold_db\<lparr>seq_holds := 1, holds := [h]\<rparr>)"
proof -
  have avail: "availableLocked sales 0 sold_db = (Inr 500, sold_db)"
    by (simp add: availableLocked_Inr held_sum_def balance_of_def fits64_def)
       (simp add: normalise_def debitNormal_def account_type_defs)
  have ins: "insert_hold ''sales'' ''hold-1'' \<lparr>m_amount = 200, m_currency = ''EUR''\<rparr>
      (if IsZero_time e then None else Some (Truncate_us e)) noon sold_db = (Inr h, sold_db\<lparr>seq_holds := 1, holds := [h]\<rparr>)"
    by (simp add: insert_hold_def h_def placed_hold_def max_id_def Let_def)
  show ?thesis
    using ins by (cases "IsZero_time e") (simp_all add: hold_body_def earmark_def avail)
qed

lemma hold_sold: "hold_body noon earmark sold_db = (Inr placed_hold, held_db)"
  using hold_sample [of zero_time] by (simp add: IsZero_time_def earmark_def placed_hold_def held_db_def)

text \<open>The same hold with an expiry a second later.\<close>

definition expiring_hold :: hold where
  "expiring_hold = placed_hold\<lparr>h_expires_at := Some (noon + 1000000000)\<rparr>"

definition expiring_db :: db where
  "expiring_db = sold_db\<lparr>seq_holds := 1, holds := [expiring_hold]\<rparr>"

lemma Hold_expiring:
  "Hold New noon (earmark\<lparr>hr_expires_at := noon + 1000000000\<rparr>) sold_db = (Inr expiring_hold, expiring_db)"
proof -
  have "\<not> IsZero_time (noon + 1000000000)" "Truncate_us (noon + 1000000000) = noon + 1000000000"
    by (simp_all add: IsZero_time_def zero_time_def noon_def Truncate_us_def)
  with hold_sample [of "noon + 1000000000"] show ?thesis
    by (simp add: Hold_def expiring_hold_def expiring_db_def) (simp add: earmark_def)
qed

lemma Hold_sold: "Hold New noon earmark sold_db = (Inr placed_hold, held_db)"
  using hold_sold by (simp add: Hold_def) (simp add: earmark_def)

lemma held_db_simps [simp]:
  "accounts held_db = [cash, sales]"
  "balances held_db = [\<lparr>ba_account_id = ''cash'', ba_balance = 500\<rparr>, \<lparr>ba_account_id = ''sales'', ba_balance = - 500\<rparr>]"
  "transfers held_db = [new_row opened_db 1 posted_sale]"
  "postings held_db = posting_rows 1 0 (t_postings posted_sale)" "holds held_db = [placed_hold]"
  "seq_transfers held_db = 1" "seq_postings held_db = 2" "seq_holds held_db = 1" "\<not> tx_aborted held_db"
  by (simp_all add: held_db_def)

lemma post_refund: "post noon refund 1 held_db = (Inr (2, posted_refund), refunded_db)"
proof -
  let ?bs = "[\<lparr>ba_account_id = ''cash'', ba_balance = 350\<rparr>, \<lparr>ba_account_id = ''sales'', ba_balance = - 350\<rparr>]"
  have t: "refund\<lparr>t_posted_at := noon\<rparr> = posted_refund" by (simp add: posted_refund_def)
  have guard: "for_each (guard_account 1) [cash, sales] refunded_db = (Inr (), refunded_db)"
    by (rule guard_sample [where b = "- 350" and n = 0])
       (simp_all add: refunded_db_def balance_of_def held_sum_def fits64_def placed_hold_def)
  have "post noon refund 1 held_db = and_then (for_each (guard_account 1) [cash, sales])
     (\<lambda>_. ret (seq_transfers held_db + 1, refund\<lparr>t_posted_at := noon\<rparr>))
     (post_state held_db (seq_transfers held_db + 1) (refund\<lparr>t_posted_at := noon\<rparr>) ?bs)"
  proof (rule post_two)
    show "applyBalances (refund\<lparr>t_posted_at := noon\<rparr>) s2 = (Inr (), s2\<lparr>balances := ?bs\<rparr>)"
      if "balances s2 = balances held_db" "\<not> tx_aborted s2" for s2
      using that by (simp add: t applyBalances_def refund_deltas upsert_sample fits64_def)
  qed (auto simp: refund_def leg_def posted_sale_def sale_def)
  then show ?thesis
    using guard by (simp add: t refunded_db_def and_then_run_Inr del: for_each.simps)
qed

lemma capture_held: "capture_body noon noon noon ''hold-1'' refund held_db = (Inr (2, posted_refund), captured_db)"
proof -
  have spent: "spent_loop ''sales'' Income (t_postings refund) 0 = 150"
    by code_simp
  have h: "h_reference placed_hold = ''hold-1''" "h_status placed_hold = HoldActive"
    "h_account placed_hold = ''sales''" "\<not> past_due noon placed_hold" "h_id placed_hold = 1"
    "m_amount (h_amount placed_hold) = 200"
    by (simp_all add: placed_hold_def past_due_def)
  have "\<not> tx_aborted refunded_db" by (simp add: refunded_db_def)
  then show ?thesis
    by (simp add: capture_body_def Let_def h spent post_refund captured_db_def)
qed

lemma Capture_held: "Capture New noon noon noon ''hold-1'' refund held_db = (Inr (2, posted_refund), captured_db)"
proof -
  have "inTx New (capture_body noon noon noon ''hold-1'' refund) held_db = (Inr (2, posted_refund), captured_db)"
    by (simp add: capture_held)
  then show ?thesis by (simp only: Capture_def refund_valid option.case prod.case sum.case)
qed

section \<open>A refused transfer and a reversal\<close>

text \<open>Seven hundred out of an income account that holds five hundred.\<close>

definition overdraw :: transfer where
  "overdraw = \<lparr>t_reference = ''too-much'', t_description = [],
     t_postings = [leg ''sales'' 700 Debit, leg ''cash'' 700 Credit], t_posted_at = zero_time, t_reverses = 0\<rparr>"

definition overdrawn_db :: db where
  "overdrawn_db = post_state sold_db 2 (overdraw\<lparr>t_posted_at := noon\<rparr>)
     [\<lparr>ba_account_id = ''cash'', ba_balance = - 200\<rparr>, \<lparr>ba_account_id = ''sales'', ba_balance = 200\<rparr>]"

lemma overdraw_valid [simp]: "Validate overdraw = None"
  by code_simp

lemma overdraw_deltas: "delta_loop (t_postings overdraw) [] = [(''sales'', 700), (''cash'', - 700)]"
  by code_simp

lemma post_overdraw: "post noon overdraw 0 sold_db = (Inl ErrInsufficientFunds, overdrawn_db)"
proof -
  let ?bs = "[\<lparr>ba_account_id = ''cash'', ba_balance = - 200\<rparr>, \<lparr>ba_account_id = ''sales'', ba_balance = 200\<rparr>]"
  have state: "balance_of overdrawn_db ''sales'' = 200" "held_sum overdrawn_db ''sales'' 0 = 0" "\<not> tx_aborted overdrawn_db"
    by (simp_all add: overdrawn_db_def balance_of_def held_sum_def)
  have "availableLocked sales 0 overdrawn_db = (Inr (- 200), overdrawn_db)"
    using state by (simp add: availableLocked_Inr fits64_def normalise_def debitNormal_def account_type_defs)
  then have "guard_account 0 sales overdrawn_db = (Inl ErrInsufficientFunds, overdrawn_db)"
    by (simp add: guard_account_def and_then_run_Inr fail_with_def)
  moreover have "guard_account 0 cash overdrawn_db = (Inr (), overdrawn_db)"
    by (simp add: guard_account_Inr) (simp add: cash_def)
  ultimately have guard: "for_each (guard_account 0) [cash, sales] overdrawn_db = (Inl ErrInsufficientFunds, overdrawn_db)"
    by (simp only: for_each.simps and_then_run_Inr and_then_run_Inl)
  have "post noon overdraw 0 sold_db = and_then (for_each (guard_account 0) [cash, sales])
     (\<lambda>_. ret (seq_transfers sold_db + 1, overdraw\<lparr>t_posted_at := noon\<rparr>))
     (post_state sold_db (seq_transfers sold_db + 1) (overdraw\<lparr>t_posted_at := noon\<rparr>) ?bs)"
  proof (rule post_two)
    show "applyBalances (overdraw\<lparr>t_posted_at := noon\<rparr>) s2 = (Inr (), s2\<lparr>balances := ?bs\<rparr>)"
      if "balances s2 = balances sold_db" "\<not> tx_aborted s2" for s2
      using that by (simp add: applyBalances_def overdraw_deltas upsert_sample fits64_def)
  qed (auto simp: overdraw_def leg_def posted_sale_def sale_def)
  also have "post_state sold_db (seq_transfers sold_db + 1) (overdraw\<lparr>t_posted_at := noon\<rparr>) ?bs = overdrawn_db"
    by (simp add: overdrawn_db_def)
  finally show ?thesis by (rule trans) (rule and_then_run_Inl, rule guard)
qed

definition undo_sale :: transfer where
  "undo_sale = \<lparr>t_reference = ''undo-1'', t_description = ''reversal of sale-1'',
     t_postings = [leg ''cash'' 500 Credit, leg ''sales'' 500 Debit], t_posted_at = zero_time, t_reverses = 1\<rparr>"

definition undone_db :: db where
  "undone_db = post_state sold_db 2 (undo_sale\<lparr>t_posted_at := noon\<rparr>)
     [\<lparr>ba_account_id = ''cash'', ba_balance = 0\<rparr>, \<lparr>ba_account_id = ''sales'', ba_balance = 0\<rparr>]"

lemma undo_sale_valid [simp]: "Validate undo_sale = None"
  by code_simp

lemma undo_deltas: "delta_loop (t_postings undo_sale) [] = [(''cash'', - 500), (''sales'', 500)]"
  by code_simp

lemma post_undo: "post noon undo_sale 0 sold_db = (Inr (2, undo_sale\<lparr>t_posted_at := noon\<rparr>), undone_db)"
proof -
  let ?bs = "[\<lparr>ba_account_id = ''cash'', ba_balance = 0\<rparr>, \<lparr>ba_account_id = ''sales'', ba_balance = 0\<rparr>]"
  have guard: "for_each (guard_account 0) [cash, sales] undone_db = (Inr (), undone_db)"
    by (rule guard_sample [where b = 0 and n = 0])
       (simp_all add: undone_db_def balance_of_def held_sum_def fits64_def)
  have "post noon undo_sale 0 sold_db = and_then (for_each (guard_account 0) [cash, sales])
     (\<lambda>_. ret (seq_transfers sold_db + 1, undo_sale\<lparr>t_posted_at := noon\<rparr>))
     (post_state sold_db (seq_transfers sold_db + 1) (undo_sale\<lparr>t_posted_at := noon\<rparr>) ?bs)"
  proof (rule post_two)
    show "applyBalances (undo_sale\<lparr>t_posted_at := noon\<rparr>) s2 = (Inr (), s2\<lparr>balances := ?bs\<rparr>)"
      if "balances s2 = balances sold_db" "\<not> tx_aborted s2" for s2
      using that by (simp add: applyBalances_def undo_deltas upsert_sample fits64_def)
  qed (auto simp: undo_sale_def leg_def posted_sale_def sale_def stored_reverses_def)
  then show ?thesis
    using guard by (simp add: undone_db_def and_then_run_Inr del: for_each.simps)
qed

lemma sale_read_back: "transfer_of_row sold_db (new_row opened_db 1 posted_sale) = posted_sale"
  by (simp add: transfer_of_row_def postings_of_def posted_sale_def sale_def stored_reverses_def posting_row_of_def
      posting_of_row_def leg_def)

lemma Reverse_sale: "Reverse New noon ''sale-1'' ''undo-1'' [] sold_db = (Inr (2, undo_sale\<lparr>t_posted_at := noon\<rparr>), undone_db)"
proof -
  have "reversal_of ''sale-1'' ''undo-1'' [] posted_sale 1 = undo_sale"
    by (simp add: reversal_of_def undo_sale_def mirror_def posted_sale_def sale_def leg_def flip_dir_def)
  moreover have "TransferByReference New ''sale-1'' sold_db = (Inr (posted_sale, 1), sold_db)"
    using sale_read_back by (simp add: TransferByReference_def find_transfer_def)
      (simp add: posted_sale_def sale_def)
  ultimately show ?thesis
    by (simp add: Reverse_def Post_def post_undo)
qed

section \<open>Every state of the run is reachable\<close>

lemma reachable_empty: "reachable empty_db"
  by (simp add: reachable_def)

lemma reachable_step: "reachable s \<Longrightarrow> ledger_step s s' \<Longrightarrow> reachable s'"
  by (simp add: reachable_def)

lemma reachable_opened_db: "reachable opened_db"
  by (meson reachable_empty reachable_step step_create open_cash open_sales)

lemma reachable_sold_db: "reachable sold_db"
  by (meson reachable_opened_db reachable_step step_post Post_sale)

lemma reachable_held_db: "reachable held_db"
  by (meson reachable_sold_db reachable_step step_hold Hold_sold)

lemma reachable_captured_db: "reachable captured_db"
  by (meson reachable_held_db reachable_step step_capture Capture_held)

lemma reachable_undone_db: "reachable undone_db"
  by (meson reachable_sold_db reachable_step step_reverse Reverse_sale)

lemma reachable_expiring_db: "reachable expiring_db"
  by (meson reachable_sold_db reachable_step step_hold Hold_expiring)

end
