(* ===== verification/History.thy ===== *)
theory History
  imports Well_Formed Sample "HOL-Library.Sublist"
begin

text \<open>
  What no operation ever undoes: the journal only grows at its end, an account keeps its
  type and currency, and a hold keeps what was promised and, once it is captured, released or expired, its
  outcome. The invariant is stated against a fixed earlier state.
\<close>

definition same_account :: "account \<Rightarrow> account \<Rightarrow> bool" where
  "same_account a a' \<longleftrightarrow> a_id a' = a_id a \<and> a_type a' = a_type a \<and> a_currency a' = a_currency a
     \<and> a_allow_negative a' = a_allow_negative a \<and> (a_archived a \<longrightarrow> a_archived a')"

definition same_hold :: "hold \<Rightarrow> hold \<Rightarrow> bool" where
  "same_hold h h' \<longleftrightarrow> h_id h' = h_id h \<and> h_account h' = h_account h \<and> h_reference h' = h_reference h
     \<and> h_amount h' = h_amount h \<and> h_created_at h' = h_created_at h \<and> h_expires_at h' = h_expires_at h
     \<and> (h_status h \<noteq> HoldActive \<longrightarrow> h' = h)"

definition extends :: "db \<Rightarrow> db \<Rightarrow> bool" where
  "extends s0 s \<longleftrightarrow> prefix (transfers s0) (transfers s) \<and> prefix (postings s0) (postings s)
     \<and> (\<forall>a \<in> set (accounts s0). \<exists>a' \<in> set (accounts s). same_account a a')
     \<and> (\<forall>h \<in> set (holds s0). \<exists>h' \<in> set (holds s). same_hold h h')"

lemma same_account_refl [simp]: "same_account a a"
  by (simp add: same_account_def)

lemma same_hold_refl [simp]: "same_hold h h"
  by (simp add: same_hold_def)

lemma extends_refl: "extends s s"
  unfolding extends_def by (auto intro: same_account_refl same_hold_refl)

lemma extends_trans: "extends s0 s \<Longrightarrow> extends s s' \<Longrightarrow> extends s0 s'"
  unfolding extends_def
proof (intro conjI ballI)
  assume a: "prefix (transfers s0) (transfers s) \<and> prefix (postings s0) (postings s)
     \<and> (\<forall>a \<in> set (accounts s0). \<exists>a' \<in> set (accounts s). same_account a a')
     \<and> (\<forall>h \<in> set (holds s0). \<exists>h' \<in> set (holds s). same_hold h h')"
    and b: "prefix (transfers s) (transfers s') \<and> prefix (postings s) (postings s')
     \<and> (\<forall>a \<in> set (accounts s). \<exists>a' \<in> set (accounts s'). same_account a a')
     \<and> (\<forall>h \<in> set (holds s). \<exists>h' \<in> set (holds s'). same_hold h h')"
  show "prefix (transfers s0) (transfers s')" "prefix (postings s0) (postings s')"
    using a b by (auto intro: prefix_order.trans)
  fix x assume "x \<in> set (accounts s0)"
  with a b obtain y z where "same_account x y" "same_account y z" "z \<in> set (accounts s')" by meson
  then show "\<exists>a' \<in> set (accounts s'). same_account x a'" by (auto simp: same_account_def)
next
  assume a: "prefix (transfers s0) (transfers s) \<and> prefix (postings s0) (postings s)
     \<and> (\<forall>a \<in> set (accounts s0). \<exists>a' \<in> set (accounts s). same_account a a')
     \<and> (\<forall>h \<in> set (holds s0). \<exists>h' \<in> set (holds s). same_hold h h')"
    and b: "prefix (transfers s) (transfers s') \<and> prefix (postings s) (postings s')
     \<and> (\<forall>a \<in> set (accounts s). \<exists>a' \<in> set (accounts s'). same_account a a')
     \<and> (\<forall>h \<in> set (holds s). \<exists>h' \<in> set (holds s'). same_hold h h')"
  fix x assume "x \<in> set (holds s0)"
  with a b obtain y z where "same_hold x y" "same_hold y z" "z \<in> set (holds s')" by meson
  then show "\<exists>h' \<in> set (holds s'). same_hold x h'" by (auto simp: same_hold_def)
qed

lemma extends_opened: "extends s (opened a s)"
  unfolding extends_def opened_simps by (auto intro: same_account_refl same_hold_refl)

lemma extends_archived: "extends s (archived acc s)"
proof -
  have "\<exists>a' \<in> set (accounts (archived acc s)). same_account a a'" if "a \<in> set (accounts s)" for a
    using that by (intro bexI [of _ "if a_id a = acc then a\<lparr>a_archived := True\<rparr> else a"])
      (auto simp: same_account_def update_rows_def)
  then show ?thesis unfolding extends_def by (auto intro: same_hold_refl)
qed

lemma extends_posted: "extends s (post_state s tid t bs)"
  unfolding extends_def post_state_simps by (auto intro: same_account_refl same_hold_refl)

lemma extends_held: "extends s (s\<lparr>seq_holds := k, holds := holds s @ [h]\<rparr>)"
  unfolding extends_def by (auto intro: same_account_refl same_hold_refl)

lemma extends_closed:
  assumes "\<And>h. h \<in> set (holds s) \<Longrightarrow> q h \<Longrightarrow> h_status h = HoldActive"
  shows "extends s (closed q st now f s)"
proof -
  let ?g = "\<lambda>h. h\<lparr>h_status := st, h_closed_at := Some now, h_transfer_id := f (h_transfer_id h)\<rparr>"
  have "\<exists>h' \<in> set (holds (closed q st now f s)). same_hold h h'" if "h \<in> set (holds s)" for h
    using that assms [OF that] by (intro bexI [of _ "if q h then ?g h else h"])
      (auto simp: same_hold_def update_rows_def)
  then show ?thesis unfolding extends_def by (auto intro: same_account_refl)
qed

lemma extends_rollback: "extends s (rollback s s1)"
  unfolding extends_def rollback_simps by (auto intro: same_account_refl same_hold_refl)

lemma hold_id_unique:
  assumes "wf_db s" "h \<in> set (holds s)" "h' \<in> set (holds s)" "h_id h' = h_id h"
  shows "h' = h"
  using wf_hold_ids [OF assms(1)] assms(2-4) by (auto simp: distinct_map dest: inj_onD)

lemma extends_captured:
  assumes wf: "wf_db s" and val: "Validate t0 = None"
    and run: "capture_body now post_now pg_now ref t0 s = (Inr (tid, t), s')"
  shows "extends s s'"
proof (rule capture_body_success [OF run])
  fix h a s1
  assume h: "find_row h_reference ref (holds s) = Some h" "h_status h = HoldActive"
    and post: "post post_now t0 (h_id h) s = (Inr (tid, t), s1)"
    and s': "s' = closed (\<lambda>h'. h_id h' = h_id h) HoldCaptured pg_now (\<lambda>_. Some tid) s1"
  from post_success [OF post wf_keys_ok [OF wf]] obtain bs where s1: "s1 = post_state s tid t bs" by blast
  have "h \<in> set (holds s)" using find_row_SomeD [OF h(1)] by simp
  then have "extends s1 s'"
    unfolding s' using h(2) hold_id_unique [OF wf] by (intro extends_closed) (auto simp: s1)
  then show "extends s s'" using extends_posted extends_trans unfolding s1 by blast
qed

interpretation grow: ledger_invariant "\<lambda>s. wf_db s \<and> extends s0 s" for s0
proof (unfold_locales, goal_cases)
  case (1 s)
  then show ?case by (simp add: wf_clean)
next
  case (2 s s1)
  then show ?case by (auto intro: wf_undone extends_trans [OF _ extends_rollback])
next
  case (3 s a)
  then show ?case by (auto intro: wf_opened extends_trans [OF _ extends_opened])
next
  case (4 s acc)
  then show ?case by (auto intro: wf_archived extends_trans [OF _ extends_archived])
next
  case (5 s t0 now x s')
  obtain tid t where x: "x = (tid, t)" by fastforce
  have wf: "wf_db s" using 5(1) by simp
  from post_success [OF 5(3) [unfolded x] wf_keys_ok [OF wf]] obtain bs where "s' = post_state s tid t bs" by blast
  with 5 x show ?case using extends_posted by (blast intro: wf_posted_state extends_trans)
next
  case (6 s pg_now req h s')
  have "s' = s\<lparr>seq_holds := seq_holds s + 1, holds := holds s @ [h]\<rparr>" using hold_body_success [OF 6(2)] by blast
  with 6 show ?case using extends_held by (blast intro: wf_held extends_trans)
next
  case (7 s t0 now post_now pg_now ref x s')
  obtain tid t where x: "x = (tid, t)" by fastforce
  with 7 show ?case by (blast intro: wf_captured extends_captured extends_trans)
next
  case (8 s q st pg_now)
  then have "extends s (closed q st pg_now (\<lambda>x. x) s)" by (intro extends_closed) auto
  with 8 show ?case by (blast intro: wf_closed extends_trans)
next
  case (9 s)
  then show ?case by (simp add: wf_hold_ids)
qed

lemma later_extends: "reachable s \<Longrightarrow> ledger_step\<^sup>*\<^sup>* s s' \<Longrightarrow> extends s s'"
  using grow.reached_inv [of s s' s] reachable_wf extends_refl by blast

end
