(* ===== verification/Books.thy ===== *)
theory Books
  imports Well_Formed Sample
begin

text \<open>
  What makes the books right. Modulo \<open>2^64\<close>, with no hypothesis, in every reachable state:
  each cached balance is the sum of its account's postings, every transfer nets to zero in
  every currency, and so does the trial balance. Over the integers the same holds as long
  as no transfer's amounts add up to \<open>2^63\<close> or more; the counterexample to dropping that
  bound is in the root theory.
\<close>

section \<open>Balances are sums of postings\<close>

definition posted_sum :: "db \<Rightarrow> string \<Rightarrow> int64" where
  "posted_sum s acc = sum_list (map (\<lambda>r. signed_of (posting_of_row r))
     (filter (\<lambda>r. po_account_id r = acc) (postings s)))"

definition balances_match :: "db \<Rightarrow> bool" where
  "balances_match s \<longleftrightarrow> (\<forall>acc. balance_of s acc = posted_sum s acc)"

definition transfers_balanced :: "db \<Rightarrow> bool" where
  "transfers_balanced s \<longleftrightarrow> (\<forall>r \<in> set (transfers s). \<forall>c.
     sum_list (map signed_of (filter (\<lambda>p. p_currency p = c) (postings_of s (tr_id r)))) = 0)"

lemma p_account_row [simp]: "p_account (posting_of_row r) = po_account_id r"
  and p_currency_row [simp]: "p_currency (posting_of_row r) = po_currency r"
  by (simp_all add: posting_of_row_def)

lemma sum_posting_rows:
  fixes f :: "posting \<Rightarrow> 'a::comm_monoid_add"
  assumes "\<And>r. P r = Q (posting_of_row r)"
  shows "sum_list (map (\<lambda>r. f (posting_of_row r)) (filter P (posting_rows tid k ps)))
       = sum_list (map f (filter Q ps))"
  by (induction ps arbitrary: k) (simp_all add: assms)

lemma posted_sum_post:
  "posted_sum (post_state s tid t bs) acc = posted_sum s acc + delta_of (t_postings t) acc"
  using sum_posting_rows [of "\<lambda>r. po_account_id r = acc" "\<lambda>p. p_account p = acc" signed_of]
  by (simp add: posted_sum_def delta_of_def)

lemma balance_of_eq: "balance_of s acc = word_of_int (bal_of (balances s) acc)"
  by (metis int64_of_sint sint_balance_of)

lemma balance_of_cong: "balances s = balances s' \<Longrightarrow> balance_of s acc = balance_of s' acc"
  by (simp add: balance_of_def)

lemma balance_of_posted:
  assumes "\<forall>a. bal_of bs a = bal_of (balances s) a + sint (delta_of (t_postings t) a)"
  shows "balance_of (post_state s tid t bs) acc = balance_of s acc + delta_of (t_postings t) acc"
  using assms by (simp add: balance_of_eq)

lemma bal_of_opened: "a_id a \<notin> ba_account_id ` set (balances s) \<Longrightarrow>
    bal_of (balances (opened a s)) acc = bal_of (balances s) acc"
  by (cases "find_row ba_account_id acc (balances s)")
     (auto simp: bal_of_def find_row_append dest: find_row_SomeD)

lemma wf_balance_keys: "wf_db s \<Longrightarrow> ba_account_id ` set (balances s) = a_id ` set (accounts s)"
  by (auto simp: wf_db_def accounts_wf_def keys_ok_def)

lemma wf_journal: "wf_db s \<Longrightarrow> journal_wf s"
  by (simp add: wf_db_def)

definition books_ok :: "db \<Rightarrow> bool" where
  "books_ok s \<longleftrightarrow> wf_db s \<and> balances_match s \<and> transfers_balanced s"

lemma books_frame:
  assumes "books_ok s" "wf_db s'" "transfers s' = transfers s" "postings s' = postings s"
    and "\<And>acc. bal_of (balances s') acc = bal_of (balances s) acc"
  shows "books_ok s'"
  using assms by (simp add: books_ok_def balances_match_def transfers_balanced_def posted_sum_def
      postings_of_def balance_of_eq)

lemma books_posted:
  assumes books: "books_ok s" and val: "Validate t0 = None" and run: "post now t0 ex s = (Inr (tid, t), s')"
  shows "books_ok s'"
proof -
  have wf: "wf_db s" and wf': "wf_db s'"
    using books wf_posted_state [OF _ val run] by (auto simp: books_ok_def)
  from post_success [OF run wf_keys_ok [OF wf]] obtain bs where s': "s' = post_state s tid t bs"
    and tid: "tid = seq_transfers s + 1"
    and bal: "\<forall>a. bal_of bs a = bal_of (balances s) a + sint (delta_of (t_postings t) a)"
    and t: "t = t0\<lparr>t_posted_at := resolve_posted_at now t0\<rparr>" by blast
  have "balances_match s'"
    using books balance_of_posted [OF bal] by (simp add: s' books_ok_def balances_match_def posted_sum_post)
  moreover have "transfers_balanced s'"
  proof -
    have "postings_of s' i = (if i = tid then t_postings t0 else postings_of s i)" for i
      using postings_of_posted [OF wf_journal [OF wf] _ tid] wf_journal [OF wf'] t s' by simp
    moreover have "tr_id r \<noteq> tid" if "r \<in> set (transfers s)" for r
      using that wf tid by (force simp: wf_db_def journal_wf_def)
    ultimately show ?thesis
      using books val by (simp add: books_ok_def transfers_balanced_def s' Validate_None_iff)
  qed
  ultimately show ?thesis using wf' by (simp add: books_ok_def)
qed

lemma books_captured:
  assumes books: "books_ok s" and val: "Validate t0 = None"
    and run: "capture_body now post_now pg_now ref t0 s = (Inr x, s')"
  shows "books_ok s'"
proof -
  obtain tid t where x: "x = (tid, t)" by fastforce
  have wf': "wf_db s'" using books val run by (auto simp: books_ok_def intro: wf_captured)
  show ?thesis
  proof (rule capture_body_success [OF run [unfolded x]])
    fix h a s1
    assume post: "post post_now t0 (h_id h) s = (Inr (tid, t), s1)"
      and s': "s' = closed (\<lambda>h'. h_id h' = h_id h) HoldCaptured pg_now (\<lambda>_. Some tid) s1"
    from books_posted [OF books val post] wf' show "books_ok s'"
      by (rule books_frame) (simp_all add: s')
  qed
qed

lemma books_held:
  assumes books: "books_ok s" and run: "hold_body pg_now req s = (Inr h, s')"
  shows "books_ok s'"
  using books _ _ _ _
proof (rule books_frame)
  show "wf_db s'" using books wf_held [OF _ run] by (simp add: books_ok_def)
qed (use hold_body_success [OF run] in auto)

lemma books_opened:
  assumes "books_ok s" and run: "CreateAccount New a s = (Inr (), opened a s)"
  shows "books_ok (opened a s)"
  using assms(1) _ _ _ _
proof (rule books_frame)
  show "wf_db (opened a s)" using assms by (auto simp: books_ok_def intro: wf_opened)
  show "bal_of (balances (opened a s)) acc = bal_of (balances s) acc" for acc
    using CreateAccount_success [OF run] by (intro bal_of_opened) simp
qed simp_all

interpretation books: ledger_invariant books_ok
proof (unfold_locales, goal_cases)
  case (1 s)
  then show ?case by (simp add: books_ok_def wf_clean)
next
  case (2 s s1)
  show ?case by (rule books_frame [OF 2(1)]) (use 2 in \<open>auto simp: books_ok_def intro: wf_undone\<close>)
next
  case (3 s a)
  then show ?case by (rule books_opened)
next
  case (4 s acc)
  show ?case by (rule books_frame [OF 4]) (use 4 in \<open>auto simp: books_ok_def intro: wf_archived\<close>)
next
  case (5 s t0 now x s')
  then show ?case by (cases x) (auto intro: books_posted)
next
  case (6 s pg_now req h s')
  then show ?case by (rule books_held)
next
  case (7 s t0 now post_now pg_now ref x s')
  then show ?case by (rule books_captured)
next
  case (8 s q st pg_now)
  then show ?case by (intro books_frame [OF 8(1)] wf_closed) (auto simp: books_ok_def)
next
  case (9 s)
  then show ?case by (simp add: books_ok_def wf_hold_ids)
qed

lemma books_empty: "books_ok empty_db"
  unfolding books_ok_def
  by (simp add: wf_empty) (simp add: balances_match_def transfers_balanced_def posted_sum_def
      balance_of_def empty_db_def)

lemma reachable_books: "reachable s \<Longrightarrow> books_ok s"
  by (rule books.reachable_keeps [OF books_empty])

section \<open>The trial balance\<close>

definition trial_sum :: "db \<Rightarrow> string \<Rightarrow> int64" where
  "trial_sum s c = sum_list (map (\<lambda>a. balance_of s (a_id a)) (filter (\<lambda>a. a_currency a = c) (accounts s)))"

lemma wf_posting_keys:
  assumes "wf_db s" "r \<in> set (postings s)"
  shows "po_transfer_id r \<in> tr_id ` set (transfers s)"
    and "(po_account_id r, po_currency r) \<in> account_keys s" and "good_posting (posting_of_row r)"
  using assms by (auto simp: wf_db_def journal_wf_def posting_row_wf_def)

text \<open>One account per id: a posting in an account is in a currency exactly when the account is.\<close>

lemma account_currency_unique:
  assumes "wf_db s" "(acc, c) \<in> account_keys s" "a \<in> set (accounts s)" "a_id a = acc"
  shows "a_currency a = c"
  using assms by (auto simp: wf_db_def accounts_wf_def keys_ok_def account_keys_def distinct_map dest: inj_onD)

lemma sum_by_account:
  fixes f :: "posting_row \<Rightarrow> 'a::comm_monoid_add"
  assumes wf: "wf_db s"
  shows "sum_list (map (\<lambda>a. sum_list (map f (filter (\<lambda>r. po_account_id r = a_id a) (postings s))))
      (filter (\<lambda>a. a_currency a = c) (accounts s)))
    = sum_list (map f (filter (\<lambda>r. po_currency r = c) (postings s)))"
proof -
  let ?as = "filter (\<lambda>a. a_currency a = c) (accounts s)"
  let ?rs = "filter (\<lambda>r. po_currency r = c) (postings s)"
  have dist: "distinct (map a_id ?as)"
    using wf by (auto simp: wf_db_def accounts_wf_def keys_ok_def intro: distinct_map_filter)
  have key: "\<exists>a \<in> set (accounts s). a_id a = po_account_id r \<and> a_currency a = po_currency r"
    if "r \<in> set (postings s)" for r
    using wf_posting_keys(2) [OF wf that] by (auto simp: account_keys_def)
  have same: "filter (\<lambda>r. po_account_id r = a_id a) (postings s) = filter (\<lambda>r. po_account_id r = a_id a) ?rs"
    if "a \<in> set ?as" for a
  proof -
    have "po_currency r = c" if "r \<in> set (postings s)" "po_account_id r = a_id a" for r
      using account_currency_unique [OF wf wf_posting_keys(2) [OF wf that(1)], of a] that(2) \<open>a \<in> set ?as\<close>
      by simp
    then show ?thesis by (auto intro!: filter_cong)
  qed
  have "sum_list (map (\<lambda>a. sum_list (map f (filter (\<lambda>r. po_account_id r = a_id a) (postings s)))) ?as)
      = sum_list (map (\<lambda>i. sum_list (map f (filter (\<lambda>r. po_account_id r = i) ?rs))) (map a_id ?as))"
    unfolding map_map o_def using same by (intro sum_list_map_cong) simp
  also have "\<dots> = sum_list (map f ?rs)"
    using key by (intro sum_list_group dist) force
  finally show ?thesis .
qed

lemma sum_by_transfer:
  fixes f :: "posting \<Rightarrow> 'a::comm_monoid_add"
  assumes wf: "wf_db s"
  shows "sum_list (map (\<lambda>r. f (posting_of_row r)) (filter (\<lambda>r. po_currency r = c) (postings s)))
    = sum_list (map (\<lambda>t. sum_list (map f (filter (\<lambda>p. p_currency p = c) (postings_of s (tr_id t))))) (transfers s))"
proof -
  let ?rs = "filter (\<lambda>r. po_currency r = c) (postings s)"
  have dist: "distinct (map tr_id (transfers s))"
    using wf by (auto simp: wf_db_def journal_wf_def dest: strict_sorted_imp_sorted strict_sorted_iff [THEN iffD1])
  have inner: "sum_list (map f (filter (\<lambda>p. p_currency p = c) (postings_of s i)))
      = sum_list (map (\<lambda>r. f (posting_of_row r)) (filter (\<lambda>r. po_transfer_id r = i) ?rs))" for i
    by (simp add: postings_of_wf [OF wf_journal [OF wf]] filter_map o_def conj_commute)
  have "sum_list (map (\<lambda>r. f (posting_of_row r)) ?rs)
      = sum_list (map (\<lambda>i. sum_list (map (\<lambda>r. f (posting_of_row r)) (filter (\<lambda>r. po_transfer_id r = i) ?rs)))
          (map tr_id (transfers s)))"
    using wf_posting_keys(1) [OF wf] by (intro sum_list_group [symmetric] dist) auto
  with inner show ?thesis by (simp add: o_def)
qed

lemma trial_sum_zero:
  assumes "books_ok s"
  shows "trial_sum s c = 0"
proof -
  have wf: "wf_db s" and match: "\<And>acc. balance_of s acc = posted_sum s acc"
    and bal: "\<And>r. r \<in> set (transfers s) \<Longrightarrow>
      sum_list (map signed_of (filter (\<lambda>p. p_currency p = c) (postings_of s (tr_id r)))) = 0"
    using assms by (auto simp: books_ok_def balances_match_def transfers_balanced_def)
  have "trial_sum s c = sum_list (map (\<lambda>r. signed_of (posting_of_row r)) (filter (\<lambda>r. po_currency r = c) (postings s)))"
    by (simp add: trial_sum_def match posted_sum_def sum_by_account [OF wf])
  also have "\<dots> = 0"
    using bal by (simp add: sum_by_transfer [OF wf] cong: map_cong)
  finally show ?thesis .
qed

section \<open>Without wrap-around\<close>

text \<open>No stored transfer moves \<open>2^63\<close> minor units or more in all.\<close>

definition all_small :: "db \<Rightarrow> bool" where
  "all_small s \<longleftrightarrow> (\<forall>r \<in> set (transfers s). volume (postings_of s (tr_id r)) < 2 ^ 63)"

definition exact_sum :: "db \<Rightarrow> string \<Rightarrow> int" where
  "exact_sum s acc = sum_list (map row_exact (filter (\<lambda>r. po_account_id r = acc) (postings s)))"

definition exact_books :: "db \<Rightarrow> bool" where
  "exact_books s \<longleftrightarrow> wf_db s \<and> transfers_balanced s \<and>
     (all_small s \<longrightarrow> (\<forall>acc. bal_of (balances s) acc = exact_sum s acc))"

lemma row_exact_fun: "row_exact = (\<lambda>r. exact_of (posting_of_row r))"
  by (simp add: fun_eq_iff row_exact_of_row)

text \<open>What a transfer means to move in an account, over the integers; \<open>delta_of\<close> is what \<open>applyBalances\<close> makes of it.\<close>

definition exact_move :: "posting list \<Rightarrow> string \<Rightarrow> int" where
  "exact_move ps acc = sum_list (map exact_of (filter (\<lambda>p. p_account p = acc) ps))"

lemma exact_sum_post:
  "exact_sum (post_state s tid t bs) acc
     = exact_sum s acc + exact_move (t_postings t) acc"
  using sum_posting_rows [of "\<lambda>r. po_account_id r = acc" "\<lambda>p. p_account p = acc" exact_of]
  by (simp add: exact_sum_def exact_move_def row_exact_fun)

lemma delta_of_exact: "\<forall>p \<in> set ps. valid_dir (p_dir p) \<Longrightarrow> delta_of ps acc = word_of_int (exact_move ps acc)"
  by (simp add: delta_of_def exact_move_def signed_sum_exact)

lemma abs_exact_move: "\<bar>exact_move ps acc\<bar> \<le> volume ps"
  unfolding exact_move_def by (rule abs_exact_sum_le_volume)

lemma sint_delta_of:
  assumes "\<forall>p \<in> set ps. valid_dir (p_dir p)" "fits64 (exact_move ps acc)"
  shows "sint (delta_of ps acc) = exact_move ps acc"
  using assms(2) by (simp only: delta_of_exact [OF assms(1)] sint_of_int64)

lemma sint_delta_of_small:
  "\<forall>p \<in> set ps. valid_dir (p_dir p) \<Longrightarrow> volume ps < 2 ^ 63 \<Longrightarrow> sint (delta_of ps acc) = exact_move ps acc"
  using abs_exact_move [of ps acc] by (intro sint_delta_of) (auto simp: fits64_def abs_le_iff)

text \<open>The cached sum is the exact one as \<open>int64\<close>.\<close>

lemma posted_sum_exact: "wf_db s \<Longrightarrow> posted_sum s acc = word_of_int (exact_sum s acc)"
  using wf_posting_keys(3) signed_sum_exact [of "map posting_of_row (postings s)" "\<lambda>p. p_account p = acc"]
  by (simp add: posted_sum_def exact_sum_def row_exact_fun filter_map o_def good_posting_def)

lemma reachable_balance_word: "reachable s \<Longrightarrow> balance_of s acc = word_of_int (exact_sum s acc)"
  using reachable_books [of s] posted_sum_exact [of s acc] by (simp add: books_ok_def balances_match_def)

lemma exact_frame:
  assumes "exact_books s" "wf_db s'" "transfers s' = transfers s" "postings s' = postings s"
    and "\<And>acc. bal_of (balances s') acc = bal_of (balances s) acc"
  shows "exact_books s'"
  using assms by (simp add: exact_books_def transfers_balanced_def all_small_def exact_sum_def postings_of_def)

lemma exact_posted:
  assumes ex: "exact_books s" and books: "books_ok s" and val: "Validate t0 = None"
    and run: "post now t0 hid s = (Inr (tid, t), s')"
  shows "exact_books s'"
proof -
  have wf: "wf_db s" and wf': "wf_db s'" and bal': "transfers_balanced s'"
    using books books_posted [OF books val run] by (auto simp: books_ok_def)
  from post_success [OF run wf_keys_ok [OF wf]] obtain bs where s': "s' = post_state s tid t bs"
    and tid: "tid = seq_transfers s + 1"
    and bal: "\<forall>a. bal_of bs a = bal_of (balances s) a + sint (delta_of (t_postings t) a)"
    and t: "t = t0\<lparr>t_posted_at := resolve_posted_at now t0\<rparr>" by blast
  have po: "postings_of s' i = (if i = tid then t_postings t else postings_of s i)" for i
    using postings_of_posted [OF wf_journal [OF wf] _ tid] wf_journal [OF wf'] s' by simp
  have old: "tr_id r \<noteq> tid" if "r \<in> set (transfers s)" for r
    using that wf tid by (force simp: wf_db_def journal_wf_def)
  have "bal_of (balances s') acc = exact_sum s' acc" if small: "all_small s'" for acc
  proof -
    have "all_small s" "volume (t_postings t) < 2 ^ 63"
      using small old po by (auto simp: all_small_def s')
    moreover have "\<forall>p \<in> set (t_postings t). valid_dir (p_dir p)"
      using val t by (auto simp: Validate_None_iff good_posting_def)
    ultimately show ?thesis
      using ex bal by (simp add: exact_books_def s' exact_sum_post sint_delta_of_small)
  qed
  with wf' bal' show ?thesis by (simp add: exact_books_def)
qed

definition sound_books :: "db \<Rightarrow> bool" where
  "sound_books s \<longleftrightarrow> books_ok s \<and> exact_books s"

lemma sound_frame:
  assumes "sound_books s" "books_ok s'" "transfers s' = transfers s" "postings s' = postings s"
    and "\<And>acc. bal_of (balances s') acc = bal_of (balances s) acc"
  shows "sound_books s'"
  using assms exact_frame [of s s'] by (simp add: sound_books_def books_ok_def)

lemma sound_posted:
  "sound_books s \<Longrightarrow> Validate t0 = None \<Longrightarrow> post now t0 ex s = (Inr x, s') \<Longrightarrow> sound_books s'"
  by (cases x) (auto simp: sound_books_def intro: books_posted exact_posted)

interpretation sound: ledger_invariant sound_books
proof (unfold_locales, goal_cases)
  case (1 s)
  then show ?case by (auto simp: sound_books_def dest: books.I_clean)
next
  case (2 s s1)
  then have "books_ok (rollback s s1)" using books.I_undone by (simp add: sound_books_def)
  then show ?case by (rule sound_frame [OF 2(1)]) simp_all
next
  case (3 s a)
  then have "books_ok (opened a s)" using books.I_opened by (auto simp: sound_books_def)
  then show ?case
    by (rule sound_frame [OF 3(1)])
       (use CreateAccount_success [OF 3(2)] in \<open>auto simp: bal_of_opened simp del: opened_simps(2)\<close>)
next
  case (4 s acc)
  then have "books_ok (archived acc s)" using books.I_archived by (simp add: sound_books_def)
  then show ?case by (rule sound_frame [OF 4(1)]) simp_all
next
  case (5 s t0 now x s')
  show ?case by (rule sound_posted [OF 5])
next
  case (6 s pg_now req h s')
  then have "books_ok s'" by (auto simp: sound_books_def intro: books_held)
  then show ?case by (rule sound_frame [OF 6(1)]) (use hold_body_success [OF 6(2)] in auto)
next
  case (7 s t0 now post_now pg_now ref x s')
  then have b: "books_ok s'" by (auto simp: sound_books_def intro: books_captured)
  obtain tid t where x: "x = (tid, t)" by fastforce
  show ?case
  proof (rule capture_body_success [OF 7(3) [unfolded x]])
    fix h a s1
    assume post: "post post_now t0 (h_id h) s = (Inr (tid, t), s1)"
      and s': "s' = closed (\<lambda>h'. h_id h' = h_id h) HoldCaptured pg_now (\<lambda>_. Some tid) s1"
    show "sound_books s'" by (rule sound_frame [OF sound_posted [OF 7(1,2) post] b]) (simp_all add: s')
  qed
next
  case (8 s q st pg_now)
  then have "books_ok (closed q st pg_now (\<lambda>x. x) s)" by (intro books.I_closed) (auto simp: sound_books_def)
  then show ?case by (rule sound_frame [OF 8(1)]) simp_all
next
  case (9 s)
  then show ?case by (auto simp: sound_books_def dest: books.I_hold_ids)
qed

lemma sound_empty: "sound_books empty_db"
  using books_empty
  by (simp add: sound_books_def books_ok_def exact_books_def)
     (simp add: empty_db_def bal_of_def exact_sum_def)

lemma reachable_exact: "reachable s \<Longrightarrow> all_small s \<Longrightarrow> bal_of (balances s) acc = exact_sum s acc"
  using sound.reachable_keeps [OF sound_empty] by (auto simp: sound_books_def exact_books_def)

lemma reachable_exact_net:
  assumes "reachable s" "all_small s" "r \<in> set (transfers s)"
  shows "exact_net (postings_of s (tr_id r)) c = 0"
proof -
  have "books_ok s" using assms(1) by (rule reachable_books)
  then have wf: "wf_db s" and zero: "sum_list (map signed_of (filter (\<lambda>p. p_currency p = c) (postings_of s (tr_id r)))) = 0"
    using assms(3) by (auto simp: books_ok_def transfers_balanced_def)
  have "\<forall>p \<in> set (postings_of s (tr_id r)). valid_dir (p_dir p)"
    using wf_posting_keys(3) [OF wf]
    by (auto simp: postings_of_wf [OF wf_journal [OF wf]] good_posting_def)
  moreover have "volume (postings_of s (tr_id r)) < 2 ^ 63"
    using assms(2,3) by (simp add: all_small_def)
  ultimately show ?thesis
    using sum_zero_exact zero by (simp add: exact_net_def)
qed

text \<open>The sample ledger moves small amounts.\<close>

lemma volume_sale: "postings_of sold_db 1 = t_postings posted_sale"
  by (simp add: postings_of_def posting_row_of_def posting_of_row_def posted_sale_def sale_def leg_def)

lemma all_small_sold: "all_small sold_db"
  by (simp add: all_small_def volume_sale) (simp add: volume_def posted_sale_def sale_def leg_def)

end
