(* ===== verification/Guard.thy ===== *)
theory Guard
  imports Well_Formed
begin

text \<open>
  The overdraft guard: in every reachable state, an account opened without
  \<open>allow_negative\<close> covers its active holds, over the integers. Go computes the available
  balance in \<open>int64\<close>; the invariant itself is what rules out that a wrapped result passes
  the test, because a balance that starts at or above its holds cannot fall by more than
  one \<open>int64\<close> in a transfer.
\<close>

section \<open>Sums of holds\<close>

lemma held_sum_cong:
  assumes "\<And>h. h \<in> set (holds s) \<Longrightarrow> 0 < sint (m_amount (h_amount h))"
  shows "0 \<le> held_sum s acc ex"
  unfolding held_sum_def by (rule sum_list_nonneg) (use assms in \<open>force simp: less_imp_le\<close>)

lemma held_sum_frame: "holds s' = holds s \<Longrightarrow> held_sum s' acc ex = held_sum s acc ex"
  by (simp add: held_sum_def)

lemma held_sum_snoc:
  "held_sum (s\<lparr>seq_holds := k, holds := holds s @ [h]\<rparr>) acc ex
     = held_sum s acc ex
       + (if h_account h = acc \<and> h_status h = HoldActive \<and> h_id h \<noteq> ex then sint (m_amount (h_amount h)) else 0)"
  by (simp add: held_sum_def)

text \<open>Taking rows out of a sum of positive amounts, and the sum that skips one row.\<close>

lemma held_rows_update:
  assumes "st \<noteq> HoldActive"
  shows "map (\<lambda>h. sint (m_amount (h_amount h)))
      (filter (\<lambda>h. h_account h = acc \<and> h_status h = HoldActive \<and> h_id h \<noteq> ex)
        (update_rows q (\<lambda>h. h\<lparr>h_status := st, h_closed_at := c, h_transfer_id := f (h_transfer_id h)\<rparr>) hs))
    = map (\<lambda>h. sint (m_amount (h_amount h)))
      (filter (\<lambda>h. h_account h = acc \<and> h_status h = HoldActive \<and> h_id h \<noteq> ex \<and> \<not> q h) hs)"
  using assms by (induction hs) (auto simp: update_rows_def)

lemma held_sum_closed:
  "st \<noteq> HoldActive \<Longrightarrow> held_sum (closed q st now f s) acc ex
     = sum_list (map (\<lambda>h. sint (m_amount (h_amount h)))
        (filter (\<lambda>h. h_account h = acc \<and> h_status h = HoldActive \<and> h_id h \<noteq> ex \<and> \<not> q h) (holds s)))"
  by (simp add: held_sum_def held_rows_update)

lemma sum_list_filter_mono:
  fixes f :: "'a \<Rightarrow> int"
  assumes "\<And>x. x \<in> set xs \<Longrightarrow> 0 < f x" "\<And>x. x \<in> set xs \<Longrightarrow> P x \<Longrightarrow> Q x"
  shows "sum_list (map f (filter P xs)) \<le> sum_list (map f (filter Q xs))"
  using assms by (induction xs) (auto simp: less_imp_le add_increasing)

lemma wf_hold_amounts: "wf_db s \<Longrightarrow> h \<in> set (holds s) \<Longrightarrow> 0 < sint (m_amount (h_amount h)) \<and> 0 < h_id h"
  by (simp add: wf_db_def holds_wf_def hold_wf_def)

lemma held_nonneg: "wf_db s \<Longrightarrow> 0 \<le> held_sum s acc ex"
  using wf_hold_amounts by (intro held_sum_cong) auto

lemma held_sum_exclude_le: "wf_db s \<Longrightarrow> held_sum s acc ex \<le> held_sum s acc 0"
  unfolding held_sum_def using wf_hold_amounts by (intro sum_list_filter_mono) fastforce+

lemma held_sum_closed_le:
  assumes "wf_db s" "st \<noteq> HoldActive"
  shows "held_sum (closed q st now f s) acc 0 \<le> held_sum s acc 0"
proof -
  have "sum_list (map (\<lambda>h. sint (m_amount (h_amount h)))
        (filter (\<lambda>h. h_account h = acc \<and> h_status h = HoldActive \<and> h_id h \<noteq> 0 \<and> \<not> q h) (holds s)))
      \<le> sum_list (map (\<lambda>h. sint (m_amount (h_amount h)))
        (filter (\<lambda>h. h_account h = acc \<and> h_status h = HoldActive \<and> h_id h \<noteq> 0) (holds s)))"
    using wf_hold_amounts [OF assms(1)] by (intro sum_list_filter_mono) auto
  then show ?thesis by (simp add: held_sum_closed [OF assms(2)]) (simp add: held_sum_def)
qed

text \<open>Once a captured hold is closed, the whole sum is the sum that excluded it.\<close>

lemma held_sum_captured:
  assumes "wf_db s"
  shows "held_sum (closed (\<lambda>h'. h_id h' = hid) HoldCaptured now f s) acc 0 = held_sum s acc hid"
proof -
  have "filter (\<lambda>h. h_account h = acc \<and> h_status h = HoldActive \<and> h_id h \<noteq> 0 \<and> h_id h \<noteq> hid) (holds s)
      = filter (\<lambda>h. h_account h = acc \<and> h_status h = HoldActive \<and> h_id h \<noteq> hid) (holds s)"
    using wf_hold_amounts [OF assms] by (intro filter_cong) fastforce+
  then show ?thesis by (simp add: held_sum_closed) (simp add: held_sum_def)
qed

section \<open>The arithmetic of the guard\<close>

text \<open>
  The test of \<open>post\<close> after a movement \<open>d\<close>, and the test of \<open>Hold\<close>: with an account that
  covered its holds before, the wrapped comparison decides the integer one.
\<close>

lemma normalise_diff_sint:
  "sint (normalise b t - word_of_int held) = sint (word_of_int (normal_side t (sint b) - held) :: int64)"
  by (simp add: normalise_def normal_side_def)

lemma guard_sound:
  assumes before: "held \<le> normal_side t (sint b)" and pos: "0 \<le> held"
    and move: "sint b' = sint b + sint (d :: int64)"
    and test: "0 \<le> sint (normalise b' t - word_of_int held)"
  shows "held \<le> normal_side t (sint b')"
proof (rule ccontr)
  let ?v = "normal_side t (sint b') - held"
  assume neg: "\<not> held \<le> normal_side t (sint b')"
  have "- (2 ^ 63) \<le> normal_side t (sint d)"
    using sint64_ge [of d] sint64_lt [of d] by (simp add: normal_side_def)
  then have "- (2 ^ 63) \<le> ?v"
    using before by (simp add: move normal_side_add)
  with neg have "fits64 ?v" by (simp add: fits64_def)
  then have "sint (word_of_int ?v :: int64) = ?v" by (rule sint_of_int64)
  with test neg show False by (simp add: normalise_diff_sint)
qed

lemma hold_test_sound:
  assumes before: "held \<le> normal_side t (sint b)" and pos: "0 \<le> held" and m: "0 < sint m"
    and test: "sint m \<le> sint (normalise b t - word_of_int held)"
  shows "held + sint m \<le> normal_side t (sint b)"
proof -
  let ?v = "normal_side t (sint b) - held"
  have le: "?v \<le> 2 ^ 63"
    using sint64_ge [of b] sint64_lt [of b] pos by (simp add: normal_side_def)
  show ?thesis
  proof (cases "?v = 2 ^ 63")
    case True
    then have "sint (word_of_int ?v :: int64) = - (2 ^ 63)" by (simp add: int_word_sint)
    with test m show ?thesis by (simp add: normalise_diff_sint)
  next
    case False
    with le before have "fits64 ?v" by (simp add: fits64_def)
    then have "sint (word_of_int ?v :: int64) = ?v" by (rule sint_of_int64)
    with test show ?thesis by (simp add: normalise_diff_sint)
  qed
qed

section \<open>The invariant\<close>

definition covered :: "db \<Rightarrow> account \<Rightarrow> bool" where
  "covered s a \<longleftrightarrow> a_allow_negative a \<or> 0 \<le> available s a 0"

definition guarded :: "db \<Rightarrow> bool" where
  "guarded s \<longleftrightarrow> wf_db s \<and> (\<forall>a \<in> set (accounts s). covered s a)"

lemma guarded_frame:
  assumes "guarded s" "wf_db s'"
    and "\<And>a. a \<in> set (accounts s') \<Longrightarrow> \<exists>a' \<in> set (accounts s). a_id a' = a_id a \<and> a_type a' = a_type a
          \<and> a_allow_negative a' = a_allow_negative a"
    and "\<And>acc. bal_of (balances s') acc = bal_of (balances s) acc"
    and "\<And>acc. held_sum s' acc 0 \<le> held_sum s acc 0"
  shows "guarded s'"
proof -
  have "covered s' a" if a: "a \<in> set (accounts s')" for a
  proof -
    from assms(3) [OF a] obtain a' where a': "a' \<in> set (accounts s)" "a_id a' = a_id a" "a_type a' = a_type a"
      "a_allow_negative a' = a_allow_negative a" by blast
    with assms(1) have "covered s a'" by (simp add: guarded_def)
    with a' assms(4) [of "a_id a"] assms(5) [of "a_id a"] show ?thesis
      by (auto simp: covered_def available_def)
  qed
  with assms(2) show ?thesis by (simp add: guarded_def)
qed

lemma delta_untouched: "acc \<notin> p_account ` set ps \<Longrightarrow> delta_of ps acc = 0"
proof -
  assume "acc \<notin> p_account ` set ps"
  then have "filter (\<lambda>p. p_account p = acc) ps = []" by (auto simp: filter_empty_conv)
  then show ?thesis by (simp add: delta_of_def)
qed

text \<open>After \<open>post\<close>, every guarded account covers its holds but the excluded one.\<close>

lemma guard_posted:
  assumes g: "guarded s" and run: "post now t0 ex s = (Inr (tid, t), s')" and a: "a \<in> set (accounts s)"
    and na: "\<not> a_allow_negative a"
  shows "0 \<le> available s' a ex"
proof -
  have wf: "wf_db s" using g by (simp add: guarded_def)
  note P = post_success [OF run wf_keys_ok [OF wf]]
  from P obtain bs where s': "s' = post_state s tid t bs"
    and bal: "\<forall>x. bal_of bs x = bal_of (balances s) x + sint (delta_of (t_postings t) x)" by blast
  have held: "held_sum s' (a_id a) ex = held_sum s (a_id a) ex" by (rule held_sum_frame) (simp add: s')
  have before: "held_sum s (a_id a) ex \<le> normal_side (a_type a) (bal_of (balances s) (a_id a))"
    using g a na held_sum_exclude_le [OF wf, of "a_id a" ex]
    by (fastforce simp: guarded_def covered_def available_def)
  show ?thesis
  proof (cases "a_id a \<in> p_account ` set (t_postings t)")
    case True
    from P have "\<forall>a \<in> set (accounts s). a_id a \<in> p_account ` set (t_postings t) \<longrightarrow> guard_passed s' ex a"
      by (elim conjE exE) assumption
    with a True have "guard_passed s' ex a" by simp
    with na have "0 \<le> sint (normalise (balance_of s' (a_id a)) (a_type a) - word_of_int (held_sum s (a_id a) ex))"
      by (simp add: guard_passed_def held)
    moreover have "sint (balance_of s' (a_id a)) = sint (balance_of s (a_id a)) + sint (delta_of (t_postings t) (a_id a))"
      using bal by (simp add: s')
    moreover have "held_sum s (a_id a) ex \<le> normal_side (a_type a) (sint (balance_of s (a_id a)))"
      using before by simp
    ultimately have "held_sum s (a_id a) ex \<le> normal_side (a_type a) (sint (balance_of s' (a_id a)))"
      using guard_sound held_nonneg [OF wf] by blast
    then show ?thesis by (simp add: available_def held)
  next
    case False
    then have "bal_of (balances s') (a_id a) = bal_of (balances s) (a_id a)"
      using bal delta_untouched by (simp add: s')
    with before show ?thesis by (simp add: available_def held)
  qed
qed

lemma guarded_posted:
  assumes g: "guarded s" and val: "Validate t0 = None" and run: "post now t0 0 s = (Inr (tid, t), s')"
  shows "guarded s'"
proof -
  have wf: "wf_db s" using g by (simp add: guarded_def)
  from post_success [OF run wf_keys_ok [OF wf]] have "accounts s' = accounts s" by auto
  then show ?thesis
    using guard_posted [OF g run] wf_posted_state [OF wf val run] by (auto simp: guarded_def covered_def)
qed

lemma guarded_captured:
  assumes g: "guarded s" and val: "Validate t0 = None"
    and run: "capture_body now post_now pg_now ref t0 s = (Inr x, s')"
  shows "guarded s'"
proof -
  have wf: "wf_db s" using g by (simp add: guarded_def)
  obtain tid t where x: "x = (tid, t)" by fastforce
  show ?thesis
  proof (rule capture_body_success [OF run [unfolded x]])
    fix h a0 s1
    assume post: "post post_now t0 (h_id h) s = (Inr (tid, t), s1)"
      and s': "s' = closed (\<lambda>h'. h_id h' = h_id h) HoldCaptured pg_now (\<lambda>_. Some tid) s1"
    have acc: "accounts s' = accounts s"
      using post_success [OF post wf_keys_ok [OF wf]] by (auto simp: s')
    have "covered s' a" if "a \<in> set (accounts s)" for a
      using guard_posted [OF g post that] held_sum_captured [OF wf_posted_state [OF wf val post]]
      by (auto simp: covered_def available_def s')
    with wf_captured [OF wf val run] acc show "guarded s'" by (simp add: guarded_def)
  qed
qed

lemma guarded_held:
  assumes g: "guarded s" and run: "hold_body pg_now req s = (Inr h, s')"
  shows "guarded s'"
proof -
  have wf: "wf_db s" using g by (simp add: guarded_def)
  note H = hold_body_success [OF run]
  from H obtain a0 where a0: "find_row a_id (hr_account req) (accounts s) = Some a0"
    and test: "a_allow_negative a0 \<or> sint (m_amount (hr_amount req))
        \<le> sint (normalise (balance_of s (a_id a0)) (a_type a0) - word_of_int (held_sum s (a_id a0) 0))"
    and m: "0 < sint (m_amount (hr_amount req))" by blast
  have s': "s' = s\<lparr>seq_holds := seq_holds s + 1, holds := holds s @ [h]\<rparr>" using H by blast
  have "covered s' a" if a: "a \<in> set (accounts s)" for a
  proof (cases "a_id a = hr_account req")
    case False
    then have "held_sum s' (a_id a) 0 = held_sum s (a_id a) 0"
      using H by (auto simp: s' held_sum_snoc)
    with g a show ?thesis by (simp add: guarded_def covered_def available_def s')
  next
    case True
    with a a0 wf have eq: "a = a0"
      by (auto simp: wf_db_def accounts_wf_def keys_ok_def find_row_Some_iff distinct_map)
         (simp add: inj_on_def)
    have held: "held_sum s' (a_id a) 0 \<le> held_sum s (a_id a) 0 + sint (m_amount (hr_amount req))"
      using H by (auto simp: s' held_sum_snoc)
    show ?thesis
    proof (cases "a_allow_negative a")
      case True
      then show ?thesis by (simp add: covered_def)
    next
      case False
      with g a have "held_sum s (a_id a) 0 \<le> normal_side (a_type a) (sint (balance_of s (a_id a)))"
        by (auto simp: guarded_def covered_def available_def)
      from hold_test_sound [OF this held_nonneg [OF wf] m] test False eq held show ?thesis
        by (simp add: covered_def available_def s')
    qed
  qed
  with wf_held [OF wf run] s' show ?thesis by (simp add: guarded_def)
qed

lemma guarded_opened:
  assumes g: "guarded s" and run: "CreateAccount New a s = (Inr (), opened a s)"
  shows "guarded (opened a s)"
proof -
  have wf: "wf_db s" using g by (simp add: guarded_def)
  note C = CreateAccount_success [OF run]
  have bal: "bal_of (balances (opened a s)) acc = bal_of (balances s) acc" for acc
    using C by (cases "find_row ba_account_id acc (balances s)")
       (auto simp: bal_of_def find_row_append dest: find_row_SomeD)
  have held: "held_sum (opened a s) acc 0 = held_sum s acc 0" for acc
    by (rule held_sum_frame) simp
  have "h_account h \<noteq> a_id a" if "h \<in> set (holds s)" for h
  proof
    assume eq: "h_account h = a_id a"
    from that wf have "(h_account h, m_currency (h_amount h)) \<in> account_keys s"
      by (simp add: wf_db_def holds_wf_def hold_wf_def)
    then have "h_account h \<in> a_id ` set (accounts s)" by (auto simp: account_keys_def)
    with C eq show False by simp
  qed
  then have "held_sum s (a_id a) 0 = 0"
    by (simp add: held_sum_def cong: filter_cong)
  moreover have "bal_of (balances s) (a_id a) = 0"
  proof -
    have "find_row ba_account_id (a_id a) (balances s) = None"
      using C by (simp add: find_row_None_iff)
    then show ?thesis by (simp add: bal_of_def)
  qed
  ultimately have "covered (opened a s) (a\<lparr>a_archived := False\<rparr>)"
    using bal held by (simp add: covered_def available_def normal_side_def del: opened_simps(2))
  moreover have "covered (opened a s) a'" if "a' \<in> set (accounts s)" for a'
    using g that bal held by (simp add: guarded_def covered_def available_def del: opened_simps(2))
  ultimately show ?thesis
    using wf_opened [OF wf run] by (simp add: guarded_def)
qed

interpretation guard: ledger_invariant guarded
proof (unfold_locales, goal_cases)
  case (1 s)
  then show ?case by (simp add: guarded_def wf_clean)
next
  case (2 s s1)
  show ?case
    by (rule guarded_frame [OF 2(1)]) (use 2 in \<open>auto simp: guarded_def held_sum_def intro: wf_undone\<close>)
next
  case (3 s a)
  then show ?case by (rule guarded_opened)
next
  case (4 s acc)
  show ?case
    by (rule guarded_frame [OF 4])
       (use 4 in \<open>auto simp: guarded_def held_sum_def update_rows_def intro: wf_archived\<close>)
next
  case (5 s t0 now x s')
  then show ?case by (cases x) (auto intro: guarded_posted)
next
  case (6 s pg_now req h s')
  then show ?case by (rule guarded_held)
next
  case (7 s t0 now post_now pg_now ref x s')
  then show ?case by (rule guarded_captured)
next
  case (8 s q st pg_now)
  have wf: "wf_db s" using 8(1) by (simp add: guarded_def)
  have st: "st \<noteq> HoldActive" using 8(3) by auto
  show ?case
    by (rule guarded_frame [OF 8(1)])
       (use wf_closed [OF wf 8(2,3)] held_sum_closed_le [OF wf st] in auto)
next
  case (9 s)
  then show ?case by (simp add: guarded_def wf_hold_ids)
qed

lemma guarded_empty: "guarded empty_db"
  by (simp add: guarded_def wf_empty) (simp add: empty_db_def)

lemma reachable_guarded: "reachable s \<Longrightarrow> guarded s"
  by (rule guard.reachable_keeps [OF guarded_empty])

end
