(* ===== verification/Outcomes.thy ===== *)
theory Outcomes
  imports History Books Guard
begin

text \<open>
  What a caller may conclude from the result of one operation: a failure on a pool leaves
  the data as it was, a posted transfer reads back as it was given, a reversal undoes the
  movements of its original and happens once, a capture takes between one unit and the whole hold.
\<close>

section \<open>Posting\<close>

lemma postings_after_post:
  assumes wf: "wf_db s" and val: "Validate t0 = None" and run: "post now t0 hid s = (Inr (tid, t), s')"
  shows "postings_of s' i = (if i = tid then t_postings t else postings_of s i)"
proof -
  from post_success [OF run wf_keys_ok [OF wf]] obtain bs where s': "s' = post_state s tid t bs"
    and tid: "tid = seq_transfers s + 1" by blast
  show ?thesis
    using postings_of_posted [OF wf_journal [OF wf] _ tid] wf_journal [OF wf_posted_state [OF wf val run]] s'
    by simp
qed

lemma transfer_of_new_row:
  assumes "\<And>i. postings_of s' i = (if i = tid then t_postings t else postings_of s i)"
  shows "transfer_of_row s' (new_row s tid t) = t"
  by (simp add: transfer_of_row_def assms stored_reverses_def)

text \<open>The parts of \<open>post_success\<close> most proofs need.\<close>

lemma post_fields:
  assumes "post now t0 hid s = (Inr (tid, t), s')" "keys_ok s"
  shows "post_checked s t" "t_reference t = t_reference t0" "t_postings t = t_postings t0" "t_reverses t = t_reverses t0"
proof -
  note P = post_success [OF assms]
  from P have t: "t = t0\<lparr>t_posted_at := resolve_posted_at now t0\<rparr>" by (elim conjE)
  show "post_checked s t" using P by (elim conjE)
  show "t_reference t = t_reference t0" "t_postings t = t_postings t0" "t_reverses t = t_reverses t0"
    by (simp_all add: t)
qed

lemma post_checked_fresh: "post_checked s t \<Longrightarrow> t_reference t \<notin> tr_reference ` set (transfers s)"
  unfolding post_checked_def by (elim conjE)

lemma read_back:
  assumes wf: "wf_db s" and val: "Validate t0 = None" and run: "post now t0 hid s = (Inr (tid, t), s')"
  shows "TransferByReference l (t_reference t0) s' = (Inr (t, tid), s')"
proof -
  from post_success [OF run wf_keys_ok [OF wf]] obtain bs where s': "s' = post_state s tid t bs" by blast
  have clean: "\<not> tx_aborted s'" using wf_clean [OF wf_posted_state [OF wf val run]] .
  note F = post_fields [OF run wf_keys_ok [OF wf]]
  note ref = F(2)
  from post_checked_fresh [OF F(1)] have "find_row tr_reference (t_reference t0) (transfers s) = None"
    using ref by (simp add: find_row_None_iff)
  then have find: "find_row tr_reference (t_reference t0) (transfers s') = Some (new_row s tid t)"
    using ref by (simp add: s' find_row_append)
  have "transfer_of_row s' (new_row s tid t) = t"
    using postings_after_post [OF wf val run] by (rule transfer_of_new_row)
  with find clean show ?thesis by (simp add: TransferByReference_def)
qed

lemma Post_success: "Post l now t0 s = (Inr (tid, t), s') \<Longrightarrow> Validate t0 = None \<and> post now t0 0 s = (Inr (tid, t), s')"
  by (auto simp: Post_def split: option.splits)

section \<open>Reversal\<close>

lemma delta_mirror:
  assumes "\<forall>p \<in> set ps. valid_dir (p_dir p)"
  shows "delta_of (mirror ps) acc = - delta_of ps acc"
  using assms by (induction ps) (auto simp: delta_of_def mirror_def signed_of_def signed_flip)

lemma stored_dirs:
  assumes wf: "wf_db s" and p: "p \<in> set (postings_of s i)"
  shows "valid_dir (p_dir p)"
proof -
  from p obtain r where "r \<in> set (postings s)" "p = posting_of_row r"
    by (auto simp: postings_of_wf [OF wf_journal [OF wf]])
  with wf_posting_keys(3) [OF wf] show ?thesis by (auto simp: good_posting_def)
qed

lemma Reverse_success:
  assumes "Reverse l now ref newRef desc s = (Inr (tid, t), s')"
  obtains row where "find_row tr_reference ref (transfers s) = Some row" "newRef \<noteq> []"
    "Post l now (reversal_of ref newRef desc (transfer_of_row s row) (tr_id row)) s = (Inr (tid, t), s')"
  using assms by (auto simp: Reverse_def TransferByReference_def split: if_splits)

lemma balance_after_post:
  assumes wf: "wf_db s" and run: "post now t0 hid s = (Inr (tid, t), s')"
  shows "balance_of s' acc = balance_of s acc + delta_of (t_postings t) acc"
proof -
  from post_success [OF run wf_keys_ok [OF wf]] obtain bs where s': "s' = post_state s tid t bs"
    and bal: "\<forall>a. bal_of bs a = bal_of (balances s) a + sint (delta_of (t_postings t) a)" by blast
  show ?thesis unfolding s' by (rule balance_of_posted [OF bal])
qed

lemma reversal_effect:
  assumes wf: "wf_db s" and run: "Reverse l now ref newRef desc s = (Inr (tid, t), s')"
    and row: "find_row tr_reference ref (transfers s) = Some row"
  shows "t_reverses t = tr_id row \<and> t_postings t = mirror (postings_of s (tr_id row))
    \<and> (\<forall>acc. balance_of s' acc = balance_of s acc - delta_of (postings_of s (tr_id row)) acc)"
proof -
  from run obtain row' where "find_row tr_reference ref (transfers s) = Some row'"
    and p: "Post l now (reversal_of ref newRef desc (transfer_of_row s row') (tr_id row')) s = (Inr (tid, t), s')"
    by (rule Reverse_success)
  with row have "row' = row" by simp
  with Post_success [OF p] have post:
    "post now (reversal_of ref newRef desc (transfer_of_row s row) (tr_id row)) 0 s = (Inr (tid, t), s')" by simp
  from post_fields [OF this wf_keys_ok [OF wf]]
  have t: "t_postings t = mirror (postings_of s (tr_id row))" "t_reverses t = tr_id row"
    by (simp_all add: reversal_of_def transfer_of_row_def)
  have "delta_of (t_postings t) acc = - delta_of (postings_of s (tr_id row)) acc" for acc
    unfolding t by (rule delta_mirror) (use stored_dirs [OF wf] in blast)
  then have "balance_of s' acc = balance_of s acc - delta_of (postings_of s (tr_id row)) acc" for acc
    unfolding balance_after_post [OF wf post] by (simp only: add_uminus_conv_diff)
  with t show ?thesis by blast
qed

lemma not_reversed_twice:
  assumes wf: "wf_db s" and q: "q \<in> set (transfers s)" and r: "r \<in> set (transfers s)" "tr_reverses r = Some (tr_id q)"
  shows "Reverse l now (tr_reference q) newRef desc s \<noteq> (Inr x, s')"
proof
  assume run: "Reverse l now (tr_reference q) newRef desc s = (Inr x, s')"
  obtain tid t where x: "x = (tid, t)" by fastforce
  have row: "find_row tr_reference (tr_reference q) (transfers s) = Some q"
    using wf q by (subst find_row_Some_iff) (auto simp: wf_db_def journal_wf_def)
  from run x obtain row' where "find_row tr_reference (tr_reference q) (transfers s) = Some row'"
    and p: "Post l now (reversal_of (tr_reference q) newRef desc (transfer_of_row s row') (tr_id row')) s = (Inr (tid, t), s')"
    using Reverse_success by metis
  with row have "post now (reversal_of (tr_reference q) newRef desc (transfer_of_row s q) (tr_id q)) 0 s = (Inr (tid, t), s')"
    using Post_success [OF p] by simp
  from post_fields [OF this wf_keys_ok [OF wf]]
  have "post_checked s t" "t_reverses t = tr_id q" by (simp_all add: reversal_of_def)
  moreover have "tr_id q \<noteq> 0" using wf q by (auto simp: wf_db_def journal_wf_def)
  ultimately have "Some (tr_id q) \<notin> tr_reverses ` set (transfers s)"
    by (simp add: post_checked_def stored_reverses_def)
  with r show False by (metis image_eqI)
qed

section \<open>Failures\<close>

lemma failed_Post: "Post New now t s = (Inl e, s') \<Longrightarrow> data_of s' = data_of s"
  using Post_cases [of now t s "Inl e" s'] by auto

lemma failed_CreateAccount: "CreateAccount New a s = (Inl e, s') \<Longrightarrow> data_of s' = data_of s"
  using CreateAccount_cases [of a s "Inl e" s'] by auto

lemma failed_Reverse: "Reverse New now ref newRef desc s = (Inl e, s') \<Longrightarrow> data_of s' = data_of s"
  using Reverse_cases failed_Post by fastforce

lemma failed_Hold: "Hold New pg_now req s = (Inl e, s') \<Longrightarrow> data_of s' = data_of s"
  using Hold_cases [of pg_now req s "Inl e" s'] by auto

section \<open>The sweep of holds\<close>

text \<open>What the active holds of an account that are past due still set aside.\<close>

definition due_sum :: "db \<Rightarrow> string \<Rightarrow> time \<Rightarrow> int" where
  "due_sum s acc now = sum_list (map (\<lambda>h. sint (m_amount (h_amount h)))
     (filter (\<lambda>h. h_account h = acc \<and> h_status h = HoldActive \<and> past_due now h) (holds s)))"

definition expired :: "time \<Rightarrow> db \<Rightarrow> db" where
  "expired now = closed (\<lambda>h. h_status h = HoldActive \<and> past_due now h) HoldExpired now (\<lambda>x. x)"

lemma ExpireHolds_run:
  assumes "\<not> tx_aborted s"
  shows "ExpireHolds New now s = (Inr (length (filter (\<lambda>h. h_status h = HoldActive \<and> past_due now h) (holds s))), expired now s)"
proof -
  have "(\<lambda>h. h_status h = HoldActive \<and> (case h_expires_at h of None \<Rightarrow> False | Some e \<Rightarrow> e \<le> now))
      = (\<lambda>h. h_status h = HoldActive \<and> past_due now h)"
    by (auto simp: past_due_def fun_eq_iff split: option.splits)
  with assms show ?thesis by (simp add: ExpireHolds_def expired_def closed_def close_holds_def)
qed

lemma expired_frame [simp]:
  "accounts (expired now s) = accounts s" "balances (expired now s) = balances s" "transfers (expired now s) = transfers s"
  "postings (expired now s) = postings s" "tx_aborted (expired now s) = tx_aborted s"
  by (simp_all add: expired_def)

lemma expired_hold:
  assumes "h \<in> set (holds (expired now s))"
  shows "h_status h = HoldActive \<Longrightarrow> \<not> past_due now h"
  using assms by (auto simp: expired_def update_rows_def split: if_splits)

lemma expired_keeps: "h \<in> set (holds s) \<Longrightarrow> \<not> (h_status h = HoldActive \<and> past_due now h) \<Longrightarrow> h \<in> set (holds (expired now s))"
  by (force simp: expired_def update_rows_def)

lemma expired_closes: "h \<in> set (holds s) \<Longrightarrow> h_status h = HoldActive \<Longrightarrow> past_due now h \<Longrightarrow>
    h\<lparr>h_status := HoldExpired, h_closed_at := Some now\<rparr> \<in> set (holds (expired now s))"
  by (force simp: expired_def update_rows_def)

lemma expired_none:
  assumes "\<forall>h \<in> set (holds s). h_status h = HoldActive \<longrightarrow> \<not> past_due now h"
  shows "expired now s = s"
proof -
  have "map (\<lambda>h. if h_status h = HoldActive \<and> past_due now h then h\<lparr>h_status := HoldExpired, h_closed_at := Some now\<rparr> else h)
      (holds s) = holds s"
    using assms by (intro map_idI) auto
  then show ?thesis by (simp add: expired_def closed_def update_rows_def)
qed

lemma expired_twice: "expired now (expired now s) = expired now s"
  using expired_hold by (intro expired_none) blast

lemma held_sum_expired:
  assumes "wf_db s"
  shows "held_sum s acc 0 = held_sum (expired now s) acc 0 + due_sum s acc now"
proof -
  have split: "sum_list (map f (filter P xs)) = sum_list (map f (filter (\<lambda>x. P x \<and> \<not> Q x) xs)) + sum_list (map f (filter (\<lambda>x. P x \<and> Q x) xs))"
    for f :: "hold \<Rightarrow> int" and P Q xs by (induction xs) auto
  have "h_id h \<noteq> 0" if "h \<in> set (holds s)" for h using wf_hold_amounts [OF assms that] by simp
  then have nz: "filter (\<lambda>h. h_account h = acc \<and> h_status h = HoldActive \<and> h_id h \<noteq> 0) (holds s)
      = filter (\<lambda>h. h_account h = acc \<and> h_status h = HoldActive) (holds s)"
    "filter (\<lambda>h. h_account h = acc \<and> h_status h = HoldActive \<and> h_id h \<noteq> 0 \<and> \<not> (h_status h = HoldActive \<and> past_due now h)) (holds s)
      = filter (\<lambda>h. (h_account h = acc \<and> h_status h = HoldActive) \<and> \<not> past_due now h) (holds s)"
    by (auto intro: filter_cong)
  have "held_sum (expired now s) acc 0 = sum_list (map (\<lambda>h. sint (m_amount (h_amount h)))
      (filter (\<lambda>h. (h_account h = acc \<and> h_status h = HoldActive) \<and> \<not> past_due now h) (holds s)))"
    unfolding expired_def by (simp only: held_sum_closed [of HoldExpired] HoldStatus.distinct not_False_eq_True nz(2))
  then show ?thesis
    using split [of _ "\<lambda>h. h_account h = acc \<and> h_status h = HoldActive" "holds s" "past_due now"]
    by (simp add: held_sum_def [of s] due_sum_def nz(1))
qed

section \<open>Capture\<close>

text \<open>A capture that finds its hold past due posts nothing and marks the hold expired.\<close>

lemma capture_past_due:
  assumes val: "Validate t0 = None" and clean: "\<not> tx_aborted s"
    and h: "find_row h_reference ref (holds s) = Some h" "h_status h = HoldActive" "past_due now h" "h_id h \<noteq> 0"
  shows "Capture New now post_now pg_now ref t0 s = (Inl ErrHoldExpired,
     closed (\<lambda>h'. h_id h' = h_id h \<and> h_status h' = HoldActive) HoldExpired pg_now (\<lambda>x. x) s)"
proof -
  have lock: "plain (lockHold ref) s = (Inr h, s)" using clean h by simp
  have "and_then (plain (lockHold ref)) k s = k h s" for k :: "hold \<Rightarrow> (ledger_error \<times> int, db, int \<times> transfer) prog"
    by (rule and_then_run_Inr) (rule lock)
  then have "capture_body now post_now pg_now ref t0 s = (Inl (ErrHoldExpired, h_id h), s)"
    using h by (simp add: capture_body_def fail_with_def)
  then have "inTx New (capture_body now post_now pg_now ref t0) s = (Inl (ErrHoldExpired, h_id h), s)"
    by (simp add: inTx_def)
  with val h clean show ?thesis by (simp add: Capture_def inTx_close)
qed

lemma capture_effect:
  assumes wf: "wf_db s" and run: "Capture l now post_now pg_now ref t0 s = (Inr (tid, t), s')"
  shows "\<exists>h a. find_row h_reference ref (holds s) = Some h \<and> h_status h = HoldActive \<and> \<not> past_due now h
    \<and> find_row a_id (h_account h) (accounts s) = Some a
    \<and> 0 < sint (- normalise (delta_of (t_postings t) (h_account h)) (a_type a))
    \<and> sint (- normalise (delta_of (t_postings t) (h_account h)) (a_type a)) \<le> sint (m_amount (h_amount h))
    \<and> holds s' = update_rows (\<lambda>h'. h_id h' = h_id h)
        (\<lambda>h'. h'\<lparr>h_status := HoldCaptured, h_closed_at := Some pg_now, h_transfer_id := Some tid\<rparr>) (holds s)
    \<and> (\<forall>acc. balance_of s' acc = balance_of s acc + delta_of (t_postings t) acc)"
proof (rule capture_body_success [OF conjunct2 [OF Capture_success [OF run]]])
  fix h a s1
  assume h: "find_row h_reference ref (holds s) = Some h" "h_status h = HoldActive" "\<not> past_due now h"
    "find_row a_id (h_account h) (accounts s) = Some a"
    and lo: "0 < sint (- normalise (delta_of (t_postings t0) (h_account h)) (a_type a))"
    and hi: "sint (- normalise (delta_of (t_postings t0) (h_account h)) (a_type a)) \<le> sint (m_amount (h_amount h))"
    and post: "post post_now t0 (h_id h) s = (Inr (tid, t), s1)"
    and s': "s' = closed (\<lambda>h'. h_id h' = h_id h) HoldCaptured pg_now (\<lambda>_. Some tid) s1"
  have "holds s1 = holds s" using post_success [OF post wf_keys_ok [OF wf]] by auto
  note same = post_fields(3) [OF post wf_keys_ok [OF wf]] this
  have "balance_of s' acc = balance_of s acc + delta_of (t_postings t) acc" for acc
    using balance_after_post [OF wf post] by (simp add: s' balance_of_def)
  with h lo hi same s' show ?thesis by (intro exI [of _ h] exI [of _ a]) simp
qed

end
