(* ===== verification/Acceptance.thy ===== *)
theory Acceptance
  imports Outcomes
begin

text \<open>
  When \<open>Post\<close> and \<open>Reverse\<close> succeed. \<open>acceptable\<close> states it over the integers, without the
  statements, their order or the wrap-around of \<open>int64\<close>: \<open>Post\<close> is proved to succeed in a
  reachable ledger exactly on the acceptable transfers. The lemmas here run the statements
  forwards; those of \<open>Posting_Facts\<close> read them backwards from a success.
\<close>

section \<open>What is accepted\<close>

text \<open>The balance an account would have, and what the ledger asks of it.\<close>

definition new_balance :: "db \<Rightarrow> transfer \<Rightarrow> string \<Rightarrow> int" where
  "new_balance s t acc = sint (balance_of s acc) + sint (delta_of (t_postings t) acc)"

definition account_admits :: "db \<Rightarrow> int \<Rightarrow> transfer \<Rightarrow> account \<Rightarrow> bool" where
  "account_admits s ex t a \<longleftrightarrow> \<not> a_archived a \<and> fits64 (new_balance s t (a_id a)) \<and>
     (a_allow_negative a \<or>
        (let held = held_sum s (a_id a) ex; avail = normal_side (a_type a) (new_balance s t (a_id a)) - held
         in fits64 held \<and> 0 \<le> avail \<and> fits64 avail))"

text \<open>The sequences still have values for the transfer and its postings.\<close>

definition room_for :: "db \<Rightarrow> transfer \<Rightarrow> bool" where
  "room_for s t \<longleftrightarrow> seq_transfers s < max_id \<and> seq_postings s + int (length (t_postings t)) \<le> max_id"

definition reversal_free :: "db \<Rightarrow> transfer \<Rightarrow> bool" where
  "reversal_free s t \<longleftrightarrow> t_reverses t = 0 \<or>
     (t_reverses t = seq_transfers s + 1 \<or> t_reverses t \<in> tr_id ` set (transfers s))
     \<and> Some (t_reverses t) \<notin> tr_reverses ` set (transfers s)"

definition acceptable :: "db \<Rightarrow> int \<Rightarrow> transfer \<Rightarrow> bool" where
  "acceptable s ex t \<longleftrightarrow> Validate t = None \<and> room_for s t
     \<and> t_reference t \<notin> tr_reference ` set (transfers s) \<and> reversal_free s t
     \<and> (\<forall>p \<in> set (t_postings t). \<exists>a \<in> set (accounts s).
          a_id a = p_account p \<and> a_currency a = p_currency p \<and> account_admits s ex t a)"

section \<open>Statements that succeed\<close>

lemma insert_postings_run:
  assumes "\<not> tx_aborted s" "seq_postings s + int (length ps) \<le> max_id" "tid \<in> tr_id ` set (transfers s)"
    and "\<forall>p \<in> set ps. 0 < sint (m_amount (p_amount p)) \<and> valid_dir (p_dir p) \<and> p_account p \<in> a_id ` set (accounts s)"
  shows "\<exists>s'. for_each (\<lambda>p. sql (insert_posting tid p)) ps s = (Inr (), s')"
  using assms
proof (induction ps arbitrary: s)
  case (Cons p ps)
  let ?s1 = "s\<lparr>seq_postings := seq_postings s + 1, postings := postings s @ [posting_row_of tid (seq_postings s + 1) p]\<rparr>"
  have "insert_posting tid p s = (Inr (), ?s1)"
    using Cons.prems by (auto simp: insert_posting_def Let_def)
  moreover have "\<exists>s'. for_each (\<lambda>p. sql (insert_posting tid p)) ps ?s1 = (Inr (), s')"
    using Cons.prems by (intro Cons.IH) auto
  ultimately show ?case using Cons.prems(1) by auto
qed simp

lemma insert_postings_room:
  assumes "for_each (\<lambda>p. sql (insert_posting tid p)) ps s = (Inr u, s')" "ps \<noteq> []"
  shows "seq_postings s + int (length ps) \<le> max_id"
  using assms
proof (induction ps arbitrary: s)
  case (Cons p ps)
  then obtain s1 where one: "insert_posting tid p s = (Inr (), s1)"
    and more: "for_each (\<lambda>p. sql (insert_posting tid p)) ps s1 = (Inr u, s')" by auto
  from one have "seq_postings s1 = seq_postings s + 1" "seq_postings s + 1 \<le> max_id"
    by (auto simp: insert_posting_def Let_def split: if_splits)
  with Cons.IH [OF more] show ?case by (cases "ps = []") auto
qed simp

lemma upsert_run:
  assumes "distinct (map ba_account_id (balances s))" "acc \<in> a_id ` set (accounts s)"
    and "fits64 (bal_of (balances s) acc + sint d)"
  shows "\<exists>s'. upsert_balance acc d s = (Inr (), s')"
  using assms by (auto simp: upsert_balance_def bal_of_def split: option.splits)

lemma upserts_run:
  assumes "\<not> tx_aborted s" "distinct (map ba_account_id (balances s))" "distinct (map fst ds)"
    and "\<forall>(acc, d) \<in> set ds. acc \<in> a_id ` set (accounts s) \<and> fits64 (bal_of (balances s) acc + sint d)"
  shows "\<exists>s'. for_each (\<lambda>(acc, d). if d = 0 then ret () else sql (upsert_balance acc d)) ds s = (Inr (), s')"
  using assms
proof (induction ds arbitrary: s)
  case (Cons x ds)
  obtain acc d where x: "x = (acc, d)" by fastforce
  show ?case
  proof (cases "d = 0")
    case True
    with Cons.IH [of s] Cons.prems x show ?thesis by simp
  next
    case False
    have "\<exists>s1. upsert_balance acc d s = (Inr (), s1)"
      using Cons.prems x by (intro upsert_run) auto
    then obtain s1 where up: "upsert_balance acc d s = (Inr (), s1)" ..
    from upsert_Inr [OF up Cons.prems(2)] obtain bs where s1: "s1 = s\<lparr>balances := bs\<rparr>"
      "distinct (map ba_account_id bs)" "\<forall>a. bal_of bs a = bal_of (balances s) a + (if a = acc then sint d else 0)"
      by blast
    have "bal_of bs a = bal_of (balances s) a" if "(a, e) \<in> set ds" for a e
      using s1(3) Cons.prems(3) x that by (auto simp: image_iff)
    then have "\<exists>s'. for_each (\<lambda>(acc, d). if d = 0 then ret () else sql (upsert_balance acc d)) ds s1 = (Inr (), s')"
      using Cons.prems s1(1,2) by (intro Cons.IH) fastforce+
    with up False Cons.prems(1) x show ?thesis by auto
  qed
qed simp

lemma delta_loop_keys: "fst ` set (delta_loop ps m) = p_account ` set ps \<union> fst ` set m"
  by (induction ps arbitrary: m) (auto simp: keys_add_at)

lemma delta_loop_entry: "(acc, d) \<in> set (delta_loop ps []) \<Longrightarrow> d = delta_of ps acc \<and> acc \<in> p_account ` set ps"
  using total_at_Some [of "delta_loop ps []" acc d] delta_loop_distinct [of "[]" ps] delta_loop_total [of ps "[]" acc]
    delta_loop_keys [of ps "[]"]
  by (force simp: total_at_def [of "[]"])


lemma applyBalances_run:
  assumes "keys_ok s" "\<not> tx_aborted s"
    and "\<And>acc. acc \<in> p_account ` set (t_postings t) \<Longrightarrow>
      acc \<in> a_id ` set (accounts s) \<and> fits64 (bal_of (balances s) acc + sint (delta_of (t_postings t) acc))"
  shows "\<exists>s'. applyBalances t s = (Inr (), s')"
  unfolding applyBalances_def
  using assms by (intro upserts_run delta_loop_distinct) (auto simp: keys_ok_def dest!: delta_loop_entry)

section \<open>The guard, both ways\<close>

lemma guard_complete:
  assumes "0 \<le> normal_side t (sint b) - held" "fits64 (normal_side t (sint b) - held)"
  shows "0 \<le> sint (normalise b t - word_of_int held)"
  unfolding normalise_diff_sint sint_of_int64 [OF assms(2)] by (rule assms(1))

lemma guard_fits:
  assumes before: "held \<le> normal_side t (sint b)" and pos: "0 \<le> held"
    and move: "sint b' = sint b + sint (d :: int64)"
    and test: "0 \<le> sint (normalise b' t - word_of_int held)"
  shows "fits64 (normal_side t (sint b') - held)"
proof -
  let ?v = "normal_side t (sint b') - held"
  have le: "?v \<le> 2 ^ 63" and ge: "0 \<le> ?v"
    using sint64_ge [of b'] sint64_lt [of b'] pos guard_sound [OF assms] by (simp_all add: normal_side_def)
  have "?v \<noteq> 2 ^ 63"
  proof
    assume "?v = 2 ^ 63"
    then have "sint (word_of_int ?v :: int64) = - (2 ^ 63)" by (simp add: int_word_sint)
    with test show False by (simp add: normalise_diff_sint)
  qed
  with le ge show ?thesis by (simp add: fits64_def)
qed

lemma for_each_guard: "(\<And>a. a \<in> set accs \<Longrightarrow> guard_account ex a s = (Inr (), s)) \<Longrightarrow> for_each (guard_account ex) accs s = (Inr (), s)"
  by (induction accs) auto

section \<open>Posting\<close>

lemma post_room:
  assumes "post now t0 ex s = (Inr x, s')" "t_postings t0 \<noteq> []"
  shows "seq_postings s + int (length (t_postings t0)) \<le> max_id"
proof -
  from assms(1) obtain t at pr dg tid s1 s2
    where ins: "insert_transfer t at pr dg s = (Inr tid, s1)"
      and posts: "for_each (\<lambda>p. sql (insert_posting tid p)) (t_postings t0) s1 = (Inr (), s2)"
    by (auto simp: post_def Let_def lockAccounts_def)
  have "seq_postings s1 = seq_postings s" using insert_transfer_Inr [OF ins] by simp
  with insert_postings_room [OF posts assms(2)] show ?thesis by simp
qed

lemma acceptable_posts:
  assumes wf: "wf_db s" and ok: "acceptable s ex t0"
  shows "\<exists>x s'. post now t0 ex s = (Inr x, s')"
proof -
  let ?t = "t0\<lparr>t_posted_at := resolve_posted_at now t0\<rparr>" and ?tid = "seq_transfers s + 1"
  let ?ps = "t_postings t0"
  let ?accs = "sort_key a_id (filter (\<lambda>a. a_id a \<in> p_account ` set ?ps) (accounts s))"
  let ?d = "chainDigest (newest_hash s) ?t (resolve_posted_at now t0)"
  define s1 where "s1 = s\<lparr>seq_transfers := ?tid, transfers := transfers s @ [new_row s ?tid ?t]\<rparr>"
  have keys: "keys_ok s" and clean: "\<not> tx_aborted s" using wf by (simp_all add: wf_keys_ok wf_clean)
  have val: "Validate t0 = None" and room: "room_for s t0" and free: "reversal_free s t0"
    and ref: "t_reference t0 \<notin> tr_reference ` set (transfers s)"
    and accs: "\<And>p. p \<in> set ?ps \<Longrightarrow> \<exists>a \<in> set (accounts s). a_id a = p_account p \<and> a_currency a = p_currency p \<and> account_admits s ex t0 a"
    using ok by (auto simp: acceptable_def)
  have unique: "find_row a_id (a_id a) (accounts s) = Some a" if "a \<in> set (accounts s)" for a
    using that keys by (simp add: keys_ok_def find_row_Some_iff)
  have admits: "account_admits s ex t0 a" if "a \<in> set ?accs" for a
  proof -
    from that obtain p where p: "p \<in> set ?ps" "a_id a = p_account p" and a: "a \<in> set (accounts s)" by auto
    from accs [OF p(1)] obtain a' where "a' \<in> set (accounts s)" "a_id a' = p_account p" "account_admits s ex t0 a'" by blast
    with unique [of a] unique [of a'] p a show ?thesis by simp
  qed
  have chk: "check_accounts ?accs ?ps = Inr ()"
    unfolding check_accounts_Inr_iff using accs unique find_locked [OF keys, of _ "p_account ` set ?ps"]
    by (fastforce simp: account_admits_def)
  have ins: "insert_transfer ?t (resolve_posted_at now t0) (newest_hash s) ?d s = (Inr ?tid, s1)"
    using ref room free
    by (auto simp: insert_transfer_def Let_def s1_def new_row_def stored_reverses_def room_for_def reversal_free_def)
  have "\<exists>s2. for_each (\<lambda>p. sql (insert_posting ?tid p)) ?ps s1 = (Inr (), s2)"
    using clean room accs Validate_good [OF val]
    by (intro insert_postings_run) (force simp: s1_def room_for_def good_posting_def)+
  then obtain s2 where posts: "for_each (\<lambda>p. sql (insert_posting ?tid p)) ?ps s1 = (Inr (), s2)" ..
  note P = insert_postings_Inr [OF posts]
  have s2: "balances s2 = balances s" "accounts s2 = accounts s" "holds s2 = holds s" "\<not> tx_aborted s2"
    using P clean by (simp_all add: s1_def)
  have "acc \<in> a_id ` set (accounts s) \<and> fits64 (new_balance s t0 acc)" if "acc \<in> p_account ` set ?ps" for acc
    using that accs by (force simp: account_admits_def)
  then have "\<exists>s3. applyBalances ?t s2 = (Inr (), s3)"
    using keys s2 by (intro applyBalances_run) (auto simp: keys_ok_def new_balance_def)
  then obtain s3 where app: "applyBalances ?t s2 = (Inr (), s3)" ..
  have "keys_ok s2" using keys s2 by (simp add: keys_ok_def)
  from applyBalances_Inr [OF app this] s2
  obtain bs where s3: "s3 = s2\<lparr>balances := bs\<rparr>" and bal: "\<And>a. bal_of bs a = new_balance s t0 a"
    by (auto simp: new_balance_def)
  have "guard_account ex a s3 = (Inr (), s3)" if "a \<in> set ?accs" for a
    using admits [OF that] s2 guard_complete [of "a_type a" "balance_of s3 (a_id a)" "held_sum s3 (a_id a) ex"]
    by (auto simp: guard_account_Inr account_admits_def Let_def s3 bal held_sum_def)
  then have "for_each (guard_account ex) ?accs s3 = (Inr (), s3)"
    by (rule for_each_guard)
  then show ?thesis
    using clean chk ins posts app by (auto simp: post_def Let_def lockAccounts_def)
qed

text \<open>What the accounts of a transfer that went through admitted before.\<close>

lemma posted_admits:
  assumes g: "guarded s" and run: "post now t0 ex s = (Inr (tid, t), s')"
    and a: "a \<in> set (accounts s)" "a_id a \<in> p_account ` set (t_postings t)" and open_acc: "\<not> a_archived a"
  shows "account_admits s ex t0 a"
proof -
  have wf: "wf_db s" using g by (simp add: guarded_def)
  note keys = wf_keys_ok [OF wf]
  from post_success [OF run keys] obtain bs where s': "s' = post_state s tid t bs"
    and bal: "\<forall>a. bal_of bs a = bal_of (balances s) a + sint (delta_of (t_postings t) a)"
    and passed: "\<forall>a \<in> set (accounts s). a_id a \<in> p_account ` set (t_postings t) \<longrightarrow> guard_passed s' ex a"
    by (elim conjE exE)
  have new: "sint (balance_of s' acc) = new_balance s t0 acc" for acc
    using bal post_fields(3) [OF run keys] by (simp add: s' new_balance_def)
  have held: "held_sum s' acc ex = held_sum s acc ex" for acc by (rule held_sum_frame) (simp add: s')
  have "fits64 (new_balance s t0 (a_id a))" unfolding new [symmetric] by simp
  moreover have "fits64 (held_sum s (a_id a) ex) \<and> 0 \<le> available s' a ex \<and> fits64 (available s' a ex)"
    if na: "\<not> a_allow_negative a"
  proof -
    from passed a na have test: "fits64 (held_sum s (a_id a) ex)"
      "0 \<le> sint (normalise (balance_of s' (a_id a)) (a_type a) - word_of_int (held_sum s (a_id a) ex))"
      by (auto simp: guard_passed_def held)
    have before: "held_sum s (a_id a) ex \<le> normal_side (a_type a) (sint (balance_of s (a_id a)))"
      using g a na held_sum_exclude_le [OF wf, of "a_id a" ex]
      by (fastforce simp: guarded_def covered_def available_def)
    have move: "sint (balance_of s' (a_id a)) = sint (balance_of s (a_id a)) + sint (delta_of (t_postings t) (a_id a))"
      using bal by (simp add: s')
    from guard_fits [OF before held_nonneg [OF wf] move test(2)] guard_posted [OF g run a(1) na] test(1)
    show ?thesis by (simp add: available_def held)
  qed
  ultimately show ?thesis
    using open_acc new [of "a_id a"] by (auto simp: account_admits_def Let_def available_def held)
qed

lemma posted_acceptable:
  assumes g: "guarded s" and val: "Validate t0 = None" and run: "post now t0 ex s = (Inr (tid, t), s')"
  shows "acceptable s ex t0"
proof -
  have wf: "wf_db s" using g by (simp add: guarded_def)
  note keys = wf_keys_ok [OF wf]
  note F = post_fields [OF run keys]
  have "\<exists>a \<in> set (accounts s). a_id a = p_account p \<and> a_currency a = p_currency p \<and> account_admits s ex t0 a"
    if p: "p \<in> set (t_postings t0)" for p
  proof -
    from F(1,3) p obtain a where a: "find_row a_id (p_account p) (accounts s) = Some a" "\<not> a_archived a" "a_currency a = p_currency p"
      by (auto simp: post_checked_def)
    with find_row_SomeD [OF a(1)] posted_admits [OF g run, of a] p F(3) show ?thesis by auto
  qed
  moreover have "room_for s t0"
  proof -
    have "t_postings t0 \<noteq> []" using val by (auto simp: Validate_None_iff)
    with post_room [OF run] F(1) show ?thesis by (simp add: room_for_def post_checked_def)
  qed
  moreover have "reversal_free s t0"
    using F(1,4) by (auto simp: post_checked_def reversal_free_def stored_reverses_def)
  ultimately show ?thesis
    using val post_checked_fresh [OF F(1)] F(2) by (simp add: acceptable_def)
qed

section \<open>Every stored transfer is valid\<close>

definition stored_valid :: "db \<Rightarrow> bool" where
  "stored_valid s \<longleftrightarrow> wf_db s \<and> (\<forall>r \<in> set (transfers s). Validate (transfer_of_row s r) = None)"

lemma Validate_posted_at [simp]: "Validate (t\<lparr>t_posted_at := at\<rparr>) = Validate t"
  by (simp add: Validate_def Net_def)

lemma stored_valid_posted:
  assumes ok: "stored_valid s" and val: "Validate t0 = None" and run: "post now t0 hid s = (Inr (tid, t), s')"
  shows "stored_valid s'"
proof -
  have wf: "wf_db s" using ok by (simp add: stored_valid_def)
  note po = postings_after_post [OF wf val run]
  note P = post_success [OF run wf_keys_ok [OF wf]]
  from P obtain bs where s': "s' = post_state s tid t bs" and tid: "tid = seq_transfers s + 1"
    and t: "t = t0\<lparr>t_posted_at := resolve_posted_at now t0\<rparr>" by blast
  have "transfer_of_row s' r = transfer_of_row s r" if "r \<in> set (transfers s)" for r
  proof -
    have "tr_id r \<noteq> tid" using that wf tid by (force simp: wf_db_def journal_wf_def)
    then show ?thesis by (simp add: transfer_of_row_def po)
  qed
  moreover have "Validate (transfer_of_row s' (new_row s tid t)) = None"
    using transfer_of_new_row [OF po] val t by simp
  ultimately show ?thesis
    using ok wf_posted_state [OF wf val run] by (simp add: stored_valid_def) (simp add: s')
qed

lemma stored_valid_frame:
  "stored_valid s \<Longrightarrow> wf_db s' \<Longrightarrow> transfers s' = transfers s \<Longrightarrow> postings s' = postings s \<Longrightarrow> stored_valid s'"
  by (simp add: stored_valid_def transfer_of_row_def postings_of_def)

interpretation validity: journal_invariant stored_valid
  by (unfold_locales, simp add: stored_valid_def, erule (3) stored_valid_frame, erule (2) stored_valid_posted)

lemma reachable_stored_valid: "reachable s \<Longrightarrow> stored_valid s"
  by (rule validity.reachable_keeps) (simp add: stored_valid_def wf_empty, simp add: empty_db_def)

section \<open>Reversing\<close>

lemma signed_sum_mirror:
  assumes "\<forall>p \<in> set ps. valid_dir (p_dir p)"
  shows "sum_list (map signed_of (filter (\<lambda>p. p_currency p = c) (mirror ps)))
    = - sum_list (map signed_of (filter (\<lambda>p. p_currency p = c) ps))"
  using assms by (induction ps) (auto simp: mirror_def signed_of_def signed_flip)

lemma reversal_valid:
  assumes "Validate t = None" "newRef \<noteq> []"
  shows "Validate (reversal_of ref newRef desc t i) = None"
proof -
  have "good_posting (p\<lparr>p_dir := flip_dir (p_dir p)\<rparr>)" if "good_posting p" for p
    using that by (simp add: good_posting_def)
  with assms signed_sum_mirror [of "t_postings t"] show ?thesis
    by (auto simp: Validate_None_iff reversal_of_def good_posting_def) (auto simp: mirror_def good_posting_def)
qed

lemma Reverse_run:
  assumes "\<not> tx_aborted s" "find_row tr_reference ref (transfers s) = Some row" "newRef \<noteq> []"
  shows "Reverse l now ref newRef desc s = Post l now (reversal_of ref newRef desc (transfer_of_row s row) (tr_id row)) s"
proof -
  have "TransferByReference l ref s = (Inr (transfer_of_row s row, tr_id row), s)"
    using assms(1,2) by (simp add: TransferByReference_def)
  with assms(3) show ?thesis by (simp add: Reverse_def and_then_run_Inr)
qed

lemma Post_iff:
  assumes "reachable s"
  shows "(\<exists>x s'. Post l now t s = (Inr x, s')) \<longleftrightarrow> acceptable s 0 t"
proof
  assume "\<exists>x s'. Post l now t s = (Inr x, s')"
  then obtain tid t1 s' where run: "Post l now t s = (Inr (tid, t1), s')" by auto
  from Post_success [OF this] have "Validate t = None" "post now t 0 s = (Inr (tid, t1), s')" by simp_all
  with reachable_guarded [OF assms] show "acceptable s 0 t" by (rule posted_acceptable)
next
  assume ok: "acceptable s 0 t"
  then have "Validate t = None" by (simp add: acceptable_def)
  with acceptable_posts [OF reachable_wf [OF assms] ok, of now] show "\<exists>x s'. Post l now t s = (Inr x, s')"
    by (simp add: Post_def)
qed

text \<open>The account of a stored posting.\<close>

lemma stored_account:
  assumes wf: "wf_db s" and p: "p \<in> set (postings_of s i)"
  shows "\<exists>a \<in> set (accounts s). a_id a = p_account p \<and> a_currency a = p_currency p"
proof -
  from p obtain r where "r \<in> set (postings s)" and r: "p = posting_of_row r"
    by (auto simp: postings_of_wf [OF wf_journal [OF wf]])
  from wf_posting_keys(2) [OF wf this(1)] show ?thesis
    by (auto simp: account_keys_def r posting_of_row_def)
qed

lemma reversal_acceptable:
  fixes newRef desc :: string
  assumes wf: "stored_valid s" and q: "q \<in> set (transfers s)" and new: "newRef \<noteq> []"
  defines "undo \<equiv> reversal_of (tr_reference q) newRef desc (transfer_of_row s q) (tr_id q)"
  shows "acceptable s 0 undo \<longleftrightarrow> newRef \<notin> tr_reference ` set (transfers s)
    \<and> Some (tr_id q) \<notin> tr_reverses ` set (transfers s) \<and> room_for s undo
    \<and> (\<forall>a \<in> set (accounts s). a_id a \<in> p_account ` set (postings_of s (tr_id q)) \<longrightarrow> account_admits s 0 undo a)"
proof -
  have w: "wf_db s" and val: "Validate (transfer_of_row s q) = None" using wf q by (simp_all add: stored_valid_def)
  have unique: "a = a'" if "a \<in> set (accounts s)" "a' \<in> set (accounts s)" "a_id a = a_id a'" for a a'
    using that wf_keys_ok [OF w] by (auto simp: keys_ok_def distinct_map dest: inj_onD)
  have parts: "t_postings undo = mirror (postings_of s (tr_id q))" "t_reverses undo = tr_id q" "t_reference undo = newRef"
    by (simp_all add: undo_def reversal_of_def transfer_of_row_def)
  have "reversal_free s undo \<longleftrightarrow> Some (tr_id q) \<notin> tr_reverses ` set (transfers s)"
    using q w parts(2) by (auto simp: reversal_free_def wf_db_def journal_wf_def)
  moreover have "(\<forall>p \<in> set (t_postings undo). \<exists>a \<in> set (accounts s). a_id a = p_account p \<and> a_currency a = p_currency p \<and> account_admits s 0 undo a)
      \<longleftrightarrow> (\<forall>a \<in> set (accounts s). a_id a \<in> p_account ` set (postings_of s (tr_id q)) \<longrightarrow> account_admits s 0 undo a)"
    (is "?l \<longleftrightarrow> ?r")
  proof -
    have "?l \<longleftrightarrow> (\<forall>p \<in> set (postings_of s (tr_id q)). \<exists>a \<in> set (accounts s). a_id a = p_account p \<and> a_currency a = p_currency p \<and> account_admits s 0 undo a)"
      by (simp add: parts(1)) (simp add: mirror_def)
    also have "\<dots> \<longleftrightarrow> ?r"
    proof (intro iffI ballI impI)
      fix a assume "a \<in> set (accounts s)" "a_id a \<in> p_account ` set (postings_of s (tr_id q))"
        and "\<forall>p \<in> set (postings_of s (tr_id q)). \<exists>a \<in> set (accounts s). a_id a = p_account p \<and> a_currency a = p_currency p \<and> account_admits s 0 undo a"
      then obtain a' where "a' \<in> set (accounts s)" "a_id a' = a_id a" "account_admits s 0 undo a'" by fastforce
      with unique [of a' a] \<open>a \<in> set (accounts s)\<close> show "account_admits s 0 undo a" by simp
    next
      fix p assume p: "p \<in> set (postings_of s (tr_id q))" and all: ?r
      from stored_account [OF w p] obtain a where a: "a \<in> set (accounts s)" "a_id a = p_account p" "a_currency a = p_currency p"
        by blast
      with all p have "account_admits s 0 undo a" by simp
      with a show "\<exists>a \<in> set (accounts s). a_id a = p_account p \<and> a_currency a = p_currency p \<and> account_admits s 0 undo a"
        by blast
    qed
    finally show ?thesis .
  qed
  moreover have "Validate undo = None" unfolding undo_def by (rule reversal_valid [OF val new])
  ultimately show ?thesis
    unfolding acceptable_def parts(3) by (simp only: simp_thms conj_ac)
qed

section \<open>Holding and capturing\<close>

text \<open>What an account must have left for a hold, and what a transfer takes off the held account.\<close>

definition hold_admits :: "db \<Rightarrow> HoldRequest \<Rightarrow> account \<Rightarrow> bool" where
  "hold_admits s req a \<longleftrightarrow> \<not> a_archived a \<and> a_currency a = m_currency (hr_amount req) \<and>
     (a_allow_negative a \<or> sint (m_amount (hr_amount req)) \<le> available s a 0 \<and> available s a 0 < 2 ^ 63)"

definition taken_off :: "transfer \<Rightarrow> account \<Rightarrow> int" where
  "taken_off t a = - normal_side (a_type a) (sint (delta_of (t_postings t) (a_id a)))"

lemma find_account:
  assumes "wf_db s"
  shows "find_row a_id acc (accounts s) = Some a \<longleftrightarrow> a \<in> set (accounts s) \<and> a_id a = acc"
  using wf_keys_ok [OF assms] by (simp add: keys_ok_def find_row_Some_iff)

lemma find_hold:
  assumes "wf_db s"
  shows "find_row h_reference ref (holds s) = Some h \<longleftrightarrow> h \<in> set (holds s) \<and> h_reference h = ref"
  using assms by (simp add: wf_db_def holds_wf_def find_row_Some_iff)

lemma hold_test:
  assumes g: "guarded s" and a: "a \<in> set (accounts s)" "\<not> a_allow_negative a" and m: "0 < sint m"
  shows "fits64 (held_sum s (a_id a) 0) \<and> sint m \<le> sint (normalise (balance_of s (a_id a)) (a_type a) - word_of_int (held_sum s (a_id a) 0))
    \<longleftrightarrow> sint m \<le> available s a 0 \<and> available s a 0 < 2 ^ 63" (is "?test \<longleftrightarrow> ?spec")
proof -
  let ?side = "normal_side (a_type a) (sint (balance_of s (a_id a)))" and ?held = "held_sum s (a_id a) 0"
  have wf: "wf_db s" using g by (simp add: guarded_def)
  have before: "?held \<le> ?side" using g a by (auto simp: guarded_def covered_def available_def)
  note pos = held_nonneg [OF wf, of "a_id a" 0]
  show ?thesis
  proof
    assume test: ?test
    from guard_fits [OF before pos, where b' = "balance_of s (a_id a)" and d = 0] test m
    have "?side - ?held < 2 ^ 63" by (simp add: fits64_def)
    with hold_test_sound [OF before pos m] test show ?spec by (simp add: available_def)
  next
    assume spec: ?spec
    then have fits: "fits64 (?side - ?held)" using before by (simp add: available_def fits64_def)
    have "?side \<le> 2 ^ 63" using sint64_ge [of "balance_of s (a_id a)"] sint64_lt [of "balance_of s (a_id a)"]
      by (simp add: normal_side_def)
    with spec m pos have "fits64 ?held" by (simp add: available_def fits64_def)
    with spec show ?test
      unfolding normalise_diff_sint sint_of_int64 [OF fits] by (simp add: available_def)
  qed
qed

lemma hold_body_room: "hold_body pg_now req s = (Inr h, s') \<Longrightarrow> seq_holds s < max_id"
  by (auto simp: hold_body_def availableLocked_Inr dest!: insert_hold_Inr split: if_splits)

lemma hold_body_iff:
  assumes g: "guarded s" and m: "0 < sint (m_amount (hr_amount req))"
  shows "(\<exists>h s'. hold_body pg_now req s = (Inr h, s')) \<longleftrightarrow>
    hr_reference req \<notin> h_reference ` set (holds s) \<and> seq_holds s < max_id
    \<and> (\<exists>a \<in> set (accounts s). a_id a = hr_account req \<and> hold_admits s req a)" (is "?ok \<longleftrightarrow> ?spec")
proof -
  have wf: "wf_db s" using g by (simp add: guarded_def)
  note test = hold_test [OF g _ _ m]
  show ?thesis
  proof
    assume ?ok
    then obtain h s' where run: "hold_body pg_now req s = (Inr h, s')" by blast
    from hold_body_success [OF run] test hold_body_room [OF run] show ?spec
      by (auto simp: find_account [OF wf] hold_admits_def)
  next
    assume spec: ?spec
    then obtain a where a: "a \<in> set (accounts s)" "a_id a = hr_account req" "hold_admits s req a" by blast
    let ?exp = "if IsZero_time (hr_expires_at req) then None else Some (Truncate_us (hr_expires_at req))"
    have "\<exists>x. insert_hold (a_id a) (hr_reference req) (hr_amount req) ?exp pg_now s = (Inr (fst x), snd x)"
      using spec a m by (auto simp: insert_hold_def Let_def intro: rev_image_eqI)
    then obtain h s' where ins: "insert_hold (a_id a) (hr_reference req) (hr_amount req) ?exp pg_now s = (Inr h, s')" by auto
    have lock: "lockAccount (hr_account req) s = (Inr a, s)" using a wf_clean [OF wf] by (simp add: find_account [OF wf])
    have check: "(if \<not> a_allow_negative a
          then and_then (availableLocked a 0) (\<lambda>avail.
                 if sint avail < sint (m_amount (hr_amount req)) then fail_with ErrInsufficientFunds else ret ())
          else ret ()) s = (Inr (), s)"
      using a test [of a] wf_clean [OF wf]
      by (cases "a_allow_negative a") (auto simp: hold_admits_def availableLocked_Inr)
    have "hold_body pg_now req s = (Inr h, s')"
      unfolding hold_body_def and_then_run_Inr [of "lockAccount (hr_account req)", OF lock]
      using a check ins wf_clean [OF wf] by (simp add: hold_admits_def and_then_run_Inr)
    then show ?ok by blast
  qed
qed

lemma spent_test:
  "0 < sint (- normalise d t) \<and> sint (- normalise d t) \<le> sint (m :: int64)
     \<longleftrightarrow> 0 < - normal_side t (sint d) \<and> - normal_side t (sint d) \<le> sint m"
proof -
  have eq: "sint (- normalise d t) = sint (word_of_int (- normal_side t (sint d)) :: int64)"
    by (simp add: normalise_def normal_side_def)
  show ?thesis
  proof (cases "- normal_side t (sint d) = 2 ^ 63")
    case True
    then have "sint (- normalise d t) = - (2 ^ 63)" unfolding eq by (simp add: int_word_sint)
    with True sint64_lt [of m] show ?thesis by simp
  next
    case False
    then have "fits64 (- normal_side t (sint d))"
      using sint64_ge [of d] sint64_lt [of d] by (simp add: normal_side_def fits64_def split: if_splits)
    then show ?thesis unfolding eq by (subst (1 2) sint_of_int64) (simp_all only:)
  qed
qed

lemma capture_body_iff:
  assumes g: "guarded s" and val: "Validate t = None"
  shows "(\<exists>x s'. capture_body now post_now pg_now ref t s = (Inr x, s')) \<longleftrightarrow>
    (\<exists>h \<in> set (holds s). h_reference h = ref \<and> h_status h = HoldActive \<and> \<not> past_due now h \<and> acceptable s (h_id h) t
       \<and> (\<exists>a \<in> set (accounts s). a_id a = h_account h \<and> 0 < taken_off t a \<and> taken_off t a \<le> sint (m_amount (h_amount h))))"
    (is "?ok \<longleftrightarrow> ?spec")
proof -
  have wf: "wf_db s" using g by (simp add: guarded_def)
  show ?thesis
  proof
    assume ?ok
    then obtain tid t' s' where run: "capture_body now post_now pg_now ref t s = (Inr (tid, t'), s')" by auto
    show ?spec
    proof (rule capture_body_success [OF run])
      fix h a s1
      assume h: "find_row h_reference ref (holds s) = Some h" "h_status h = HoldActive" "\<not> past_due now h"
        and a: "find_row a_id (h_account h) (accounts s) = Some a"
        and spent: "0 < sint (- normalise (delta_of (t_postings t) (h_account h)) (a_type a))"
          "sint (- normalise (delta_of (t_postings t) (h_account h)) (a_type a)) \<le> sint (m_amount (h_amount h))"
        and post: "post post_now t (h_id h) s = (Inr (tid, t'), s1)"
      from a have a': "a \<in> set (accounts s)" "a_id a = h_account h" by (simp_all add: find_account [OF wf])
      have "0 < taken_off t a \<and> taken_off t a \<le> sint (m_amount (h_amount h))"
        using spent spent_test [of "delta_of (t_postings t) (h_account h)" "a_type a" "m_amount (h_amount h)"] a'
        by (simp add: taken_off_def)
      with h a' posted_acceptable [OF g val post] show ?spec by (auto simp: find_hold [OF wf])
    qed
  next
    assume ?spec
    then obtain h a where h: "find_row h_reference ref (holds s) = Some h" "h_status h = HoldActive" "\<not> past_due now h"
      and ok: "acceptable s (h_id h) t" and a: "find_row a_id (h_account h) (accounts s) = Some a" "a_id a = h_account h"
      and drawn: "0 < taken_off t a" "taken_off t a \<le> sint (m_amount (h_amount h))"
      by (auto simp: find_hold [OF wf] find_account [OF wf])
    have spent: "0 < sint (- normalise (delta_of (t_postings t) (h_account h)) (a_type a))"
      "sint (- normalise (delta_of (t_postings t) (h_account h)) (a_type a)) \<le> sint (m_amount (h_amount h))"
      using drawn spent_test [of "delta_of (t_postings t) (h_account h)" "a_type a" "m_amount (h_amount h)"] a(2)
      by (simp_all add: taken_off_def)
    from acceptable_posts [OF wf ok] obtain tid t' s1 where post: "post post_now t (h_id h) s = (Inr (tid, t'), s1)" by fastforce
    have "\<not> tx_aborted s1" using post_success [OF post wf_keys_ok [OF wf]] wf_clean [OF wf] by auto
    with h a spent post wf_clean [OF wf] show ?ok
      by (auto simp: capture_body_def Let_def spent_loop_delta)
  qed
qed

lemma Capture_run:
  assumes "Validate t = None" "capture_body now post_now pg_now ref t s = (Inr x, s')"
  shows "Capture l now post_now pg_now ref t s = (Inr x, s')"
proof -
  have run: "inTx l (capture_body now post_now pg_now ref t) s = (Inr x, s')" using assms(2) by simp
  show ?thesis unfolding Capture_def assms(1) run by simp
qed

section \<open>Exactly when an operation succeeds\<close>

lemmas sample_simps = bal_of_def delta_of_def signed_of_def leg_def held_sum_def fits64_def normal_side_def
  debitNormal_def account_type_defs

text \<open>
  C9: \<open>Post\<close> succeeds exactly on the acceptable transfers. In a reachable ledger, pooled or embedded,
  it accepts a transfer if and only if \<open>Validate\<close> passes, the sequences have room, the reference
  is new, a reversal names a stored transfer that has none yet (or the id the new row itself gets), and every posting is in an open account of its
  currency whose new balance fits a \<open>bigint\<close> and, unless it may go negative, still covers its holds.
\<close>

theorem Post_succeeds_exactly:
  assumes "reachable s"
  shows "(\<exists>x s'. Post l now t s = (Inr x, s')) \<longleftrightarrow>
     Validate t = None \<and> room_for s t \<and> t_reference t \<notin> tr_reference ` set (transfers s) \<and> reversal_free s t
     \<and> (\<forall>p \<in> set (t_postings t). \<exists>a \<in> set (accounts s).
          a_id a = p_account p \<and> a_currency a = p_currency p \<and> account_admits s 0 t a)"
  unfolding Post_iff [OF assms] by (rule acceptable_def)

theorem Post_succeeds_exactly_witness:
  "\<exists>x s'. Post NewTx noon refund held_db = (Inr x, s')"
proof (subst Post_succeeds_exactly [OF reachable_held_db], intro conjI)
  show "Validate refund = None" by (rule refund_valid)
  show "room_for held_db refund" by (simp add: room_for_def max_id_def refund_def)
  have "account_admits held_db 0 refund sales"
    by (simp add: account_admits_def new_balance_def) (simp add: sample_simps refund_def placed_hold_def)
  moreover have "account_admits held_db 0 refund cash"
    by (simp add: account_admits_def new_balance_def) (simp add: sample_simps refund_def cash_def)
  ultimately show "\<forall>p \<in> set (t_postings refund). \<exists>a \<in> set (accounts held_db).
      a_id a = p_account p \<and> a_currency a = p_currency p \<and> account_admits held_db 0 refund a"
    by (simp add: refund_def leg_def) (simp add: cash_def)
qed (simp_all add: refund_def posted_sale_def sale_def reversal_free_def)

text \<open>
  C22: \<open>Reverse\<close> succeeds exactly when it should. In a reachable ledger the reversal of a stored transfer goes
  through if and only if the new reference is given and new, the transfer has no reversal yet,
  the sequences have room, and every account the transfer touched is open, can hold the balance that
  results and, unless it may go negative, still covers its holds; nothing else can refuse it.
\<close>

theorem Reverse_succeeds_exactly:
  assumes "reachable s" "q \<in> set (transfers s)"
  shows "(\<exists>x s'. Reverse l now (tr_reference q) newRef desc s = (Inr x, s')) \<longleftrightarrow>
     newRef \<noteq> [] \<and> newRef \<notin> tr_reference ` set (transfers s) \<and> Some (tr_id q) \<notin> tr_reverses ` set (transfers s)
     \<and> (let undo = reversal_of (tr_reference q) newRef desc (transfer_of_row s q) (tr_id q) in
         room_for s undo \<and> (\<forall>a \<in> set (accounts s).
           a_id a \<in> p_account ` set (postings_of s (tr_id q)) \<longrightarrow> account_admits s 0 undo a))"
proof (cases "newRef = []")
  case True
  then show ?thesis by (simp add: Reverse_def)
next
  case False
  have valid: "stored_valid s" using assms(1) by (rule reachable_stored_valid)
  then have wf: "wf_db s" by (simp add: stored_valid_def)
  have "find_row tr_reference (tr_reference q) (transfers s) = Some q"
    using wf assms(2) by (subst find_row_Some_iff) (auto simp: wf_db_def journal_wf_def)
  note run = Reverse_run [OF wf_clean [OF wf] this False]
  show ?thesis
    unfolding run Post_iff [OF assms(1)] reversal_acceptable [OF valid assms(2) False] Let_def using False by simp
qed

theorem Reverse_succeeds_exactly_witness:
  "\<exists>x s'. Reverse NewTx noon (tr_reference (new_row opened_db 1 posted_sale)) ''undo-1'' [] sold_db = (Inr x, s')"
proof -
  let ?q = "new_row opened_db 1 posted_sale"
  have undo: "reversal_of (tr_reference ?q) ''undo-1'' [] (transfer_of_row sold_db ?q) (tr_id ?q) = undo_sale"
    unfolding sale_read_back
    by (simp add: reversal_of_def undo_sale_def mirror_def posted_sale_def sale_def leg_def flip_dir_def)
  have "account_admits sold_db 0 undo_sale sales"
    by (simp add: account_admits_def new_balance_def) (simp add: sample_simps undo_sale_def)
  moreover have "account_admits sold_db 0 undo_sale cash"
    by (simp add: account_admits_def new_balance_def) (simp add: sample_simps undo_sale_def cash_def)
  moreover have "room_for sold_db undo_sale" by (simp add: room_for_def max_id_def undo_sale_def)
  ultimately show ?thesis
    by (subst Reverse_succeeds_exactly [OF reachable_sold_db], simp, unfold Let_def undo)
       (simp add: posted_sale_def sale_def stored_reverses_def)
qed

text \<open>
  Placing a hold sets its amount aside and moves no money: after a successful \<open>Hold\<close> in a reachable ledger
  the held sum of the account is larger by exactly the amount, the available balance smaller by
  it, every other account's unchanged, and no balance, transfer or posting has changed.
\<close>

lemma Hold_sets_aside:
  assumes "reachable s" "Hold l pg_now req s = (Inr h, s')"
  shows "(\<forall>acc. held_sum s' acc 0 = held_sum s acc 0
        + (if acc = hr_account req then sint (m_amount (hr_amount req)) else 0))
    \<and> (\<forall>a. available s' a 0 = available s a 0
        - (if a_id a = hr_account req then sint (m_amount (hr_amount req)) else 0))
    \<and> balances s' = balances s \<and> transfers s' = transfers s \<and> postings s' = postings s"
proof -
  have wf: "wf_db s" using assms(1) by (rule reachable_wf)
  note H = hold_body_success [OF Hold_success [OF assms(2)]]
  from H have s': "s' = s\<lparr>seq_holds := seq_holds s + 1, holds := holds s @ [h]\<rparr>" by (elim conjE)
  have "0 \<le> seq_holds s" using wf by (simp add: wf_db_def holds_wf_def)
  moreover have "h_id h = seq_holds s + 1" "h_account h = hr_account req" "h_amount h = hr_amount req" "h_status h = HoldActive"
    using H by auto
  ultimately have held: "held_sum s' acc 0 = held_sum s acc 0
        + (if acc = hr_account req then sint (m_amount (hr_amount req)) else 0)" for acc
    by (auto simp: s' held_sum_snoc)
  have same: "balances s' = balances s" "transfers s' = transfers s" "postings s' = postings s" by (simp_all add: s')
  show ?thesis using held same by (simp add: available_def)
qed

text \<open>
  C10: \<open>Hold\<close> succeeds exactly when it should. In a reachable ledger, pooled or embedded, it places a hold if and only if the
  request has a reference no hold uses and a positive amount, the sequence has room, and its account
  is open, of its currency and, unless it may go negative, has the amount available, where availability is
  reckoned over the integers and must fit an \<open>int64\<close>. It then sets that amount aside, lowering what the account has
  available by it and no other account's, and moves no money.
\<close>

theorem Hold_succeeds_exactly:
  assumes "reachable s"
  shows "((\<exists>h s'. Hold l pg_now req s = (Inr h, s')) \<longleftrightarrow>
     hr_reference req \<noteq> [] \<and> 0 < sint (m_amount (hr_amount req))
     \<and> hr_reference req \<notin> h_reference ` set (holds s) \<and> seq_holds s < max_id
     \<and> (\<exists>a \<in> set (accounts s). a_id a = hr_account req \<and> hold_admits s req a))
   \<and> (\<forall>h s'. Hold l pg_now req s = (Inr h, s') \<longrightarrow>
        (\<forall>a. available s' a 0 = available s a 0 - (if a_id a = hr_account req then sint (m_amount (hr_amount req)) else 0))
        \<and> balances s' = balances s \<and> transfers s' = transfers s \<and> postings s' = postings s)"
proof
  show "(\<exists>h s'. Hold l pg_now req s = (Inr h, s')) \<longleftrightarrow>
     hr_reference req \<noteq> [] \<and> 0 < sint (m_amount (hr_amount req))
     \<and> hr_reference req \<notin> h_reference ` set (holds s) \<and> seq_holds s < max_id
     \<and> (\<exists>a \<in> set (accounts s). a_id a = hr_account req \<and> hold_admits s req a)"
  proof (cases "hr_reference req \<noteq> [] \<and> 0 < sint (m_amount (hr_amount req))")
    case True
    with hold_body_iff [OF reachable_guarded [OF assms], of req pg_now] show ?thesis by (simp add: Hold_def)
  qed (auto simp: Hold_def)
qed (use Hold_sets_aside [OF assms] in blast)

theorem Hold_succeeds_exactly_witness: "\<exists>h s'. Hold NewTx noon earmark sold_db = (Inr h, s')"
proof (subst Hold_succeeds_exactly [OF reachable_sold_db, THEN conjunct1], intro conjI)
  have "hold_admits sold_db earmark sales"
    by (simp add: hold_admits_def available_def) (simp add: sample_simps earmark_def)
  then show "\<exists>a \<in> set (accounts sold_db). a_id a = hr_account earmark \<and> hold_admits sold_db earmark a"
    by (simp add: earmark_def)
qed (simp_all add: earmark_def max_id_def)

lemma capture_moves:
  assumes wf: "wf_db s" and run: "Capture l now post_now pg_now ref t s = (Inr (tid, t'), s')"
  shows "(\<exists>h. find_row h_reference ref (holds s) = Some h \<and> holds s' = update_rows (\<lambda>h'. h_id h' = h_id h)
          (\<lambda>h'. h'\<lparr>h_status := HoldCaptured, h_closed_at := Some pg_now, h_transfer_id := Some tid\<rparr>) (holds s))
       \<and> (\<forall>acc. balance_of s' acc = balance_of s acc + delta_of (t_postings t) acc)"
proof -
  have "t_postings t' = t_postings t"
    using capture_body_success [OF conjunct2 [OF Capture_success [OF run]]] post_fields [OF _ wf_keys_ok [OF wf]] by metis
  with capture_effect [OF wf run] show ?thesis by auto
qed

text \<open>
  C11: \<open>Capture\<close> succeeds exactly when it should. In a reachable ledger it goes through if and only if the reference
  names an active hold that is not past due, the transfer would be accepted as a post that leaves this hold
  out of the guard, and the balance of the held account falls, on its normal side, by at least one unit and at most the held amount,
  counted as the code counts it, as the \<open>int64\<close> sum of the transfer's postings there. It then moves that sum in every account and turns exactly that hold into a captured one that
  names the new transfer, releasing the remainder with it.
\<close>

theorem Capture_succeeds_exactly:
  assumes "reachable s"
  shows "((\<exists>x s'. Capture l now post_now pg_now ref t s = (Inr x, s')) \<longleftrightarrow>
     (\<exists>h \<in> set (holds s). h_reference h = ref \<and> h_status h = HoldActive \<and> \<not> past_due now h \<and> acceptable s (h_id h) t
       \<and> (\<exists>a \<in> set (accounts s). a_id a = h_account h \<and> 0 < taken_off t a \<and> taken_off t a \<le> sint (m_amount (h_amount h)))))
   \<and> (\<forall>tid t' s'. Capture l now post_now pg_now ref t s = (Inr (tid, t'), s') \<longrightarrow>
       (\<exists>h. find_row h_reference ref (holds s) = Some h \<and> holds s' = update_rows (\<lambda>h'. h_id h' = h_id h)
          (\<lambda>h'. h'\<lparr>h_status := HoldCaptured, h_closed_at := Some pg_now, h_transfer_id := Some tid\<rparr>) (holds s))
       \<and> (\<forall>acc. balance_of s' acc = balance_of s acc + delta_of (t_postings t) acc))"
proof
  show "(\<exists>x s'. Capture l now post_now pg_now ref t s = (Inr x, s')) \<longleftrightarrow>
     (\<exists>h \<in> set (holds s). h_reference h = ref \<and> h_status h = HoldActive \<and> \<not> past_due now h \<and> acceptable s (h_id h) t
       \<and> (\<exists>a \<in> set (accounts s). a_id a = h_account h \<and> 0 < taken_off t a \<and> taken_off t a \<le> sint (m_amount (h_amount h))))"
  proof (cases "Validate t")
    case None
    have "(\<exists>x s'. Capture l now post_now pg_now ref t s = (Inr x, s'))
        \<longleftrightarrow> (\<exists>x s'. capture_body now post_now pg_now ref t s = (Inr x, s'))"
      using Capture_success Capture_run [OF None] by blast
    with capture_body_iff [OF reachable_guarded [OF assms] None] show ?thesis by simp
  qed (simp add: Capture_def acceptable_def)
  show "\<forall>tid t' s'. Capture l now post_now pg_now ref t s = (Inr (tid, t'), s') \<longrightarrow>
       (\<exists>h. find_row h_reference ref (holds s) = Some h \<and> holds s' = update_rows (\<lambda>h'. h_id h' = h_id h)
          (\<lambda>h'. h'\<lparr>h_status := HoldCaptured, h_closed_at := Some pg_now, h_transfer_id := Some tid\<rparr>) (holds s))
       \<and> (\<forall>acc. balance_of s' acc = balance_of s acc + delta_of (t_postings t) acc)"
    using capture_moves [OF reachable_wf [OF assms]] by blast
qed

theorem Capture_succeeds_exactly_witness:
  "\<exists>x s'. Capture NewTx noon noon noon ''hold-1'' refund held_db = (Inr x, s')"
proof (subst Capture_succeeds_exactly [OF reachable_held_db, THEN conjunct1])
  have "account_admits held_db 1 refund sales"
    by (simp add: account_admits_def new_balance_def) (simp add: sample_simps refund_def placed_hold_def)
  moreover have "account_admits held_db 1 refund cash"
    by (simp add: account_admits_def new_balance_def) (simp add: sample_simps refund_def cash_def)
  ultimately have "acceptable held_db 1 refund"
    unfolding acceptable_def refund_valid
    by (simp add: refund_def leg_def room_for_def max_id_def reversal_free_def)
       (simp add: cash_def posted_sale_def sale_def)
  then show "\<exists>h \<in> set (holds held_db). h_reference h = ''hold-1'' \<and> h_status h = HoldActive \<and> \<not> past_due noon h
      \<and> acceptable held_db (h_id h) refund
      \<and> (\<exists>a \<in> set (accounts held_db). a_id a = h_account h \<and> 0 < taken_off refund a \<and> taken_off refund a \<le> sint (m_amount (h_amount h)))"
    by (simp add: placed_hold_def past_due_def taken_off_def) (simp add: sample_simps refund_def)
qed

end
