(* ===== verification/Query.thy ===== *)
theory Query
  imports Books "HOL-Library.Product_Lexorder" "HOL-Library.Multiset"
begin

text \<open>
  \<open>src/ledger/query.go\<close>: the reads. A \<open>numeric\<close> sum is scanned into an \<open>int64\<close>
  (\<open>scan64\<close>), which fails when it does not fit. Query parameters are \<open>timestamptz\<close> values, whole
  microseconds. In a ledger without oversized transfers a historical balance is the exact sum
  of the postings up to the instant, and at the end of time it is the cached balance; a
  statement is newest first, in range and no longer than its limit.
\<close>

section \<open>Balances\<close>

definition scan64 :: "int \<Rightarrow> ledger_error + int64" where
  "scan64 i = (if fits64 i then Inr (word_of_int i) else Inl ScanOutOfRange)"

text \<open>\<open>account_balances b JOIN accounts a ON a.id = b.account_id\<close>.\<close>

definition balances_join :: "db \<Rightarrow> (balance_row \<times> account) list" where
  "balances_join s = concat (map (\<lambda>b.
     case find_row a_id (ba_account_id b) (accounts s) of None \<Rightarrow> [] | Some a \<Rightarrow> [(b, a)]) (balances s))"

definition Balance :: "ledger \<Rightarrow> string \<Rightarrow> money run" where
  "Balance l acc = inTx l (and_then
     (select (\<lambda>s. find_row (\<lambda>(b, a). ba_account_id b) acc (balances_join s))) (\<lambda>r.
     case r of
       None \<Rightarrow> fail_with ErrUnknownAccount
     | Some (b, a) \<Rightarrow> ret \<lparr>m_amount = normalise (ba_balance b) (a_type a), m_currency = a_currency a\<rparr>))"

text \<open>\<open>postings p JOIN transfers t ON t.id = p.transfer_id\<close>.\<close>

definition postings_join :: "db \<Rightarrow> (posting_row \<times> transfer_row) list" where
  "postings_join s = concat (map (\<lambda>p.
     case find_row tr_id (po_transfer_id p) (transfers s) of None \<Rightarrow> [] | Some t \<Rightarrow> [(p, t)]) (postings s))"

definition sum_as_of :: "db \<Rightarrow> string \<Rightarrow> time \<Rightarrow> int" where
  "sum_as_of s acc at = sum_list (map (\<lambda>(p, t). row_exact p)
     (filter (\<lambda>(p, t). po_account_id p = acc \<and> tr_posted_at t \<le> Truncate_us at) (postings_join s)))"

definition BalanceAsOf :: "ledger \<Rightarrow> string \<Rightarrow> time \<Rightarrow> money run" where
  "BalanceAsOf l acc at =
     and_then (Account l acc) (\<lambda>a.
     and_then (inTx l (select (\<lambda>s. sum_as_of s (a_id a) at))) (\<lambda>tot.
     and_then (of_result (scan64 tot)) (\<lambda>raw.
     ret \<lparr>m_amount = normalise raw (a_type a), m_currency = a_currency a\<rparr>)))"

section \<open>Statements\<close>

record Entry =
  e_transfer_id :: int
  e_reference :: string
  e_description :: string
  e_posted_at :: time
  e_amount :: money
  e_dir :: string

record StatementOptions =
  so_from :: time
  so_to :: time
  so_limit :: int

definition nullTime :: "time \<Rightarrow> time option" where
  "nullTime t = (if IsZero_time t then None else Some (Truncate_us t))"

definition statement_limit :: "int \<Rightarrow> int" where
  "statement_limit n = (if n \<le> 0 \<or> 1000 < n then 1000 else n)"

definition entry_of :: "posting_row \<times> transfer_row \<Rightarrow> Entry" where
  "entry_of = (\<lambda>(p, t). \<lparr>e_transfer_id = tr_id t, e_reference = tr_reference t, e_description = tr_description t,
     e_posted_at = tr_posted_at t, e_amount = \<lparr>m_amount = po_amount p, m_currency = po_currency p\<rparr>,
     e_dir = po_direction p\<rparr>)"

definition in_range :: "StatementOptions \<Rightarrow> time \<Rightarrow> bool" where
  "in_range opt at \<longleftrightarrow>
     (case nullTime (so_from opt) of None \<Rightarrow> True | Some f \<Rightarrow> f \<le> at)
     \<and> (case nullTime (so_to opt) of None \<Rightarrow> True | Some u \<Rightarrow> at \<le> u)"

text \<open>
  \<open>ORDER BY t.posted_at DESC, t.id DESC\<close>. The statement leaves the order of two postings of
  one transfer open; the model takes them as stored.
\<close>

definition recency :: "Entry \<Rightarrow> time \<times> int" where
  "recency e = (- e_posted_at e, - e_transfer_id e)"

definition statement_rows :: "db \<Rightarrow> string \<Rightarrow> StatementOptions \<Rightarrow> Entry list" where
  "statement_rows s acc opt = sort_key recency
     (map entry_of (filter (\<lambda>(p, t). po_account_id p = acc \<and> in_range opt (tr_posted_at t)) (postings_join s)))"

definition Statement :: "ledger \<Rightarrow> string \<Rightarrow> StatementOptions \<Rightarrow> Entry list run" where
  "Statement l acc opt =
     and_then (Account l acc) (\<lambda>_.
     inTx l (select (\<lambda>s. take (nat (statement_limit (so_limit opt))) (statement_rows s acc opt))))"

section \<open>Trial balance\<close>

text \<open>\<open>GROUP BY a.currency\<close>, one exact sum per currency; the order of the groups is not specified.\<close>

definition trial_rows :: "db \<Rightarrow> (string \<times> int) list" where
  "trial_rows s =
     (let rows = balances_join s in
      map (\<lambda>c. (c, sum_list (map (\<lambda>(b, a). sint (ba_balance b)) (filter (\<lambda>(b, a). a_currency a = c) rows))))
        (remdups (map (\<lambda>(b, a). a_currency a) rows)))"

fun scan_sums :: "(string \<times> int) list \<Rightarrow> (string \<times> int64) list \<Rightarrow> ledger_error + (string \<times> int64) list" where
  "scan_sums [] out = Inr out"
| "scan_sums ((cur, tot) # rows) out =
     (case scan64 tot of Inl e \<Rightarrow> Inl e | Inr v \<Rightarrow> scan_sums rows (out @ [(cur, v)]))"

definition TrialBalance :: "ledger \<Rightarrow> (string \<times> int64) list run" where
  "TrialBalance l =
     and_then (inTx l (select trial_rows)) (\<lambda>rows. of_result (scan_sums rows []))"

section \<open>Joins over well-formed tables\<close>

lemma scan64_Inr [simp]: "scan64 i = Inr v \<longleftrightarrow> fits64 i \<and> v = word_of_int i"
  by (auto simp: scan64_def)

lemma Inr_scan64 [simp]: "Inr v = scan64 i \<longleftrightarrow> fits64 i \<and> v = word_of_int i"
  by (auto simp: scan64_def)

lemma inTx_select [simp]: "inTx l (select f) s = (Inr x, s') \<longleftrightarrow> \<not> tx_aborted s \<and> x = f s \<and> s' = s"
  by simp

lemma concat_map_singleton: "(\<And>x. x \<in> set xs \<Longrightarrow> f x = [g x]) \<Longrightarrow> concat (map f xs) = map g xs"
  by (induction xs) auto

lemma find_row_the: "k \<in> key ` set rows \<Longrightarrow> \<exists>r. find_row key k rows = Some r"
  by (metis find_row_None_iff not_None_eq)

lemma postings_join_wf:
  assumes "wf_db s"
  shows "postings_join s = map (\<lambda>p. (p, the (find_row tr_id (po_transfer_id p) (transfers s)))) (postings s)"
  unfolding postings_join_def
proof (intro concat_map_singleton)
  fix p assume "p \<in> set (postings s)"
  then have "po_transfer_id p \<in> tr_id ` set (transfers s)" by (rule wf_posting_keys(1) [OF assms])
  from find_row_the [OF this] show "(case find_row tr_id (po_transfer_id p) (transfers s) of None \<Rightarrow> [] | Some t \<Rightarrow> [(p, t)])
      = [(p, the (find_row tr_id (po_transfer_id p) (transfers s)))]" by auto
qed

lemma balances_join_wf:
  assumes "wf_db s"
  shows "balances_join s = map (\<lambda>b. (b, the (find_row a_id (ba_account_id b) (accounts s)))) (balances s)"
  unfolding balances_join_def
proof (intro concat_map_singleton)
  fix b assume "b \<in> set (balances s)"
  then have "ba_account_id b \<in> a_id ` set (accounts s)" using wf_balance_keys [OF assms] by auto
  from find_row_the [OF this] show "(case find_row a_id (ba_account_id b) (accounts s) of None \<Rightarrow> [] | Some a \<Rightarrow> [(b, a)])
      = [(b, the (find_row a_id (ba_account_id b) (accounts s)))]" by auto
qed

lemma find_row_map: "find_row key k (map f xs) = map_option f (find_row (\<lambda>x. key (f x)) k xs)"
  by (induction xs) simp_all

lemma wf_find_account: "wf_db s \<Longrightarrow> find_row a_id acc (accounts s) = Some a \<longleftrightarrow> a \<in> set (accounts s) \<and> a_id a = acc"
  by (intro find_row_Some_iff) (simp add: wf_db_def accounts_wf_def keys_ok_def)

lemma Balance_wf:
  assumes wf: "wf_db s" and a: "a \<in> set (accounts s)"
  shows "Balance l (a_id a) s =
    (Inr \<lparr>m_amount = normalise (balance_of s (a_id a)) (a_type a), m_currency = a_currency a\<rparr>, s)"
proof -
  have "a_id a \<in> ba_account_id ` set (balances s)" using a wf_balance_keys [OF wf] by auto
  from find_row_the [OF this] obtain b where b: "find_row ba_account_id (a_id a) (balances s) = Some b" by blast
  from find_row_SomeD [OF b] have "ba_account_id b = a_id a" by simp
  moreover have "find_row a_id (a_id a) (accounts s) = Some a" using wf a by (simp add: wf_find_account)
  ultimately have "find_row (\<lambda>(b, a). ba_account_id b) (a_id a) (balances_join s) = Some (b, a)"
    using b by (simp add: balances_join_wf [OF wf] find_row_map)
  then show ?thesis
    using wf_clean [OF wf] b by (simp add: Balance_def balance_of_def)
qed

section \<open>History\<close>

text \<open>The postings of an account up to an instant, summed exactly.\<close>

definition history_sum :: "db \<Rightarrow> string \<Rightarrow> time \<Rightarrow> int" where
  "history_sum s acc at = sum_list (map row_exact (filter (\<lambda>r. po_account_id r = acc \<and>
     (\<exists>t \<in> set (transfers s). tr_id t = po_transfer_id r \<and> tr_posted_at t \<le> Truncate_us at)) (postings s)))"

lemma wf_find_transfer: "wf_db s \<Longrightarrow> find_row tr_id i (transfers s) = Some t \<longleftrightarrow> t \<in> set (transfers s) \<and> tr_id t = i"
  by (intro find_row_Some_iff) (auto simp: wf_db_def journal_wf_def strict_sorted_iff)

lemma sum_as_of_history:
  assumes wf: "wf_db s"
  shows "sum_as_of s acc at = history_sum s acc at"
proof -
  have iff: "tr_posted_at (the (find_row tr_id (po_transfer_id p) (transfers s))) \<le> Truncate_us at \<longleftrightarrow>
      (\<exists>t \<in> set (transfers s). tr_id t = po_transfer_id p \<and> tr_posted_at t \<le> Truncate_us at)"
    if p: "p \<in> set (postings s)" for p
  proof -
    from find_row_the [OF wf_posting_keys(1) [OF wf p]] obtain t
      where t: "find_row tr_id (po_transfer_id p) (transfers s) = Some t" by blast
    then have "t' = t" if "t' \<in> set (transfers s)" "tr_id t' = po_transfer_id p" for t'
      using that wf_find_transfer [OF wf, of "po_transfer_id p" t'] by simp
    moreover have "t \<in> set (transfers s) \<and> tr_id t = po_transfer_id p"
      using t wf_find_transfer [OF wf] by simp
    ultimately show ?thesis using t by auto
  qed
  have "filter (\<lambda>p. po_account_id p = acc \<and> tr_posted_at (the (find_row tr_id (po_transfer_id p) (transfers s))) \<le> Truncate_us at) (postings s)
      = filter (\<lambda>r. po_account_id r = acc \<and>
     (\<exists>t \<in> set (transfers s). tr_id t = po_transfer_id r \<and> tr_posted_at t \<le> Truncate_us at)) (postings s)"
    by (intro filter_cong refl) (simp add: iff)
  then show ?thesis
    by (simp add: sum_as_of_def history_sum_def postings_join_wf [OF wf] filter_map o_def)
qed

lemma history_sum_all:
  assumes wf: "wf_db s" and late: "\<forall>t \<in> set (transfers s). tr_posted_at t \<le> Truncate_us at"
  shows "history_sum s acc at = exact_sum s acc"
proof -
  have "(\<exists>t \<in> set (transfers s). tr_id t = po_transfer_id r \<and> tr_posted_at t \<le> Truncate_us at)"
    if "r \<in> set (postings s)" for r
    using wf_posting_keys(1) [OF wf that] late by force
  then show ?thesis
    by (auto simp: history_sum_def exact_sum_def intro!: arg_cong [of _ _ sum_list] map_cong filter_cong)
qed

lemma Account_wf: "wf_db s \<Longrightarrow> a \<in> set (accounts s) \<Longrightarrow> Account l (a_id a) s = (Inr a, s)"
  by (simp add: Account_def wf_find_account wf_clean)

lemma Account_unknown: "wf_db s \<Longrightarrow> acc \<notin> a_id ` set (accounts s) \<Longrightarrow> \<exists>s'. Account l acc s = (Inl ErrUnknownAccount, s')"
  using find_row_None_iff [of a_id acc "accounts s"]
  by (auto simp: Account_def inTx_def get_account_def and_then_def select_def sql_def wf_clean fail_with_def
      split: ledger.splits)

lemma BalanceAsOf_wf:
  assumes wf: "wf_db s" and a: "a \<in> set (accounts s)"
  shows "BalanceAsOf l (a_id a) at s =
    (if fits64 (history_sum s (a_id a) at)
     then (Inr \<lparr>m_amount = normalise (word_of_int (history_sum s (a_id a) at)) (a_type a), m_currency = a_currency a\<rparr>, s)
     else (Inl ScanOutOfRange, s))"
proof (cases "fits64 (history_sum s (a_id a) at)")
  case True
  then show ?thesis
    using wf_clean [OF wf] by (simp add: BalanceAsOf_def Account_wf [OF wf a] sum_as_of_history [OF wf])
next
  case False
  have run: "inTx l (select (\<lambda>s. sum_as_of s (a_id a) at)) s = (Inr (history_sum s (a_id a) at), s)"
    using wf_clean [OF wf] by (simp add: sum_as_of_history [OF wf])
  show ?thesis
    using False by (simp add: BalanceAsOf_def and_then_def Account_wf [OF wf a] run scan64_def of_result_def)
qed

section \<open>Statements\<close>

lemma statement_rows_sorted: "sorted (map recency (statement_rows s acc opt))"
  by (simp add: statement_rows_def)

definition entry_exact :: "Entry \<Rightarrow> int" where
  "entry_exact e = sql_signed (e_dir e) (m_amount (e_amount e))"

lemma sum_list_sort_key: "sum_list (map f (sort_key k xs)) = sum_list (map f xs)"
  for f :: "'a \<Rightarrow> int"
proof -
  have "mset (map f (sort_key k xs)) = mset (map f xs)" by simp
  then show ?thesis by (metis sum_mset_sum_list)
qed

text \<open>A full statement up to an instant adds up to the balance as of that instant.\<close>

lemma statement_rows_sum:
  assumes "IsZero_time (so_from opt)" "\<not> IsZero_time (so_to opt)"
  shows "sum_list (map entry_exact (statement_rows s acc opt)) = sum_as_of s acc (so_to opt)"
proof -
  have "(\<lambda>x. entry_exact (entry_of x)) = (\<lambda>(p, t). row_exact p)"
    by (auto simp: fun_eq_iff entry_exact_def entry_of_def row_exact_def)
  then show ?thesis
    using assms by (simp add: statement_rows_def sum_list_sort_key sum_as_of_def o_def in_range_def nullTime_def)
qed

lemma Statement_run:
  "wf_db s \<Longrightarrow> a \<in> set (accounts s) \<Longrightarrow> Statement l (a_id a) opt s =
     (Inr (take (nat (statement_limit (so_limit opt))) (statement_rows s (a_id a) opt)), s)"
  using wf_clean by (simp add: Statement_def Account_wf)

lemma postings_join_iff:
  "wf_db s \<Longrightarrow> (p, t) \<in> set (postings_join s)
     \<longleftrightarrow> p \<in> set (postings s) \<and> t \<in> set (transfers s) \<and> po_transfer_id p = tr_id t"
  using wf_find_transfer [of s "po_transfer_id p" t]
  by (auto simp: postings_join_def eq_commute [of "Some _"] split: option.splits)

lemma statement_rows_iff:
  "wf_db s \<Longrightarrow> e \<in> set (statement_rows s acc opt) \<longleftrightarrow>
     (\<exists>p \<in> set (postings s). \<exists>t \<in> set (transfers s). po_transfer_id p = tr_id t \<and> po_account_id p = acc
        \<and> in_range opt (tr_posted_at t) \<and> e = entry_of (p, t))"
  by (force simp: statement_rows_def postings_join_iff)

text \<open>What a limit cuts off is no more recent than what it keeps.\<close>

lemma take_sorted:
  assumes "sorted (map f xs)" "x \<in> set xs"
  shows "x \<in> set (take n xs) \<or> length (take n xs) = n \<and> (\<forall>y \<in> set (take n xs). f y \<le> f x)"
proof (cases "x \<in> set (take n xs)")
  case False
  moreover have "x \<in> set (take n xs) \<union> set (drop n xs)" using assms(2) by (metis append_take_drop_id set_append)
  ultimately have x: "x \<in> set (drop n xs)" by simp
  then have "n < length xs" by (cases "n < length xs") simp_all
  moreover have "sorted (map f (take n xs) @ map f (drop n xs))" using assms(1) by (metis append_take_drop_id map_append)
  ultimately show ?thesis using x unfolding sorted_append by auto
qed simp

section \<open>Trial balance\<close>

lemma sum_list_by_ids:
  fixes f :: "string \<Rightarrow> int"
  assumes "distinct xs" "distinct ys" "set xs = set ys"
  shows "sum_list (map f xs) = sum_list (map f ys)"
  using assms by (simp add: sum_list_distinct_conv_sum_set)

lemma wf_account_join:
  assumes wf: "wf_db s" and b: "b \<in> set (balances s)"
  obtains a where "a \<in> set (accounts s)" "a_id a = ba_account_id b" "find_row a_id (ba_account_id b) (accounts s) = Some a"
proof -
  have "ba_account_id b \<in> a_id ` set (accounts s)" using b wf_balance_keys [OF wf] by auto
  from find_row_the [OF this] obtain a where a: "find_row a_id (ba_account_id b) (accounts s) = Some a" by blast
  then have "a \<in> set (accounts s) \<and> a_id a = ba_account_id b" using wf_find_account [OF wf] by simp
  with a show thesis by (intro that) auto
qed

lemma wf_balance_row: "wf_db s \<Longrightarrow> b \<in> set (balances s) \<Longrightarrow> ba_balance b = balance_of s (ba_account_id b)"
proof -
  assume "wf_db s" "b \<in> set (balances s)"
  then have "find_row ba_account_id (ba_account_id b) (balances s) = Some b"
    by (subst find_row_Some_iff) (auto simp: wf_db_def accounts_wf_def keys_ok_def)
  then show ?thesis by (simp add: balance_of_def)
qed

lemma trial_rows_sum:
  assumes wf: "wf_db s" and c: "(c, n) \<in> set (trial_rows s)"
  shows "n = sum_list (map (\<lambda>a. bal_of (balances s) (a_id a)) (filter (\<lambda>a. a_currency a = c) (accounts s)))"
proof -
  let ?cur = "\<lambda>b. a_currency (the (find_row a_id (ba_account_id b) (accounts s)))"
  let ?bs = "filter (\<lambda>b. ?cur b = c) (balances s)" and ?as = "filter (\<lambda>a. a_currency a = c) (accounts s)"
  have dist: "distinct (map ba_account_id ?bs)" "distinct (map a_id ?as)"
    using wf by (auto simp: wf_db_def accounts_wf_def keys_ok_def intro: distinct_map_filter)
  have sub: "a_id a \<in> ba_account_id ` set ?bs" if "a \<in> set ?as" for a
  proof -
    have "a_id a \<in> ba_account_id ` set (balances s)" using that wf_balance_keys [OF wf] by auto
    then obtain b where b: "b \<in> set (balances s)" "ba_account_id b = a_id a" by force
    have "find_row a_id (a_id a) (accounts s) = Some a" using wf_find_account [OF wf] that by simp
    with b that show ?thesis by force
  qed
  have sup: "ba_account_id b \<in> a_id ` set ?as" if "b \<in> set ?bs" for b
  proof -
    from that have "b \<in> set (balances s)" by simp
    with wf obtain a where "a \<in> set (accounts s)" "a_id a = ba_account_id b"
      "find_row a_id (ba_account_id b) (accounts s) = Some a" by (rule wf_account_join)
    with that show ?thesis by force
  qed
  have "n = sum_list (map (\<lambda>b. sint (ba_balance b)) ?bs)"
    using c by (auto simp: trial_rows_def Let_def balances_join_wf [OF wf] filter_map o_def)
  also have "\<dots> = sum_list (map (\<lambda>i. bal_of (balances s) i) (map ba_account_id ?bs))"
    unfolding map_map by (intro sum_list_map_cong) (simp add: wf_balance_row [OF wf])
  also have "\<dots> = sum_list (map (\<lambda>i. bal_of (balances s) i) (map a_id ?as))"
    using sub sup dist by (intro sum_list_by_ids) auto
  finally show ?thesis by (simp add: o_def)
qed

lemma scan_sums_Inr:
  "scan_sums rows out = Inr r \<longleftrightarrow>
     (\<forall>(c, n) \<in> set rows. fits64 n) \<and> r = out @ map (\<lambda>(c, n). (c, word_of_int n)) rows"
  by (induction rows out rule: scan_sums.induct) (auto simp: scan64_def)

lemma Inr_scan_sums:
  "Inr r = scan_sums rows out \<longleftrightarrow>
     (\<forall>(c, n) \<in> set rows. fits64 n) \<and> r = out @ map (\<lambda>(c, n). (c, word_of_int n)) rows"
  using scan_sums_Inr [of rows out r] by auto

lemma trial_rows_word:
  assumes "books_ok s" "(c, n) \<in> set (trial_rows s)"
  shows "(word_of_int n :: int64) = 0"
proof -
  have wf: "wf_db s" using assms(1) by (simp add: books_ok_def)
  have "(word_of_int n :: int64) = sum_list (map (\<lambda>a. balance_of s (a_id a)) (filter (\<lambda>a. a_currency a = c) (accounts s)))"
    using sum_list_of_sint [of "map (\<lambda>a. balance_of s (a_id a)) (filter (\<lambda>a. a_currency a = c) (accounts s))"]
    by (simp add: trial_rows_sum [OF wf assms(2)] o_def)
  with trial_sum_zero [OF assms(1), of c] show ?thesis by (simp add: trial_sum_def)
qed

lemma TrialBalance_zero:
  assumes "books_ok s" "TrialBalance l s = (Inr tb, s')" "(c, v) \<in> set tb"
  shows "v = 0"
proof -
  have "tb = map (\<lambda>(c, n). (c, word_of_int n)) (trial_rows s)"
    using assms(2) by (simp add: TrialBalance_def Inr_scan_sums)
  with assms(3) obtain n where "(c, n) \<in> set (trial_rows s)" "v = word_of_int n" by auto
  with trial_rows_word [OF assms(1)] show ?thesis by simp
qed

lemma trial_rows_exact:
  assumes r: "reachable s" and small: "all_small s" and row: "(c, n) \<in> set (trial_rows s)"
  shows "n = 0"
proof -
  have wf: "wf_db s" using r by (rule reachable_wf)
  have "n = sum_list (map (\<lambda>a. sum_list (map row_exact (filter (\<lambda>r. po_account_id r = a_id a) (postings s))))
      (filter (\<lambda>a. a_currency a = c) (accounts s)))"
    using reachable_exact [OF r small] by (simp add: trial_rows_sum [OF wf row] exact_sum_def)
  also have "\<dots> = sum_list (map (\<lambda>r. exact_of (posting_of_row r)) (filter (\<lambda>r. po_currency r = c) (postings s)))"
    by (simp add: sum_by_account [OF wf] row_exact_fun)
  also have "\<dots> = sum_list (map (\<lambda>t. exact_net (postings_of s (tr_id t)) c) (transfers s))"
    by (simp add: sum_by_transfer [OF wf] exact_net_def)
  also have "\<dots> = 0"
    using reachable_exact_net [OF r small] by (simp cong: map_cong)
  finally show ?thesis .
qed

lemma TrialBalance_exact:
  assumes r: "reachable s" and small: "all_small s"
  shows "TrialBalance l s = (Inr (map (\<lambda>(c, n). (c, 0)) (trial_rows s)), s)"
proof -
  have zero: "n = 0" if "(c, n) \<in> set (trial_rows s)" for c n
    using trial_rows_exact [OF r small that] .
  have "map (\<lambda>(c, n). (c, word_of_int n)) (trial_rows s) = map (\<lambda>(c, n). (c, 0 :: int64)) (trial_rows s)"
    by (intro map_cong) (auto dest: zero)
  moreover have "\<forall>(c, n) \<in> set (trial_rows s). fits64 n"
    by (auto simp: fits64_def dest: zero)
  ultimately show ?thesis
    using wf_clean [OF reachable_wf [OF r]] by (simp add: TrialBalance_def Inr_scan_sums)
qed

end
