(* ===== verification/Verify.thy ===== *)
theory Verify
  imports Query
begin

text \<open>
  \<open>src/ledger/verify.go\<close>: the audit that re-derives the ledger from its postings. Each query
  runs on its own, so on a pool each sees its own snapshot: \<open>Verify\<close> takes one database
  state per query. A check appends problems to the report and stops at a scan error,
  keeping what it found.

  Every reachable state carries an intact hash chain (\<open>interpretation chain\<close>), and the chain
  check adds no problem exactly when the stored rows form such a chain.
\<close>

section \<open>Reports\<close>

record Problem =
  pb_kind :: string
  pb_subject :: string
  pb_detail :: string

definition String_problem :: "Problem \<Rightarrow> string" where
  "String_problem p = pb_kind p @ '' '' @ pb_subject p @ '': '' @ pb_detail p"

text \<open>The report without \<open>Took\<close>, a rendering of the wall clock.\<close>

record Report =
  rp_accounts :: int
  rp_transfers :: int
  rp_postings :: int
  rp_problems :: "Problem list"

definition OK :: "Report \<Rightarrow> bool" where
  "OK r \<longleftrightarrow> length (rp_problems r) = 0"

type_synonym 'a check = "(ledger_error, Report, 'a) prog"

definition query :: "db \<Rightarrow> (db \<Rightarrow> 'a) \<Rightarrow> 'a check" where
  "query s f = (if tx_aborted s then fail_with (DbError InFailedTransaction) else ret (f s))"

definition report_problem :: "Problem \<Rightarrow> unit check" where
  "report_problem p r = (Inr (), r\<lparr>rp_problems := rp_problems r @ [p]\<rparr>)"

definition show_id :: "int \<Rightarrow> string" where
  "show_id i = FormatInt (word_of_int i)"

definition transfer_subject :: "int \<Rightarrow> string \<Rightarrow> string" where
  "transfer_subject i reference = ''transfer '' @ show_id i @ '' ('' @ reference @ '')''"

section \<open>Sums\<close>

text \<open>One row per transfer and currency whose exact net is not zero, \<open>ORDER BY t.id\<close>.\<close>

definition unbalanced_rows :: "db \<Rightarrow> (int \<times> string \<times> string \<times> int) list" where
  "unbalanced_rows s = concat (map (\<lambda>t.
     let rows = filter (\<lambda>r. po_transfer_id r = tr_id t) (postings s) in
     filter (\<lambda>(i, reference, c, net). net \<noteq> 0)
       (map (\<lambda>c. (tr_id t, tr_reference t, c, sum_list (map row_exact (filter (\<lambda>r. po_currency r = c) rows))))
         (remdups (map po_currency rows)))) (sort_key tr_id (transfers s)))"

definition unbalanced_problem :: "int \<Rightarrow> string \<Rightarrow> string \<Rightarrow> int64 \<Rightarrow> Problem" where
  "unbalanced_problem i reference currency net = \<lparr>pb_kind = ''unbalanced-transfer'',
     pb_subject = transfer_subject i reference, pb_detail = currency @ '' off by '' @ FormatInt net\<rparr>"

definition checkTransfersBalance :: "db \<Rightarrow> unit check" where
  "checkTransfersBalance s = and_then (query s unbalanced_rows) (for_each (\<lambda>(i, reference, currency, n).
     and_then (of_result (scan64 n)) (\<lambda>net. report_problem (unbalanced_problem i reference currency net))))"

text \<open>Balance rows that differ from the sum of their account's postings, \<open>ORDER BY account_id\<close>.\<close>

definition drift_rows :: "db \<Rightarrow> (string \<times> int64 \<times> int) list" where
  "drift_rows s = filter (\<lambda>(acc, cached, n). sint cached \<noteq> n)
     (map (\<lambda>b. (ba_account_id b, ba_balance b, exact_sum s (ba_account_id b)))
       (sort_key ba_account_id (balances s)))"

definition drift_problem :: "string \<Rightarrow> int64 \<Rightarrow> int64 \<Rightarrow> Problem" where
  "drift_problem acc cached fromPostings = \<lparr>pb_kind = ''balance-drift'', pb_subject = acc,
     pb_detail = ''cached '' @ FormatInt cached @ '', postings say '' @ FormatInt fromPostings
       @ '' (off by '' @ FormatInt (cached - fromPostings) @ '')''\<rparr>"

definition checkBalancesMatchPostings :: "db \<Rightarrow> unit check" where
  "checkBalancesMatchPostings s = and_then (query s drift_rows) (for_each (\<lambda>(acc, cached, n).
     and_then (of_result (scan64 n)) (\<lambda>fromPostings. report_problem (drift_problem acc cached fromPostings))))"

definition trial_problem :: "string \<Rightarrow> int64 \<Rightarrow> Problem" where
  "trial_problem currency v = \<lparr>pb_kind = ''trial-balance'', pb_subject = currency,
     pb_detail = ''accounts sum to '' @ FormatInt v @ '', expected 0''\<rparr>"

definition checkTrialBalance :: "db \<Rightarrow> unit check" where
  "checkTrialBalance s =
     and_then (of_result (fst (TrialBalance New s))) (for_each (\<lambda>(currency, v).
       if v \<noteq> 0 then report_problem (trial_problem currency v) else ret ()))"

section \<open>The chain walk\<close>

text \<open>
  A row of \<open>transfers t LEFT JOIN postings p ... ORDER BY t.id, p.id\<close>. The four posting
  columns are null together, when the transfer has no posting.
\<close>

record chain_row =
  cr_id :: int
  cr_reference :: string
  cr_description :: string
  cr_at :: time
  cr_prev :: "byte list"
  cr_hash :: "byte list"
  cr_reverses :: int
  cr_posting :: "posting option"

definition chain_row_of :: "transfer_row \<Rightarrow> posting option \<Rightarrow> chain_row" where
  "chain_row_of t p = \<lparr>cr_id = tr_id t, cr_reference = tr_reference t, cr_description = tr_description t,
     cr_at = tr_posted_at t, cr_prev = tr_prev_hash t, cr_hash = tr_hash t,
     cr_reverses = (case tr_reverses t of None \<Rightarrow> 0 | Some i \<Rightarrow> i), cr_posting = p\<rparr>"

definition rows_of_transfer :: "db \<Rightarrow> transfer_row \<Rightarrow> chain_row list" where
  "rows_of_transfer s t =
     (if postings_of s (tr_id t) = [] then [chain_row_of t None]
      else map (\<lambda>p. chain_row_of t (Some p)) (postings_of s (tr_id t)))"

definition chain_rows :: "db \<Rightarrow> chain_row list" where
  "chain_rows s = concat (map (rows_of_transfer s) (sort_key tr_id (transfers s)))"

record walk =
  w_cur :: "transfer option"
  w_id :: int
  w_at :: time
  w_prev :: "byte list"
  w_hash :: "byte list"
  w_expected :: "byte list"

definition walk_start :: walk where
  "walk_start = \<lparr>w_cur = None, w_id = 0, w_at = zero_time, w_prev = [], w_hash = [], w_expected = []\<rparr>"

definition break_problem :: "int \<Rightarrow> string \<Rightarrow> Problem" where
  "break_problem i reference = \<lparr>pb_kind = ''chain-break'', pb_subject = transfer_subject i reference,
     pb_detail = ''prev_hash does not match the previous transfer's hash''\<rparr>"

definition mismatch_problem :: "int \<Rightarrow> string \<Rightarrow> Problem" where
  "mismatch_problem i reference = \<lparr>pb_kind = ''hash-mismatch'', pb_subject = transfer_subject i reference,
     pb_detail = ''stored hash does not describe the stored postings''\<rparr>"

text \<open>The closure \<open>flush\<close>: the walk after it and the problems it appends.\<close>

definition flush :: "walk \<Rightarrow> walk \<times> Problem list" where
  "flush w =
     (case w_cur w of
        None \<Rightarrow> (w, [])
      | Some cur \<Rightarrow>
          (w\<lparr>w_expected := w_hash w\<rparr>,
           (if w_prev w \<noteq> w_expected w then [break_problem (w_id w) (t_reference cur)] else [])
           @ (if chainDigest (w_prev w) cur (w_at w) \<noteq> w_hash w
              then [mismatch_problem (w_id w) (t_reference cur)] else [])))"

definition add_posting :: "posting option \<Rightarrow> transfer option \<Rightarrow> transfer option" where
  "add_posting p cur =
     (case (p, cur) of
        (Some p, Some t) \<Rightarrow> Some (t\<lparr>t_postings := t_postings t @ [p]\<rparr>)
      | _ \<Rightarrow> cur)"

definition start_transfer :: "chain_row \<Rightarrow> walk \<Rightarrow> walk" where
  "start_transfer row w = w\<lparr>
     w_cur := Some \<lparr>t_reference = cr_reference row, t_description = cr_description row, t_postings = [],
                    t_posted_at = zero_time, t_reverses = cr_reverses row\<rparr>,
     w_id := cr_id row, w_at := cr_at row, w_prev := cr_prev row, w_hash := cr_hash row\<rparr>"

definition walk_row :: "chain_row \<Rightarrow> walk \<Rightarrow> walk \<times> Problem list" where
  "walk_row row w =
     (let (w1, ps) = (if w_cur w = None \<or> cr_id row \<noteq> w_id w
                      then (let (w', ps) = flush w in (start_transfer row w', ps)) else (w, []))
      in (w1\<lparr>w_cur := add_posting (cr_posting row) (w_cur w1)\<rparr>, ps))"

fun walk_rows :: "chain_row list \<Rightarrow> walk \<Rightarrow> walk \<times> Problem list" where
  "walk_rows [] w = (w, [])"
| "walk_rows (row # rows) w =
     (let (w1, ps) = walk_row row w; (w2, ps') = walk_rows rows w1 in (w2, ps @ ps'))"

definition chain_problems :: "chain_row list \<Rightarrow> Problem list" where
  "chain_problems rows = (let (w, ps) = walk_rows rows walk_start in ps @ snd (flush w))"

definition checkChain :: "db \<Rightarrow> unit check" where
  "checkChain s = and_then (query s chain_rows) (\<lambda>rows. for_each report_problem (chain_problems rows))"

text \<open>\<open>Verify\<close>: the counts, then the four checks, each on the snapshot its query sees.\<close>

definition count_rows :: "int \<times> int \<times> int \<Rightarrow> unit check" where
  "count_rows = (\<lambda>(a, t, p) r. (Inr (), r\<lparr>rp_accounts := a, rp_transfers := t, rp_postings := p\<rparr>))"

definition empty_report :: Report where
  "empty_report = \<lparr>rp_accounts = 0, rp_transfers = 0, rp_postings = 0, rp_problems = []\<rparr>"

definition Verify :: "db \<Rightarrow> db \<Rightarrow> db \<Rightarrow> db \<Rightarrow> db \<Rightarrow> (ledger_error + unit) \<times> Report" where
  "Verify s0 s1 s2 s3 s4 =
     and_then (query s0 (\<lambda>s. (int (length (accounts s)), int (length (transfers s)), int (length (postings s))))) (\<lambda>n.
     and_then (count_rows n) (\<lambda>_.
     and_then (checkTransfersBalance s1) (\<lambda>_.
     and_then (checkBalancesMatchPostings s2) (\<lambda>_.
     and_then (checkTrialBalance s3) (\<lambda>_.
     checkChain s4))))) empty_report"

section \<open>The walk is a chain check\<close>

text \<open>The chain the stored rows spell out.\<close>

definition link_of_row :: "db \<Rightarrow> transfer_row \<Rightarrow> link" where
  "link_of_row s t = \<lparr>l_transfer = transfer_of_row s t, l_at = tr_posted_at t,
     l_prev = tr_prev_hash t, l_hash = tr_hash t\<rparr>"

definition stored_chain :: "db \<Rightarrow> link list" where
  "stored_chain s = map (link_of_row s) (sort_key tr_id (transfers s))"

text \<open>The problems of one link, given the digest its predecessor stored.\<close>

definition link_problems :: "byte list \<Rightarrow> int \<Rightarrow> link \<Rightarrow> Problem list" where
  "link_problems expected i l =
     (if l_prev l \<noteq> expected then [break_problem i (t_reference (l_transfer l))] else [])
     @ (if sha256 (link_bytes l) \<noteq> l_hash l then [mismatch_problem i (t_reference (l_transfer l))] else [])"

fun links_problems :: "byte list \<Rightarrow> (int \<times> link) list \<Rightarrow> Problem list" where
  "links_problems expected [] = []"
| "links_problems expected ((i, l) # ls) = link_problems expected i l @ links_problems (l_hash l) ls"

text \<open>The walk in the middle of a transfer: its postings so far.\<close>

definition walking :: "byte list \<Rightarrow> transfer_row \<Rightarrow> posting list \<Rightarrow> walk" where
  "walking expected t ps = \<lparr>w_cur = Some \<lparr>t_reference = tr_reference t, t_description = tr_description t,
       t_postings = ps, t_posted_at = zero_time, t_reverses = (case tr_reverses t of None \<Rightarrow> 0 | Some i \<Rightarrow> i)\<rparr>,
     w_id = tr_id t, w_at = tr_posted_at t, w_prev = tr_prev_hash t, w_hash = tr_hash t, w_expected = expected\<rparr>"

lemma walk_rows_append:
  "walk_rows (xs @ ys) w = (let (w1, ps) = walk_rows xs w; (w2, ps') = walk_rows ys w1 in (w2, ps @ ps'))"
  by (induction xs arbitrary: w) (simp_all add: case_prod_beta Let_def)

lemma walk_same_transfer:
  "walk_rows (map (\<lambda>p. chain_row_of t (Some p)) ps) (walking e t qs) = (walking e t (qs @ ps), [])"
proof (induction ps arbitrary: qs)
  case (Cons p ps)
  have "walk_row (chain_row_of t (Some p)) (walking e t qs) = (walking e t (qs @ [p]), [])"
    by (simp add: walk_row_def chain_row_of_def walking_def add_posting_def)
  with Cons.IH [of "qs @ [p]"] show ?case by simp
qed (simp add: walking_def)

lemma flush_walking:
  "flush (walking e t (postings_of s (tr_id t)))
     = ((walking e t (postings_of s (tr_id t)))\<lparr>w_expected := tr_hash t\<rparr>, link_problems e (tr_id t) (link_of_row s t))"
proof -
  have "chainDigest (tr_prev_hash t) \<lparr>t_reference = tr_reference t, t_description = tr_description t,
       t_postings = postings_of s (tr_id t), t_posted_at = zero_time,
       t_reverses = (case tr_reverses t of None \<Rightarrow> 0 | Some i \<Rightarrow> i)\<rparr> (tr_posted_at t)
     = sha256 (link_bytes (link_of_row s t))"
    by (simp add: chainDigest_def link_bytes_def link_of_row_def transfer_of_row_def chain_bytes_def)
  then show ?thesis
    by (auto simp: flush_def walking_def link_problems_def) (simp_all add: link_of_row_def transfer_of_row_def)
qed

lemma walk_transfer:
  assumes new: "w_cur w = None \<or> w_id w \<noteq> tr_id t" and fl: "flush w = (w', ps)"
  shows "walk_rows (rows_of_transfer s t) w = (walking (w_expected w') t (postings_of s (tr_id t)), ps)"
proof -
  have first: "walk_row (chain_row_of t p) w = (walking (w_expected w') t (case p of None \<Rightarrow> [] | Some p \<Rightarrow> [p]), ps)" for p
    using new fl by (cases p) (auto simp: walk_row_def start_transfer_def walking_def add_posting_def chain_row_of_def)
  show ?thesis
  proof (cases "postings_of s (tr_id t)")
    case Nil
    then show ?thesis by (simp add: rows_of_transfer_def first)
  next
    case (Cons p qs)
    then show ?thesis
      by (simp add: rows_of_transfer_def first walk_same_transfer [of t _ _ "[p]", simplified])
  qed
qed

lemma walk_transfers:
  assumes "distinct (map tr_id (t # ts))"
  shows "(let (w, ps) = walk_rows (concat (map (rows_of_transfer s) ts)) (walking e t (postings_of s (tr_id t)))
      in ps @ snd (flush w))
    = links_problems e (map (\<lambda>t. (tr_id t, link_of_row s t)) (t # ts))"
  using assms
proof (induction ts arbitrary: e t)
  case Nil
  then show ?case by (simp add: flush_walking)
next
  case (Cons t' ts)
  have "w_id (walking e t (postings_of s (tr_id t))) \<noteq> tr_id t'"
    using Cons.prems by (simp add: walking_def)
  with walk_transfer [OF _ flush_walking] have
    "walk_rows (rows_of_transfer s t') (walking e t (postings_of s (tr_id t)))
       = (walking (tr_hash t) t' (postings_of s (tr_id t')), link_problems e (tr_id t) (link_of_row s t))"
    by fastforce
  moreover have "l_hash (link_of_row s t) = tr_hash t" by (simp add: link_of_row_def)
  ultimately show ?case
    using Cons.IH [of t' "tr_hash t"] Cons.prems
    by (simp add: walk_rows_append case_prod_beta Let_def)
qed

lemma chain_problems_links:
  assumes "distinct (map tr_id (transfers s))"
  shows "chain_problems (chain_rows s)
    = links_problems [] (map (\<lambda>t. (tr_id t, link_of_row s t)) (sort_key tr_id (transfers s)))"
proof (cases "sort_key tr_id (transfers s)")
  case Nil
  then show ?thesis by (simp add: chain_problems_def chain_rows_def flush_def walk_start_def)
next
  case (Cons t ts)
  have "distinct (map tr_id (sort_key tr_id (transfers s)))" using assms by (simp add: distinct_map)
  with Cons have dist: "distinct (map tr_id (t # ts))" by simp
  have "walk_rows (rows_of_transfer s t) walk_start = (walking [] t (postings_of s (tr_id t)), [])"
    by (subst walk_transfer [where w' = walk_start and ps = "[]"]) (simp_all add: walk_start_def flush_def)
  with walk_transfers [OF dist, of s "[]"] Cons show ?thesis
    by (simp add: chain_problems_def chain_rows_def walk_rows_append case_prod_beta Let_def)
qed

lemma links_problems_Nil_iff: "links_problems e (map (\<lambda>t. (f t, g t)) ts) = [] \<longleftrightarrow> chain_ok sha256 e (map g ts)"
  by (induction ts arbitrary: e) (auto simp: link_problems_def)

lemma chain_problems_Nil_iff:
  "distinct (map tr_id (transfers s)) \<Longrightarrow>
     chain_problems (chain_rows s) = [] \<longleftrightarrow> chain_ok sha256 [] (stored_chain s)"
  by (simp add: chain_problems_links links_problems_Nil_iff stored_chain_def)

section \<open>Every reachable ledger has an intact chain\<close>

definition chained :: "db \<Rightarrow> bool" where
  "chained s \<longleftrightarrow> wf_db s \<and> chain_ok sha256 [] (map (link_of_row s) (transfers s))"

lemma wf_sorted_transfers: "wf_db s \<Longrightarrow> sort_key tr_id (transfers s) = transfers s"
  by (intro sort_key_id_if_sorted) (auto simp: wf_db_def journal_wf_def strict_sorted_iff)

lemma chained_stored: "chained s \<longleftrightarrow> wf_db s \<and> chain_ok sha256 [] (stored_chain s)"
  by (auto simp: chained_def stored_chain_def wf_sorted_transfers)

lemma link_of_row_cong: "postings s = postings s' \<Longrightarrow> link_of_row s t = link_of_row s' t"
  by (simp add: link_of_row_def transfer_of_row_def postings_of_def)

lemma chained_frame: "chained s \<Longrightarrow> wf_db s' \<Longrightarrow> transfers s' = transfers s \<Longrightarrow> postings s' = postings s \<Longrightarrow> chained s'"
proof -
  assume a: "chained s" "wf_db s'" "transfers s' = transfers s" "postings s' = postings s"
  have "link_of_row s' = link_of_row s" by (rule ext) (rule link_of_row_cong [OF a(4)])
  with a show ?thesis by (simp add: chained_def)
qed

lemma chained_posted:
  assumes ch: "chained s" and val: "Validate t0 = None" and run: "post now t0 hid s = (Inr (tid, t), s')"
  shows "chained s'"
proof -
  have wf: "wf_db s" using ch by (simp add: chained_def)
  have wf': "wf_db s'" by (rule wf_posted_state [OF wf val run])
  from post_success [OF run wf_keys_ok [OF wf]] obtain bs where s': "s' = post_state s tid t bs"
    and tid: "tid = seq_transfers s + 1" by blast
  have po: "postings_of s' i = (if i = tid then t_postings t else postings_of s i)" for i
    using postings_of_posted [OF wf_journal [OF wf] _ tid] wf_journal [OF wf'] s' by simp
  have old: "link_of_row s' r = link_of_row s r" if "r \<in> set (transfers s)" for r
  proof -
    have "tr_id r \<noteq> tid" using that wf tid by (force simp: wf_db_def journal_wf_def)
    then show ?thesis by (simp add: link_of_row_def transfer_of_row_def po)
  qed
  define l where "l = link_of_row s' (new_row s tid t)"
  have "transfer_of_row s' (new_row s tid t) = t"
    by (simp add: transfer_of_row_def po stored_reverses_def)
  then have "link_bytes l = chain_bytes (newest_hash s) t (t_posted_at t)"
    by (simp add: l_def link_of_row_def link_bytes_def)
  then have hash: "l_hash l = sha256 (link_bytes l)"
    by (simp add: l_def link_of_row_def chainDigest_def)
  have prev: "l_prev l = head_hash [] (map (link_of_row s) (transfers s))"
    using newest_hash_wf [OF wf_journal [OF wf]]
    by (simp add: l_def link_of_row_def head_hash_def last_map)
  have "map (link_of_row s') (transfers s') = map (link_of_row s') (transfers s) @ [l]"
    by (simp add: l_def) (simp add: s')
  also have "map (link_of_row s') (transfers s) = map (link_of_row s) (transfers s)"
    using old by simp
  finally have "chain_ok sha256 [] (map (link_of_row s') (transfers s'))"
    using ch hash prev by (simp only: chain_ok_snoc chained_def)
  with wf' show ?thesis by (simp add: chained_def)
qed

interpretation chain: journal_invariant chained
  by (unfold_locales, simp add: chained_def, erule (3) chained_frame, erule (2) chained_posted)

lemma reachable_chained: "reachable s \<Longrightarrow> chained s"
  by (rule chain.reachable_keeps) (simp add: chained_def wf_empty, simp add: empty_db_def)

section \<open>A sound ledger passes every check\<close>

lemma query_clean [simp]: "\<not> tx_aborted s \<Longrightarrow> query s f = ret (f s)"
  by (simp add: query_def)

lemma ret_and_then [simp]: "and_then (ret x) k = k x"
  by (simp add: and_then_def ret_def fun_eq_iff)

lemma of_result_Inr_and_then [simp]: "and_then (of_result (Inr x)) k = k x"
  by (simp add: and_then_def of_result_def fun_eq_iff)

lemma exact_net_rows:
  assumes wf: "wf_db s"
  shows "sum_list (map row_exact (filter (\<lambda>r. po_currency r = c) (filter (\<lambda>r. po_transfer_id r = i) (postings s))))
    = exact_net (postings_of s i) c"
  by (simp add: exact_net_def postings_of_wf [OF wf_journal [OF wf]] filter_map o_def row_exact_fun conj_commute)

lemma for_each_skip: "(\<And>x. x \<in> set xs \<Longrightarrow> f x = ret ()) \<Longrightarrow> for_each f xs = ret ()"
  by (induction xs) (auto simp: and_then_def ret_def fun_eq_iff)

lemma wf_distinct_ids: "wf_db s \<Longrightarrow> distinct (map tr_id (transfers s))"
  by (auto simp: wf_db_def journal_wf_def strict_sorted_iff)

lemma checkChain_pass:
  assumes "reachable s"
  shows "checkChain s = ret ()"
proof -
  have ch: "wf_db s" "chain_ok sha256 [] (stored_chain s)"
    using reachable_chained [OF assms] by (simp_all add: chained_stored)
  then have "chain_problems (chain_rows s) = []"
    by (simp add: chain_problems_Nil_iff wf_distinct_ids)
  then show ?thesis using wf_clean [OF ch(1)] by (simp add: checkChain_def)
qed

section \<open>What the audit decides on any ledger\<close>

text \<open>
  The three statements the sums of the audit are about, over the integers. A ledger keeps them modulo \<open>2^64\<close>, so where one
  fails it is off by a multiple of \<open>2^64\<close>, which no \<open>int64\<close> can hold.
\<close>

definition exact_nets :: "db \<Rightarrow> bool" where
  "exact_nets s \<longleftrightarrow> (\<forall>t \<in> set (transfers s). \<forall>c. exact_net (postings_of s (tr_id t)) c = 0)"

definition exact_cache :: "db \<Rightarrow> bool" where
  "exact_cache s \<longleftrightarrow> (\<forall>a \<in> set (accounts s). sint (balance_of s (a_id a)) = exact_sum s (a_id a))"

definition exact_trial :: "db \<Rightarrow> bool" where
  "exact_trial s \<longleftrightarrow> (\<forall>c. sum_list (map (\<lambda>a. sint (balance_of s (a_id a))) (filter (\<lambda>a. a_currency a = c) (accounts s))) = 0)"

lemma wraps_not_fits: "(word_of_int n :: int64) = w \<Longrightarrow> sint w \<noteq> n \<Longrightarrow> \<not> fits64 n"
  using sint_of_int64 by auto

lemma wraps_zero_not_fits: "(word_of_int n :: int64) = 0 \<Longrightarrow> n \<noteq> 0 \<Longrightarrow> \<not> fits64 n"
  using wraps_not_fits [of n 0] by simp

text \<open>A loop over rows none of which can be scanned stops at the first.\<close>

lemma for_each_unscannable:
  assumes "\<And>x. x \<in> set rows \<Longrightarrow> f x = of_result (Inl e)"
  shows "for_each f rows = of_result (if rows = [] then Inr () else Inl e)"
  using assms by (cases rows) (auto simp: and_then_def of_result_def ret_def fun_eq_iff)

lemma of_result_Inl_and_then [simp]: "and_then (of_result (Inl e)) k = of_result (Inl e)"
  by (simp add: and_then_def of_result_def fun_eq_iff)

lemma reachable_net_word:
  assumes "reachable s" "t \<in> set (transfers s)"
  shows "(word_of_int (exact_net (postings_of s (tr_id t)) c) :: int64) = 0"
proof -
  have wf: "wf_db s" using assms(1) by (rule reachable_wf)
  have "\<forall>p \<in> set (postings_of s (tr_id t)). valid_dir (p_dir p)"
    using wf_posting_keys(3) [OF wf] by (auto simp: postings_of_wf [OF wf_journal [OF wf]] good_posting_def)
  then show ?thesis
    using reachable_books [OF assms(1)] assms(2)
    by (simp add: exact_net_def signed_sum_exact [symmetric] books_ok_def transfers_balanced_def)
qed

lemma unbalanced_row:
  assumes "wf_db s" "(i, ref, c, n) \<in> set (unbalanced_rows s)"
  shows "n \<noteq> 0 \<and> (\<exists>t \<in> set (transfers s). n = exact_net (postings_of s (tr_id t)) c)"
  using assms(2) exact_net_rows [OF assms(1)]
  by (auto simp: unbalanced_rows_def Let_def simp del: filter_filter)

lemma exact_net_absent: "c \<notin> p_currency ` set ps \<Longrightarrow> exact_net ps c = 0"
  by (subgoal_tac "filter (\<lambda>p. p_currency p = c) ps = []") (auto simp: exact_net_def filter_empty_conv)

lemma unbalanced_rows_Nil:
  assumes wf: "wf_db s"
  shows "unbalanced_rows s = [] \<longleftrightarrow> exact_nets s"
proof
  assume none: "unbalanced_rows s = []"
  have "exact_net (postings_of s (tr_id t)) c = 0" if t: "t \<in> set (transfers s)" for t c
  proof (cases "c \<in> p_currency ` set (postings_of s (tr_id t))")
    case True
    then have "c \<in> po_currency ` set (filter (\<lambda>r. po_transfer_id r = tr_id t) (postings s))"
      by (auto simp: postings_of_wf [OF wf_journal [OF wf]])
    with none t exact_net_rows [OF wf, of c "tr_id t"] show ?thesis
      by (auto simp: unbalanced_rows_def Let_def filter_empty_conv simp del: filter_filter)
  qed (rule exact_net_absent)
  then show "exact_nets s" by (simp add: exact_nets_def)
next
  assume exact: "exact_nets s"
  show "unbalanced_rows s = []"
  proof (rule ccontr)
    assume "unbalanced_rows s \<noteq> []"
    then obtain i ref c n where "(i, ref, c, n) \<in> set (unbalanced_rows s)"
      by (metis list.set_sel(1) prod_cases4)
    with exact unbalanced_row [OF wf] show False by (fastforce simp: exact_nets_def)
  qed
qed

lemma checkTransfersBalance_decides:
  assumes "reachable s"
  shows "checkTransfersBalance s = of_result (if exact_nets s then Inr () else Inl ScanOutOfRange)"
proof -
  have wf: "wf_db s" using assms by (rule reachable_wf)
  have "scan64 n = Inl ScanOutOfRange" if "(i, ref, c, n) \<in> set (unbalanced_rows s)" for i ref c n
    using unbalanced_row [OF wf that] reachable_net_word [OF assms] wraps_zero_not_fits by (auto simp: scan64_def)
  then have "for_each (\<lambda>(i, reference, currency, n). and_then (of_result (scan64 n))
      (\<lambda>net. report_problem (unbalanced_problem i reference currency net))) (unbalanced_rows s)
    = of_result (if unbalanced_rows s = [] then Inr () else Inl ScanOutOfRange)"
    by (intro for_each_unscannable) auto
  then show ?thesis
    using wf_clean [OF wf] by (simp add: checkTransfersBalance_def unbalanced_rows_Nil [OF wf])
qed

lemma drift_rows_Nil:
  assumes wf: "wf_db s"
  shows "drift_rows s = [] \<longleftrightarrow> exact_cache s"
proof -
  have "drift_rows s = [] \<longleftrightarrow> (\<forall>b \<in> set (balances s). sint (balance_of s (ba_account_id b)) = exact_sum s (ba_account_id b))"
    using wf_balance_row [OF wf] by (auto simp: drift_rows_def filter_empty_conv)
  also have "\<dots> \<longleftrightarrow> (\<forall>i \<in> ba_account_id ` set (balances s). sint (balance_of s i) = exact_sum s i)" by simp
  also have "\<dots> \<longleftrightarrow> exact_cache s" unfolding wf_balance_keys [OF wf] by (simp add: exact_cache_def)
  finally show ?thesis .
qed

lemma checkBalancesMatchPostings_decides:
  assumes "reachable s"
  shows "checkBalancesMatchPostings s = of_result (if exact_cache s then Inr () else Inl ScanOutOfRange)"
proof -
  have wf: "wf_db s" using assms by (rule reachable_wf)
  have "scan64 n = Inl ScanOutOfRange" if "(acc, cached, n) \<in> set (drift_rows s)" for acc cached n
  proof -
    from that have "sint (balance_of s acc) \<noteq> n" "n = exact_sum s acc"
      using wf_balance_row [OF wf] by (auto simp: drift_rows_def)
    with reachable_balance_word [OF assms] wraps_not_fits show ?thesis by (simp add: scan64_def)
  qed
  then have "for_each (\<lambda>(acc, cached, n). and_then (of_result (scan64 n))
      (\<lambda>fromPostings. report_problem (drift_problem acc cached fromPostings))) (drift_rows s)
    = of_result (if drift_rows s = [] then Inr () else Inl ScanOutOfRange)"
    by (intro for_each_unscannable) auto
  then show ?thesis
    using wf_clean [OF wf] by (simp add: checkBalancesMatchPostings_def drift_rows_Nil [OF wf])
qed

lemma exact_trial_rows:
  assumes wf: "wf_db s"
  shows "exact_trial s \<longleftrightarrow> (\<forall>(c, n) \<in> set (trial_rows s). n = 0)"
proof
  assume "exact_trial s"
  then show "\<forall>(c, n) \<in> set (trial_rows s). n = 0"
    using trial_rows_sum [OF wf] by (auto simp: exact_trial_def)
next
  assume zero: "\<forall>(c, n) \<in> set (trial_rows s). n = 0"
  have "sum_list (map (\<lambda>a. sint (balance_of s (a_id a))) (filter (\<lambda>a. a_currency a = c) (accounts s))) = 0" for c
  proof (cases "\<exists>a \<in> set (accounts s). a_currency a = c")
    case True
    then obtain a where a: "a \<in> set (accounts s)" "a_currency a = c" by blast
    then have "a_id a \<in> ba_account_id ` set (balances s)" using wf_balance_keys [OF wf] by auto
    then obtain b where b: "b \<in> set (balances s)" "ba_account_id b = a_id a" by force
    then have "find_row a_id (ba_account_id b) (accounts s) = Some a" using a wf_find_account [OF wf] by simp
    with a b have "\<exists>n. (c, n) \<in> set (trial_rows s)" by (force simp: trial_rows_def Let_def balances_join_wf [OF wf])
    with zero trial_rows_sum [OF wf] show ?thesis by fastforce
  next
    case False
    then have "filter (\<lambda>a. a_currency a = c) (accounts s) = []" by (simp add: filter_empty_conv)
    then show ?thesis by (simp only: list.map sum_list.Nil)
  qed
  then show "exact_trial s" by (simp add: exact_trial_def)
qed

lemma scan_sums_Inl: "\<not> (\<forall>(c, n) \<in> set rows. fits64 n) \<Longrightarrow> scan_sums rows out = Inl ScanOutOfRange"
  by (induction rows out rule: scan_sums.induct) (auto simp: scan64_def)

lemma checkTrialBalance_decides:
  assumes "reachable s"
  shows "checkTrialBalance s = of_result (if exact_trial s then Inr () else Inl ScanOutOfRange)"
proof -
  have wf: "wf_db s" using assms by (rule reachable_wf)
  have fits: "fits64 n \<longleftrightarrow> n = 0" if "(c, n) \<in> set (trial_rows s)" for c n
    using trial_rows_word [OF reachable_books [OF assms] that] wraps_zero_not_fits by (auto simp: fits64_def)
  have run: "fst (TrialBalance New s) = scan_sums (trial_rows s) []"
    using wf_clean [OF wf] by (simp add: TrialBalance_def and_then_def inTx_def select_def sql_def of_result_def)
  show ?thesis
  proof (cases "exact_trial s")
    case True
    then have zero: "n = 0" if "(c, n) \<in> set (trial_rows s)" for c n
      using that by (auto simp: exact_trial_rows [OF wf])
    then have "scan_sums (trial_rows s) [] = Inr (map (\<lambda>(c, n). (c, word_of_int n)) (trial_rows s))"
      using fits by (auto simp: scan_sums_Inr)
    moreover have "for_each (\<lambda>(currency, v). if v \<noteq> 0 then report_problem (trial_problem currency v) else ret ())
        (map (\<lambda>(c, n). (c, word_of_int n)) (trial_rows s)) = ret ()"
      using zero by (intro for_each_skip) fastforce
    ultimately show ?thesis
      using True run by (simp add: checkTrialBalance_def of_result_def ret_def fun_eq_iff)
  next
    case False
    then have "scan_sums (trial_rows s) [] = Inl ScanOutOfRange"
      using fits by (intro scan_sums_Inl) (force simp: exact_trial_rows [OF wf])
    with False run show ?thesis by (simp add: checkTrialBalance_def)
  qed
qed

lemma of_result_unit: "of_result (Inr ()) = ret ()"
  by (simp add: of_result_def ret_def fun_eq_iff)

lemma Verify_exactly:
  assumes "reachable s0" "reachable s1" "reachable s2" "reachable s3" "reachable s4"
  shows "Verify s0 s1 s2 s3 s4 =
    (if exact_nets s1 \<and> exact_cache s2 \<and> exact_trial s3 then Inr () else Inl ScanOutOfRange,
     \<lparr>rp_accounts = int (length (accounts s0)), rp_transfers = int (length (transfers s0)),
      rp_postings = int (length (postings s0)), rp_problems = []\<rparr>)"
  using wf_clean [OF reachable_wf [OF assms(1)]]
  by (simp add: Verify_def checkTransfersBalance_decides [OF assms(2)] checkBalancesMatchPostings_decides [OF assms(3)]
      checkTrialBalance_decides [OF assms(4)] checkChain_pass [OF assms(5)] count_rows_def empty_report_def)
     (simp add: of_result_def ret_def and_then_def)

text \<open>Without oversized transfers all three hold.\<close>

lemma all_small_exact:
  assumes "reachable s" "all_small s"
  shows "exact_nets s" "exact_cache s" "exact_trial s"
  using reachable_exact_net [OF assms] reachable_exact [OF assms] trial_rows_exact [OF assms]
  by (auto simp: exact_nets_def exact_cache_def exact_trial_rows [OF reachable_wf [OF assms(1)]])

lemma Verify_sound:
  assumes "reachable s0" "reachable s1" "reachable s2" "reachable s3" "reachable s4"
    and "all_small s1" "all_small s2" "all_small s3"
  shows "Verify s0 s1 s2 s3 s4 = (Inr (), \<lparr>rp_accounts = int (length (accounts s0)),
      rp_transfers = int (length (transfers s0)), rp_postings = int (length (postings s0)), rp_problems = []\<rparr>)"
  by (simp only: Verify_exactly [OF assms(1-5)] all_small_exact [OF assms(2,6)] all_small_exact [OF assms(3,7)]
      all_small_exact [OF assms(4,8)] simp_thms if_True)

end
