(* ===== verification/Reconcile.thy ===== *)
theory Reconcile
  imports Query Sample "HOL-Library.AList"
begin

text \<open>
  \<open>src/ledger/reconcile.go\<close>: one account's movements in a window against an external record, matched on
  reference and nothing else. The Go map \<open>ledgerSide\<close> is an association list; its iteration
  order does not matter, because what is left of it is sorted by instant and reference. Totals are \<open>int64\<close> sums and wrap.

  The lemmas show that every reference of either side lands in exactly one bucket and that the
  buckets explain the difference.
\<close>

section \<open>Data\<close>

record ExternalEntry =
  x_reference :: string
  x_amount :: money
  x_date :: time

record Match =
  mt_reference :: string
  mt_ledger :: money
  mt_external :: money

record LedgerLine =
  ll_reference :: string
  ll_amount :: money
  ll_posted_at :: time

record ReconcileReport =
  rr_account :: string
  rr_currency :: string
  rr_from :: time
  rr_to :: time
  rr_matched :: "Match list"
  rr_mismatch :: "Match list"
  rr_missing_in_ledger :: "ExternalEntry list"
  rr_missing_externally :: "LedgerLine list"
  rr_ledger_total :: int64
  rr_external_total :: int64
  rr_difference :: int64

definition Clean :: "ReconcileReport \<Rightarrow> bool" where
  "Clean r \<longleftrightarrow> length (rr_mismatch r) = 0 \<and> length (rr_missing_in_ledger r) = 0 \<and> length (rr_missing_externally r) = 0"

section \<open>The ledger side\<close>

text \<open>
  One row per transfer that touches the account in the window, \<open>ORDER BY t.posted_at, t.id\<close>:
  reference, instant and exact net movement.
\<close>

definition reconcile_rows :: "db \<Rightarrow> string \<Rightarrow> time \<Rightarrow> time \<Rightarrow> (string \<times> time \<times> int) list" where
  "reconcile_rows s acc from to =
     (let mine = (\<lambda>t. filter (\<lambda>p. po_transfer_id p = tr_id t \<and> po_account_id p = acc) (postings s)) in
      map (\<lambda>t. (tr_reference t, tr_posted_at t, sum_list (map row_exact (mine t))))
        (sort_key (\<lambda>t. (tr_posted_at t, tr_id t))
          (filter (\<lambda>t. mine t \<noteq> [] \<and> Truncate_us from \<le> tr_posted_at t \<and> tr_posted_at t \<le> Truncate_us to)
            (transfers s))))"

definition ledger_line :: "account \<Rightarrow> string \<Rightarrow> time \<Rightarrow> int64 \<Rightarrow> LedgerLine" where
  "ledger_line acc reference at raw = \<lparr>ll_reference = reference,
     ll_amount = \<lparr>m_amount = normalise raw (a_type acc), m_currency = a_currency acc\<rparr>, ll_posted_at = at\<rparr>"

fun ledger_side :: "account \<Rightarrow> (string \<times> time \<times> int) list \<Rightarrow> (string \<times> LedgerLine) list \<Rightarrow> int64
    \<Rightarrow> ledger_error + ((string \<times> LedgerLine) list \<times> int64)" where
  "ledger_side acc [] side tot = Inr (side, tot)"
| "ledger_side acc ((reference, at, n) # rows) side tot =
     (case scan64 n of
        Inl e \<Rightarrow> Inl e
      | Inr raw \<Rightarrow>
          let line = ledger_line acc reference at raw in
          ledger_side acc rows (AList.update reference line side) (tot + m_amount (ll_amount line)))"

section \<open>The external side\<close>

definition match_of :: "LedgerLine \<Rightarrow> ExternalEntry \<Rightarrow> Match" where
  "match_of line e = \<lparr>mt_reference = x_reference e, mt_ledger = ll_amount line, mt_external = x_amount e\<rparr>"

text \<open>The bucket of one external entry: the \<open>switch\<close> of the loop.\<close>

definition bucket :: "LedgerLine option \<Rightarrow> ExternalEntry \<Rightarrow> ReconcileReport \<Rightarrow> ReconcileReport" where
  "bucket found e r =
     (case found of
        None \<Rightarrow> r\<lparr>rr_missing_in_ledger := rr_missing_in_ledger r @ [e]\<rparr>
      | Some line \<Rightarrow>
          if m_amount (ll_amount line) \<noteq> m_amount (x_amount e)
          then r\<lparr>rr_mismatch := rr_mismatch r @ [match_of line e]\<rparr>
          else r\<lparr>rr_matched := rr_matched r @ [match_of line e]\<rparr>)"

fun external_side :: "string \<Rightarrow> ExternalEntry list \<Rightarrow> string list \<Rightarrow> (string \<times> LedgerLine) list \<Rightarrow> ReconcileReport
    \<Rightarrow> ledger_error + ((string \<times> LedgerLine) list \<times> ReconcileReport)" where
  "external_side cur [] seen side r = Inr (side, r)"
| "external_side cur (e # es) seen side r =
     (if x_reference e = [] then Inl ErrMissingReference
      else if m_currency (x_amount e) \<noteq> cur then Inl ErrCurrencyMismatch
      else if x_reference e \<in> set seen then Inl ErrDuplicateReference
      else external_side cur es (x_reference e # seen) (AList.delete (x_reference e) side)
             (bucket (map_of side (x_reference e)) e
               (r\<lparr>rr_external_total := rr_external_total r + m_amount (x_amount e)\<rparr>)))"

definition finish_report :: "(string \<times> LedgerLine) list \<times> ReconcileReport \<Rightarrow> ReconcileReport" where
  "finish_report = (\<lambda>(side, r). r\<lparr>
     rr_missing_externally := sort_key (\<lambda>l. (ll_posted_at l, ll_reference l)) (map snd side),
     rr_difference := rr_ledger_total r - rr_external_total r\<rparr>)"

definition start_report :: "account \<Rightarrow> string \<Rightarrow> time \<Rightarrow> time \<Rightarrow> ReconcileReport" where
  "start_report acc accountID from to = \<lparr>rr_account = accountID, rr_currency = a_currency acc, rr_from = from, rr_to = to,
     rr_matched = [], rr_mismatch = [], rr_missing_in_ledger = [], rr_missing_externally = [],
     rr_ledger_total = 0, rr_external_total = 0, rr_difference = 0\<rparr>"

definition Reconcile :: "ledger \<Rightarrow> string \<Rightarrow> time \<Rightarrow> time \<Rightarrow> ExternalEntry list \<Rightarrow> ReconcileReport run" where
  "Reconcile l accountID from to external =
     and_then (Account l accountID) (\<lambda>acc.
     and_then (inTx l (select (\<lambda>s. reconcile_rows s accountID from to))) (\<lambda>rows.
     and_then (of_result (ledger_side acc rows [] 0)) (\<lambda>(side, tot).
     and_then (of_result (external_side (a_currency acc) external [] side
                 ((start_report acc accountID from to)\<lparr>rr_ledger_total := tot\<rparr>))) (\<lambda>r.
     ret (finish_report r)))))"

section \<open>What the loops keep\<close>

abbreviation ledger_amount :: "Match \<Rightarrow> int64" where "ledger_amount m \<equiv> m_amount (mt_ledger m)"
abbreviation external_amount :: "Match \<Rightarrow> int64" where "external_amount m \<equiv> m_amount (mt_external m)"

definition side_total :: "(string \<times> LedgerLine) list \<Rightarrow> int64" where
  "side_total side = sum_list (map (\<lambda>(k, l). m_amount (ll_amount l)) side)"

lemma side_total_simps [simp]:
  "side_total [] = 0" "side_total ((k, l) # side) = m_amount (ll_amount l) + side_total side"
  "side_total (side @ side') = side_total side + side_total side'"
  by (simp_all add: side_total_def)

lemma update_fresh: "k \<notin> fst ` set side \<Longrightarrow> AList.update k v side = side @ [(k, v)]"
  by (induction side) auto

lemma ledger_side_fresh:
  assumes "ledger_side acc rows side tot = Inr (side', tot')" "distinct (map fst rows)"
    "fst ` set side \<inter> fst ` set rows = {}"
  shows "map fst side' = map fst side @ map fst rows \<and> tot' + side_total side = tot + side_total side'
    \<and> (\<forall>(k, l) \<in> set side'. (k, l) \<in> set side \<or> ll_reference l = k)"
  using assms
proof (induction acc rows side tot arbitrary: side' tot' rule: ledger_side.induct)
  case (1 acc side tot)
  then show ?case by auto
next
  case (2 acc ref at n rows side tot)
  from "2.prems"(1) obtain raw where raw: "scan64 n = Inr raw" by (auto split: sum.splits)
  let ?line = "ledger_line acc ref at raw"
  have upd: "AList.update ref ?line side = side @ [(ref, ?line)]"
    using "2.prems"(3) by (intro update_fresh) auto
  have ref: "ll_reference ?line = ref" by (simp add: ledger_line_def)
  from "2.prems"(1) raw upd
  have run: "ledger_side acc rows (AList.update ref ?line side) (tot + m_amount (ll_amount ?line)) = Inr (side', tot')"
    by (simp add: Let_def)
  have "map fst side' = map fst (AList.update ref ?line side) @ map fst rows
    \<and> tot' + side_total (AList.update ref ?line side) = tot + m_amount (ll_amount ?line) + side_total side'
    \<and> (\<forall>(k, l) \<in> set side'. (k, l) \<in> set (AList.update ref ?line side) \<or> ll_reference l = k)"
    by (rule "2.IH" [OF raw refl run]) (use "2.prems"(2,3) upd in auto)
  then show ?case using ref by (auto simp: upd algebra_simps)
qed

text \<open>The amounts a report has accounted for, on each side.\<close>

definition ledger_seen :: "ReconcileReport \<Rightarrow> int64" where
  "ledger_seen r = sum_list (map ledger_amount (rr_matched r)) + sum_list (map ledger_amount (rr_mismatch r))"

definition external_seen :: "ReconcileReport \<Rightarrow> int64" where
  "external_seen r = sum_list (map external_amount (rr_matched r)) + sum_list (map external_amount (rr_mismatch r))
     + sum_list (map (\<lambda>e. m_amount (x_amount e)) (rr_missing_in_ledger r))"

definition paired_refs :: "ReconcileReport \<Rightarrow> string multiset" where
  "paired_refs r = mset (map mt_reference (rr_matched r)) + mset (map mt_reference (rr_mismatch r))"

lemma bucket_fields [simp]:
  "rr_ledger_total (bucket f e r) = rr_ledger_total r" "rr_external_total (bucket f e r) = rr_external_total r"
  "rr_missing_externally (bucket f e r) = rr_missing_externally r"
  by (simp_all add: bucket_def split: option.splits)

lemma bucket_sums:
  "ledger_seen (bucket f e r) = ledger_seen r + (case f of None \<Rightarrow> 0 | Some l \<Rightarrow> m_amount (ll_amount l))"
  "external_seen (bucket f e r) = external_seen r + m_amount (x_amount e)"
  "paired_refs (bucket f e r) = paired_refs r + (case f of None \<Rightarrow> {#} | Some l \<Rightarrow> {#x_reference e#})"
  "image_mset x_reference (mset (rr_missing_in_ledger (bucket f e r)))
     = image_mset x_reference (mset (rr_missing_in_ledger r)) + (case f of None \<Rightarrow> {#x_reference e#} | Some l \<Rightarrow> {#})"
  by (auto simp: bucket_def ledger_seen_def external_seen_def paired_refs_def match_of_def algebra_simps split: option.splits)

definition sorted_out :: "ReconcileReport \<Rightarrow> bool" where
  "sorted_out r \<longleftrightarrow> (\<forall>m \<in> set (rr_matched r). ledger_amount m = external_amount m)
     \<and> (\<forall>m \<in> set (rr_mismatch r). ledger_amount m \<noteq> external_amount m)"

lemma bucket_sorted_out: "sorted_out r \<Longrightarrow> sorted_out (bucket f e r)"
  by (auto simp: sorted_out_def bucket_def match_of_def split: option.splits)

lemma total_bump [simp]:
  "ledger_seen (r\<lparr>rr_external_total := x\<rparr>) = ledger_seen r" "external_seen (r\<lparr>rr_external_total := x\<rparr>) = external_seen r"
  "paired_refs (r\<lparr>rr_external_total := x\<rparr>) = paired_refs r" "sorted_out (r\<lparr>rr_external_total := x\<rparr>) = sorted_out r"
  by (simp_all add: ledger_seen_def external_seen_def paired_refs_def sorted_out_def)

lemma side_total_delete:
  "distinct (map fst side) \<Longrightarrow>
     side_total (AList.delete k side) + (case map_of side k of None \<Rightarrow> 0 | Some l \<Rightarrow> m_amount (ll_amount l)) = side_total side"
proof (induction side)
  case (Cons x side)
  obtain k' l where x: "x = (k', l)" by (cases x)
  show ?case
  proof (cases "k' = k")
    case True
    with Cons.prems x have "k \<notin> fst ` set side" by auto
    with True x show ?thesis by (simp add: add.commute)
  next
    case False
    with Cons x show ?thesis by (simp add: add.assoc)
  qed
qed simp

lemma external_side_keeps:
  assumes "external_side cur es seen side r = Inr (side', r')" "distinct (map fst side)" "sorted_out r"
  shows "sorted_out r' \<and> rr_ledger_total r' = rr_ledger_total r
    \<and> ledger_seen r' + side_total side' = ledger_seen r + side_total side
    \<and> external_seen r' - rr_external_total r' = external_seen r - rr_external_total r
    \<and> set side' \<subseteq> set side \<and> distinct (map fst side')"
  using assms
proof (induction cur es seen side r arbitrary: side' r' rule: external_side.induct)
  case (2 cur e es seen side r)
  let ?side = "AList.delete (x_reference e) side"
  let ?r = "bucket (map_of side (x_reference e)) e (r\<lparr>rr_external_total := rr_external_total r + m_amount (x_amount e)\<rparr>)"
  from "2.prems"(1) have guards: "x_reference e \<noteq> []" "\<not> m_currency (x_amount e) \<noteq> cur" "x_reference e \<notin> set seen"
    and run: "external_side cur es (x_reference e # seen) ?side ?r = Inr (side', r')"
    by (auto split: if_splits)
  have "distinct (map fst ?side)" by (rule AList.distinct_delete) (rule "2.prems"(2))
  moreover have "sorted_out ?r" using "2.prems"(3) by (intro bucket_sorted_out) simp
  ultimately have "sorted_out r' \<and> rr_ledger_total r' = rr_ledger_total ?r
    \<and> ledger_seen r' + side_total side' = ledger_seen ?r + side_total ?side
    \<and> external_seen r' - rr_external_total r' = external_seen ?r - rr_external_total ?r
    \<and> set side' \<subseteq> set ?side \<and> distinct (map fst side')"
    by (rule "2.IH" [OF guards run])
  moreover have "set ?side \<subseteq> set side" by (auto simp: AList.delete_eq)
  ultimately show ?case
    using side_total_delete [OF "2.prems"(2), of "x_reference e"]
    by (auto simp: bucket_sums algebra_simps split: option.splits)
qed simp

lemma external_side_refs:
  assumes "external_side cur es seen side r = Inr (side', r')" "distinct (map fst side)"
  shows "distinct (map x_reference es) \<and> set (map x_reference es) \<inter> set seen = {}
    \<and> paired_refs r' + mset (map x_reference (rr_missing_in_ledger r'))
        = paired_refs r + mset (map x_reference (rr_missing_in_ledger r)) + mset (map x_reference es)
    \<and> paired_refs r' + mset (map fst side') = paired_refs r + mset (map fst side)"
  using assms
proof (induction cur es seen side r arbitrary: side' r' rule: external_side.induct)
  case (2 cur e es seen side r)
  let ?side = "AList.delete (x_reference e) side"
  let ?r = "bucket (map_of side (x_reference e)) e (r\<lparr>rr_external_total := rr_external_total r + m_amount (x_amount e)\<rparr>)"
  from "2.prems"(1) have guards: "x_reference e \<noteq> []" "\<not> m_currency (x_amount e) \<noteq> cur" "x_reference e \<notin> set seen"
    and run: "external_side cur es (x_reference e # seen) ?side ?r = Inr (side', r')"
    by (auto split: if_splits)
  have "distinct (map fst ?side)" by (rule AList.distinct_delete) (rule "2.prems"(2))
  note IH = "2.IH" [OF guards run this]
  have keys: "mset (map fst ?side) + (case map_of side (x_reference e) of None \<Rightarrow> {#} | Some l \<Rightarrow> {#x_reference e#}) = mset (map fst side)"
  proof (cases "map_of side (x_reference e)")
    case None
    then have "x_reference e \<notin> fst ` set side" by (simp add: map_of_eq_None_iff)
    then show ?thesis by (simp add: None)
  next
    case (Some l)
    then have "x_reference e \<in> set (map fst side)" by (force dest: map_of_SomeD)
    with Some "2.prems"(2) show ?thesis
      by (simp add: AList.delete_keys distinct_remove1_removeAll [symmetric] insert_DiffM del: set_map mset_map)
  qed
  show ?case using IH keys guards by (auto simp: bucket_sums ac_simps split: option.splits)
qed simp

section \<open>Reports\<close>

lemma reconcile_rows_refs:
  assumes "wf_db s"
  shows "distinct (map fst (reconcile_rows s acc from to))"
proof -
  have "distinct (map tr_reference (transfers s))" using assms by (simp add: wf_db_def journal_wf_def)
  then have "distinct (map tr_reference (filter P (transfers s)))" for P by (rule distinct_map_filter)
  then show ?thesis by (simp add: reconcile_rows_def Let_def o_def distinct_map)
qed

lemma Reconcile_run:
  assumes run: "Reconcile l accountID from to external s = (Inr rep, s')" and wf: "wf_db s"
  obtains acc side tot side' r where "find_row a_id accountID (accounts s) = Some acc"
    "map fst side = map fst (reconcile_rows s accountID from to)" "distinct (map fst side)" "tot = side_total side"
    "\<forall>(k, l) \<in> set side. ll_reference l = k"
    "external_side (a_currency acc) external [] side ((start_report acc accountID from to)\<lparr>rr_ledger_total := tot\<rparr>) = Inr (side', r)"
    "rep = finish_report (side', r)"
proof -
  from run obtain acc side tot side' r where acc: "find_row a_id accountID (accounts s) = Some acc"
    and ls: "ledger_side acc (reconcile_rows s accountID from to) [] 0 = Inr (side, tot)"
    and es: "external_side (a_currency acc) external [] side ((start_report acc accountID from to)\<lparr>rr_ledger_total := tot\<rparr>) = Inr (side', r)"
    and rep: "rep = finish_report (side', r)"
  proof -
    from run obtain acc side tot side' r where 1: "find_row a_id accountID (accounts s) = Some acc"
      and 2: "Inr (side, tot) = ledger_side acc (reconcile_rows s accountID from to) [] 0"
      and 3: "Inr (side', r) = external_side (a_currency acc) external [] side ((start_report acc accountID from to)\<lparr>rr_ledger_total := tot\<rparr>)"
      and 4: "rep = finish_report (side', r)"
      unfolding Reconcile_def by (auto simp: Account_def split: prod.splits)
    from that [OF 1 2 [symmetric] 3 [symmetric] 4] show thesis .
  qed
  have "map fst side = map fst (reconcile_rows s accountID from to) \<and> tot = side_total side
    \<and> (\<forall>(k, l) \<in> set side. ll_reference l = k)"
    using ledger_side_fresh [OF ls reconcile_rows_refs [OF wf]] by simp
  with reconcile_rows_refs [OF wf] that acc es rep show thesis by metis
qed

lemma start_sums [simp]:
  "ledger_seen ((start_report acc i f t)\<lparr>rr_ledger_total := x\<rparr>) = 0"
  "external_seen ((start_report acc i f t)\<lparr>rr_ledger_total := x\<rparr>) = 0"
  "paired_refs ((start_report acc i f t)\<lparr>rr_ledger_total := x\<rparr>) = {#}"
  "sorted_out ((start_report acc i f t)\<lparr>rr_ledger_total := x\<rparr>)"
  "rr_external_total (start_report acc i f t) = 0" "rr_missing_in_ledger (start_report acc i f t) = []"
  by (simp_all add: ledger_seen_def external_seen_def paired_refs_def sorted_out_def start_report_def)

lemma finish_fields [simp]:
  "rr_matched (finish_report (side, r)) = rr_matched r" "rr_mismatch (finish_report (side, r)) = rr_mismatch r"
  "rr_missing_in_ledger (finish_report (side, r)) = rr_missing_in_ledger r"
  "rr_missing_externally (finish_report (side, r)) = sort_key (\<lambda>l. (ll_posted_at l, ll_reference l)) (map snd side)"
  "rr_difference (finish_report (side, r)) = rr_ledger_total r - rr_external_total r"
  by (simp_all add: finish_report_def)

lemma side_lines:
  assumes "\<forall>(k, l) \<in> set side. ll_reference l = k"
  shows "map (\<lambda>kl. ll_reference (snd kl)) side = map fst side"
  using assms by (induction side) auto

section \<open>A bank record against the sample ledger\<close>

definition bank_line :: "string \<Rightarrow> int64 \<Rightarrow> ExternalEntry" where
  "bank_line ref n = \<lparr>x_reference = ref, x_amount = \<lparr>m_amount = n, m_currency = ''EUR''\<rparr>, x_date = zero_time\<rparr>"

definition bank_report :: ReconcileReport where
  "bank_report = finish_report ([], (start_report sales ''sales'' 0 noon)\<lparr>rr_ledger_total := 500, rr_external_total := 507,
     rr_matched := [match_of (ledger_line sales ''sale-1'' noon (- 500)) (bank_line ''sale-1'' 500)],
     rr_missing_in_ledger := [bank_line ''ghost'' 7]\<rparr>)"

lemma reconcile_sample: "Reconcile New ''sales'' 0 noon [bank_line ''sale-1'' 500, bank_line ''ghost'' 7] sold_db = (Inr bank_report, sold_db)"
proof -
  have rows: "reconcile_rows sold_db ''sales'' 0 noon = [(''sale-1'', noon, - 500)]"
    by (simp add: reconcile_rows_def Let_def posted_sale_def sale_def posting_row_of_def leg_def row_exact_def
        sql_signed_def noon_def Truncate_us_def)
  have line: "ledger_side sales [(''sale-1'', noon, - 500)] [] 0
      = Inr ([(''sale-1'', ledger_line sales ''sale-1'' noon (- 500))], 500)"
    by (simp add: scan64_def fits64_def) (simp add: ledger_line_def normalise_def debitNormal_def account_type_defs)
  have "external_side ''EUR'' [bank_line ''sale-1'' 500, bank_line ''ghost'' 7] []
      [(''sale-1'', ledger_line sales ''sale-1'' noon (- 500))] ((start_report sales ''sales'' 0 noon)\<lparr>rr_ledger_total := 500\<rparr>)
    = Inr ([], (start_report sales ''sales'' 0 noon)\<lparr>rr_ledger_total := 500, rr_external_total := 507,
     rr_matched := [match_of (ledger_line sales ''sale-1'' noon (- 500)) (bank_line ''sale-1'' 500)],
     rr_missing_in_ledger := [bank_line ''ghost'' 7]\<rparr>)"
    by (simp add: bucket_def bank_line_def start_report_def)
       (simp add: ledger_line_def normalise_def debitNormal_def account_type_defs)
  then show ?thesis
    by (simp add: Reconcile_def Account_def rows line bank_report_def
        del: external_side.simps ledger_side.simps of_result_run) (simp add: of_result_def)
qed

text \<open>
  C33: Every reference of either side lands in exactly one bucket. When \<open>Reconcile\<close> succeeds, the external
  record names no reference twice; its references are those of the matched, mismatched and
  missing-in-ledger entries together, the account's references in the window are those of the matched, mismatched
  and missing-externally lines together, counted with multiplicity; matched pairs have equal amounts,
  mismatched ones do not, and what is missing externally is in date order.
\<close>

theorem Reconcile_partitions:
  assumes "reachable s" "Reconcile l accountID from to external s = (Inr r, s')"
  shows "distinct (map x_reference external)
    \<and> mset (map mt_reference (rr_matched r)) + mset (map mt_reference (rr_mismatch r))
        + mset (map x_reference (rr_missing_in_ledger r)) = mset (map x_reference external)
    \<and> mset (map mt_reference (rr_matched r)) + mset (map mt_reference (rr_mismatch r))
        + mset (map ll_reference (rr_missing_externally r)) = mset (map fst (reconcile_rows s accountID from to))
    \<and> sorted_out r \<and> sorted (map (\<lambda>l. (ll_posted_at l, ll_reference l)) (rr_missing_externally r))"
proof (rule Reconcile_run [OF assms(2) reachable_wf [OF assms(1)]])
  fix acc side tot side' r'
  assume keys: "map fst side = map fst (reconcile_rows s accountID from to)" "distinct (map fst side)"
    and lines: "\<forall>(k, l) \<in> set side. ll_reference l = k"
    and run: "external_side (a_currency acc) external [] side ((start_report acc accountID from to)\<lparr>rr_ledger_total := tot\<rparr>) = Inr (side', r')"
    and rep: "r = finish_report (side', r')"
  note K = external_side_keeps [OF run keys(2) start_sums(4)] and R = external_side_refs [OF run keys(2)]
  from K have "set side' \<subseteq> set side" by (elim conjE)
  with lines have "\<forall>(k, l) \<in> set side'. ll_reference l = k" by blast
  then have "map ll_reference (map snd side') = map fst side'" using side_lines by (simp add: o_def)
  moreover have "mset (map ll_reference (rr_missing_externally r)) = mset (map ll_reference (map snd side'))"
    by (simp add: rep multiset.map_comp)
  ultimately have missing: "mset (map ll_reference (rr_missing_externally r)) = mset (map fst side')" by (simp only:)
  have same: "paired_refs r = paired_refs r'" "rr_missing_in_ledger r = rr_missing_in_ledger r'"
    by (simp_all add: rep paired_refs_def)
  have ext: "paired_refs r + mset (map x_reference (rr_missing_in_ledger r)) = mset (map x_reference external)"
    unfolding same using R by simp
  have led: "paired_refs r + mset (map ll_reference (rr_missing_externally r)) = mset (map fst (reconcile_rows s accountID from to))"
    unfolding same missing keys(1) [symmetric] using R by simp
  show ?thesis
  proof (intro conjI)
    show "distinct (map x_reference external)" using R by (elim conjE)
    from K have "sorted_out r'" by (elim conjE)
    then show "sorted_out r" by (simp only: rep sorted_out_def finish_fields)
    show "sorted (map (\<lambda>l. (ll_posted_at l, ll_reference l)) (rr_missing_externally r))" by (simp add: rep)
  qed (fact ext [unfolded paired_refs_def], fact led [unfolded paired_refs_def])
qed

theorem Reconcile_partitions_witness:
  "distinct (map x_reference [bank_line ''sale-1'' 500, bank_line ''ghost'' 7])
    \<and> mset (map mt_reference (rr_matched bank_report)) + mset (map mt_reference (rr_mismatch bank_report))
        + mset (map x_reference (rr_missing_in_ledger bank_report)) = mset (map x_reference [bank_line ''sale-1'' 500, bank_line ''ghost'' 7])
    \<and> mset (map mt_reference (rr_matched bank_report)) + mset (map mt_reference (rr_mismatch bank_report))
        + mset (map ll_reference (rr_missing_externally bank_report)) = mset (map fst (reconcile_rows sold_db ''sales'' 0 noon))
    \<and> sorted_out bank_report \<and> sorted (map (\<lambda>l. (ll_posted_at l, ll_reference l)) (rr_missing_externally bank_report))"
  by (rule Reconcile_partitions) (rule reachable_sold_db, rule reconcile_sample)

text \<open>
  C34: The buckets explain the difference: ledger total minus external total equals what the mismatches
  differ by, plus what is missing externally, minus what is missing in the ledger, in \<open>int64\<close>
  arithmetic. A clean report therefore has the difference zero.
\<close>

theorem Reconcile_difference_explained:
  assumes "reachable s" "Reconcile l accountID from to external s = (Inr r, s')"
  shows "rr_difference r = sum_list (map (\<lambda>m. ledger_amount m - external_amount m) (rr_mismatch r))
      + sum_list (map (\<lambda>l. m_amount (ll_amount l)) (rr_missing_externally r))
      - sum_list (map (\<lambda>e. m_amount (x_amount e)) (rr_missing_in_ledger r))
    \<and> (Clean r \<longrightarrow> rr_difference r = 0)"
proof (rule Reconcile_run [OF assms(2) reachable_wf [OF assms(1)]])
  fix acc side tot side' r'
  assume keys: "distinct (map fst side)" and tot: "tot = side_total side"
    and run: "external_side (a_currency acc) external [] side ((start_report acc accountID from to)\<lparr>rr_ledger_total := tot\<rparr>) = Inr (side', r')"
    and rep: "r = finish_report (side', r')"
  from external_side_keeps [OF run keys start_sums(4)] tot have out: "sorted_out r'"
    and led: "rr_ledger_total r' = ledger_seen r' + side_total side'"
    and ext: "external_seen r' = rr_external_total r'"
    by simp_all
  have "sum_list (map ledger_amount (rr_matched r')) = sum_list (map external_amount (rr_matched r'))"
    using out by (intro sum_list_map_cong) (simp add: sorted_out_def)
  then have "rr_ledger_total r' - rr_external_total r'
      = sum_list (map ledger_amount (rr_mismatch r')) - sum_list (map external_amount (rr_mismatch r'))
        + side_total side' - sum_list (map (\<lambda>e. m_amount (x_amount e)) (rr_missing_in_ledger r'))"
    unfolding led ext [symmetric] by (simp add: ledger_seen_def external_seen_def)
  moreover have "side_total side' = sum_list (map (\<lambda>l. m_amount (ll_amount l)) (rr_missing_externally r))"
  proof -
    have "mset (map (\<lambda>l. m_amount (ll_amount l)) (rr_missing_externally r)) = mset (map (\<lambda>l. m_amount (ll_amount l)) (map snd side'))"
      by (simp add: rep multiset.map_comp)
    then have "sum_list (map (\<lambda>l. m_amount (ll_amount l)) (rr_missing_externally r)) = sum_list (map (\<lambda>l. m_amount (ll_amount l)) (map snd side'))"
      by (metis sum_mset_sum_list)
    then show ?thesis by (simp add: side_total_def o_def case_prod_unfold)
  qed
  ultimately have main: "rr_difference r = sum_list (map (\<lambda>m. ledger_amount m - external_amount m) (rr_mismatch r))
      + sum_list (map (\<lambda>l. m_amount (ll_amount l)) (rr_missing_externally r))
      - sum_list (map (\<lambda>e. m_amount (x_amount e)) (rr_missing_in_ledger r))"
    by (simp add: rep sum_list_subtractf)
  then show ?thesis by (auto simp: Clean_def)
qed

theorem Reconcile_difference_explained_witness:
  "rr_difference bank_report = sum_list (map (\<lambda>m. ledger_amount m - external_amount m) (rr_mismatch bank_report))
      + sum_list (map (\<lambda>l. m_amount (ll_amount l)) (rr_missing_externally bank_report))
      - sum_list (map (\<lambda>e. m_amount (x_amount e)) (rr_missing_in_ledger bank_report))
    \<and> rr_difference bank_report = - 7 \<and> \<not> Clean bank_report"
proof -
  note explained = Reconcile_difference_explained [OF reachable_sold_db reconcile_sample]
  have "rr_difference bank_report = - 7" by (simp add: bank_report_def finish_report_def)
  moreover from this explained have "\<not> Clean bank_report" by auto
  ultimately show ?thesis using explained by simp
qed

end
