(* ===== verification/Idempotency.thy ===== *)
theory Idempotency
  imports Query
begin

text \<open>
  \<open>src/ledger/idempotency.go\<close> over the table of \<open>src/migrations/0002_idempotency.sql\<close>: the
  reservation of keys for the HTTP layer. \<open>Begin\<close> is two statements, the reserving upsert and the
  read of the row it lost to; other instances may run in between, so each is an operation of its
  own and a step of the store. Headers are what \<open>encoding/json\<close> keeps of an \<open>http.Header\<close>, a list of names with their
  values. A duration is a number of nanoseconds.

  The locale \<open>key_store\<close> is the contract of an idempotency store: a live reservation belongs to one request, a
  completed one replays its entry. The table is its interpretation.
\<close>

section \<open>The table\<close>

type_synonym header = "(string \<times> string list) list"

record idem_entry =
  ie_fingerprint :: string
  ie_status :: int
  ie_header :: header
  ie_body :: "byte list"

record idem_row =
  ik_key :: string
  ik_fingerprint :: "string option"
  ik_status :: "int option"
  ik_headers :: "header option"
  ik_body :: "byte list option"
  ik_created_at :: time
  ik_expires_at :: time

datatype begin_result = Begun | InFlight | Completed idem_entry

definition default_ttl :: int where
  "default_ttl = 24 * 3600 * 1000000000"

definition NewIdempotencyStore :: "int \<Rightarrow> int" where
  "NewIdempotencyStore ttl = (if ttl \<le> 0 then default_ttl else ttl)"

text \<open>\<open>INSERT ... ON CONFLICT (key) DO UPDATE ... WHERE expires_at <= now()\<close>: whether a row was affected.\<close>

definition fresh_row :: "int \<Rightarrow> time \<Rightarrow> string \<Rightarrow> idem_row" where
  "fresh_row ttl now key = \<lparr>ik_key = key, ik_fingerprint = None, ik_status = None, ik_headers = None, ik_body = None,
     ik_created_at = now, ik_expires_at = Truncate_us (now + ttl)\<rparr>"

definition begin_reserve :: "int \<Rightarrow> time \<Rightarrow> string \<Rightarrow> idem_row list \<Rightarrow> bool \<times> idem_row list" where
  "begin_reserve ttl now key rows =
     (case find_row ik_key key rows of
        None \<Rightarrow> (True, rows @ [fresh_row ttl now key])
      | Some r \<Rightarrow>
          if ik_expires_at r \<le> now
          then (True, update_rows (\<lambda>r. ik_key r = key) (\<lambda>_. fresh_row ttl now key) rows)
          else (False, rows))"

definition entry_of_row :: "idem_row \<Rightarrow> int \<Rightarrow> idem_entry" where
  "entry_of_row r status = \<lparr>ie_fingerprint = (case ik_fingerprint r of None \<Rightarrow> [] | Some f \<Rightarrow> f), ie_status = status,
     ie_header = (case ik_headers r of None \<Rightarrow> [] | Some h \<Rightarrow> h), ie_body = (case ik_body r of None \<Rightarrow> [] | Some b \<Rightarrow> b)\<rparr>"

definition begin_read :: "string \<Rightarrow> idem_row list \<Rightarrow> begin_result" where
  "begin_read key rows =
     (case find_row ik_key key rows of
        None \<Rightarrow> InFlight
      | Some r \<Rightarrow> (case ik_status r of None \<Rightarrow> InFlight | Some status \<Rightarrow> Completed (entry_of_row r status)))"

text \<open>\<open>Begin\<close> when nothing runs between its two statements.\<close>

definition Begin :: "int \<Rightarrow> time \<Rightarrow> string \<Rightarrow> idem_row list \<Rightarrow> begin_result \<times> idem_row list" where
  "Begin ttl now key rows =
     (let (won, rows') = begin_reserve ttl now key rows in
      if won then (Begun, rows') else (begin_read key rows', rows'))"

definition Complete :: "string \<Rightarrow> idem_entry \<Rightarrow> idem_row list \<Rightarrow> idem_row list" where
  "Complete key entry = update_rows (\<lambda>r. ik_key r = key) (\<lambda>r. r\<lparr>ik_fingerprint := Some (ie_fingerprint entry),
     ik_status := Some (ie_status entry), ik_headers := Some (ie_header entry), ik_body := Some (ie_body entry)\<rparr>)"

definition Release_key :: "string \<Rightarrow> idem_row list \<Rightarrow> idem_row list" where
  "Release_key key = filter (\<lambda>r. \<not> (ik_key r = key \<and> ik_status r = None))"

definition Sweep :: "time \<Rightarrow> idem_row list \<Rightarrow> int \<times> idem_row list" where
  "Sweep now rows = (int (length (filter (\<lambda>r. ik_expires_at r \<le> now) rows)), filter (\<lambda>r. \<not> ik_expires_at r \<le> now) rows)"

section \<open>The contract of a key store\<close>

text \<open>
  What the middleware relies on, over any state \<open>'s\<close>: \<open>held now key s\<close> says that a reservation of the key is
  live, \<open>outcome key s\<close> its recorded response. Reserving fails exactly on a held key; nothing but the
  release of an unanswered key ends a reservation before its time, and only completing changes an outcome.
\<close>

datatype 'e key_op = Reserve string | Answer string 'e | Abandon string | Purge

locale key_store =
  fixes apply_op :: "time \<Rightarrow> 'e key_op \<Rightarrow> 's \<Rightarrow> 's"
    and wins :: "time \<Rightarrow> string \<Rightarrow> 's \<Rightarrow> bool"
    and held_until :: "string \<Rightarrow> 's \<Rightarrow> time option"
    and outcome :: "string \<Rightarrow> 's \<Rightarrow> 'e option"
  assumes wins_iff: "wins now key s \<longleftrightarrow> (case held_until key s of None \<Rightarrow> True | Some e \<Rightarrow> e \<le> now)"
    and keeps_reservation: "held_until key s = Some e \<Longrightarrow> now < e \<Longrightarrow> x \<noteq> Abandon key \<Longrightarrow> held_until key (apply_op now x s) = Some e"
    and keeps_outcome: "held_until key s = Some e \<Longrightarrow> now < e \<Longrightarrow> outcome key s = Some r \<Longrightarrow> (\<And>r'. x \<noteq> Answer key r') \<Longrightarrow>
        held_until key (apply_op now x s) = Some e \<and> outcome key (apply_op now x s) = Some r"
    and answered: "held_until key s = Some e \<Longrightarrow> outcome key (apply_op now (Answer key r) s) = Some r
        \<and> held_until key (apply_op now (Answer key r) s) = Some e"
begin

abbreviation run_ops :: "(time \<times> 'e key_op) list \<Rightarrow> 's \<Rightarrow> 's" where
  "run_ops ops s \<equiv> fold (\<lambda>(now, x). apply_op now x) ops s"

lemma reservation_lasts:
  assumes "held_until key s = Some e" "\<forall>(now, x) \<in> set ops. now < e \<and> x \<noteq> Abandon key"
  shows "held_until key (run_ops ops s) = Some e"
  using assms by (induction ops arbitrary: s) (auto simp: keeps_reservation)

text \<open>Whoever reserved a key is its only owner until it expires or is abandoned.\<close>

lemma one_owner:
  assumes "held_until key s = Some e" "\<forall>(now, x) \<in> set ops. now < e \<and> x \<noteq> Abandon key" "later < e"
  shows "\<not> wins later key (run_ops ops s)"
  using reservation_lasts [OF assms(1,2)] assms(3) by (simp add: wins_iff)

text \<open>A recorded response is what every retry sees, whatever else happens before the key expires.\<close>

lemma recorded_lasts:
  assumes "held_until key s = Some e" "outcome key s = Some r"
    "\<forall>(now, x) \<in> set ops. now < e \<and> (\<forall>r'. x \<noteq> Answer key r')"
  shows "held_until key (run_ops ops s) = Some e \<and> outcome key (run_ops ops s) = Some r"
  using assms
proof (induction ops arbitrary: s)
  case (Cons op ops)
  obtain now x where op: "op = (now, x)" by (cases op)
  with Cons.prems have "held_until key (apply_op now x s) = Some e \<and> outcome key (apply_op now x s) = Some r"
    by (intro keeps_outcome) auto
  with Cons op show ?case by simp
qed simp

lemma replay:
  assumes "held_until key s = Some e" "\<forall>(now, x) \<in> set ops. now < e \<and> x \<noteq> Abandon key"
    and "\<forall>(now, x) \<in> set ops'. now < e \<and> (\<forall>r'. x \<noteq> Answer key r')" "later < e"
  shows "\<not> wins later key (run_ops ops' (apply_op t (Answer key r) (run_ops ops s)))
    \<and> outcome key (run_ops ops' (apply_op t (Answer key r) (run_ops ops s))) = Some r"
proof -
  have "held_until key (run_ops ops s) = Some e" by (rule reservation_lasts [OF assms(1,2)])
  note A = answered [OF this, of t r]
  have "held_until key (run_ops ops' (apply_op t (Answer key r) (run_ops ops s))) = Some e
      \<and> outcome key (run_ops ops' (apply_op t (Answer key r) (run_ops ops s))) = Some r"
    by (rule recorded_lasts) (use A assms(3) in auto)
  with assms(4) show ?thesis by (simp add: wins_iff)
qed

end

section \<open>The table keeps the contract\<close>

fun apply_key_op :: "int \<Rightarrow> time \<Rightarrow> idem_entry key_op \<Rightarrow> idem_row list \<Rightarrow> idem_row list" where
  "apply_key_op ttl now (Reserve key) rows = snd (begin_reserve ttl now key rows)"
| "apply_key_op ttl now (Answer key entry) rows = Complete key entry rows"
| "apply_key_op ttl now (Abandon key) rows = Release_key key rows"
| "apply_key_op ttl now Purge rows = snd (Sweep now rows)"

definition key_held_until :: "string \<Rightarrow> idem_row list \<Rightarrow> time option" where
  "key_held_until key rows = map_option ik_expires_at (find_row ik_key key rows)"

definition key_outcome :: "string \<Rightarrow> idem_row list \<Rightarrow> idem_entry option" where
  "key_outcome key rows = (case find_row ik_key key rows of None \<Rightarrow> None | Some r \<Rightarrow> map_option (entry_of_row r) (ik_status r))"

lemma find_row_filter: "find_row key k rows = Some r \<Longrightarrow> P r \<Longrightarrow> find_row key k (filter P rows) = Some r"
  by (induction rows) (auto split: if_splits)

lemma fresh_key [simp]: "ik_key (fresh_row ttl now key) = key" "ik_status (fresh_row ttl now key) = None"
  "ik_expires_at (fresh_row ttl now key) = Truncate_us (now + ttl)"
  by (simp_all add: fresh_row_def)

lemma find_row_overwrite:
  "key x = k' \<Longrightarrow> find_row key k (update_rows (\<lambda>r. key r = k') (\<lambda>_. x) rows)
     = (if k = k' then map_option (\<lambda>_. x) (find_row key k rows) else find_row key k rows)"
  by (induction rows) (auto simp: update_rows_def)

lemma find_row_complete:
  "find_row ik_key key (Complete key' entry rows) =
     (if key = key' then map_option (\<lambda>r. r\<lparr>ik_fingerprint := Some (ie_fingerprint entry), ik_status := Some (ie_status entry),
        ik_headers := Some (ie_header entry), ik_body := Some (ie_body entry)\<rparr>) (find_row ik_key key rows)
      else find_row ik_key key rows)"
  by (induction rows) (auto simp: Complete_def update_rows_def)

lemma find_row_reserve:
  assumes "find_row ik_key key rows = Some r" "now < ik_expires_at r"
  shows "find_row ik_key key (snd (begin_reserve ttl now key' rows)) = Some r"
  using assms by (auto simp: begin_reserve_def find_row_append find_row_overwrite split: option.splits)

lemma entry_of_completed: "entry_of_row (r\<lparr>ik_fingerprint := Some (ie_fingerprint e), ik_status := Some (ie_status e),
    ik_headers := Some (ie_header e), ik_body := Some (ie_body e)\<rparr>) (ie_status e) = e"
  by (simp add: entry_of_row_def)

interpretation idem: key_store "apply_key_op ttl" "\<lambda>now key rows. fst (begin_reserve ttl now key rows)" key_held_until key_outcome
  for ttl
proof (unfold_locales, goal_cases)
  case (1 now key s)
  then show ?case by (auto simp: begin_reserve_def key_held_until_def split: option.splits)
next
  case (2 key s e now x)
  then obtain r where r: "find_row ik_key key s = Some r" "ik_expires_at r = e" by (auto simp: key_held_until_def)
  then have "ik_key r = key" by (auto dest: find_row_SomeD)
  show ?case
  proof (cases x)
    case (Answer k y)
    with r show ?thesis by (cases "key = k") (auto simp: key_held_until_def find_row_complete)
  next
    case (Abandon k)
    with 2(3) have "find_row ik_key key (Release_key k s) = Some r"
      unfolding Release_key_def using r \<open>ik_key r = key\<close> by (intro find_row_filter) auto
    with r Abandon show ?thesis by (simp add: key_held_until_def)
  next
    case (Reserve k)
    with r 2(2) show ?thesis by (simp add: key_held_until_def find_row_reserve)
  next
    case Purge
    have "find_row ik_key key (snd (Sweep now s)) = Some r"
      using r 2(2) by (auto simp: Sweep_def intro: find_row_filter)
    with r Purge show ?thesis by (simp add: key_held_until_def)
  qed
next
  case (3 key s e now r x)
  then obtain row where row: "find_row ik_key key s = Some row" "ik_expires_at row = e"
    "map_option (entry_of_row row) (ik_status row) = Some r"
    by (auto simp: key_held_until_def key_outcome_def)
  then have key: "ik_key row = key" by (auto dest: find_row_SomeD)
  have "find_row ik_key key (apply_key_op ttl now x s) = Some row"
    using row 3 by (cases x) (auto simp: find_row_reserve find_row_complete Release_key_def Sweep_def intro!: find_row_filter)
  with row show ?case by (simp add: key_held_until_def key_outcome_def)
next
  case (4 key s e now r)
  then obtain row where row: "find_row ik_key key s = Some row" "ik_expires_at row = e" by (auto simp: key_held_until_def)
  then show ?case by (simp add: key_held_until_def key_outcome_def find_row_complete entry_of_completed)
qed

section \<open>What a sweep may remove\<close>














section \<open>Properties of the store\<close>

lemma begun_held: "Begin ttl now key rows = (Begun, rows1) \<Longrightarrow> key_held_until key rows1 = Some (Truncate_us (now + ttl))"
  by (auto simp: Begin_def begin_reserve_def begin_read_def key_held_until_def find_row_append find_row_overwrite
      split: option.splits if_splits)

lemma begin_lost: "\<not> fst (begin_reserve ttl now key rows) \<Longrightarrow>
    Begin ttl now key rows = (case key_outcome key rows of None \<Rightarrow> InFlight | Some e \<Rightarrow> Completed e, rows)"
  by (auto simp: Begin_def begin_reserve_def begin_read_def key_outcome_def split: option.splits if_splits)

text \<open>
  C29: A reservation has one owner. After a \<open>Begin\<close> that returned \<open>Begun\<close>, and whatever other calls of the
  store follow on any keys but a \<open>Release\<close> of this one, no \<open>Begin\<close> of the same key returns \<open>Begun\<close> before the key's time to
  live is over: concurrent retries are told it is in flight or get the recorded answer.
\<close>

theorem idempotency_one_owner:
  assumes "Begin ttl now key rows = (Begun, rows1)"
    and "\<forall>(t, x) \<in> set ops. t < Truncate_us (now + ttl) \<and> x \<noteq> Abandon key" "later < Truncate_us (now + ttl)"
  shows "fst (Begin ttl later key (fold (\<lambda>(t, x). apply_key_op ttl t x) ops rows1)) \<noteq> Begun"
  using idem.one_owner [OF begun_held [OF assms(1)] assms(2,3)]
  by (simp add: begin_lost split: option.splits)

theorem idempotency_one_owner_witness:
  "fst (Begin 5000 4000 ''k'' (fold (\<lambda>(t, x). apply_key_op 5000 t x) [(1000, Reserve ''other''), (2000, Purge)] [fresh_row 5000 0 ''k''])) \<noteq> Begun"
  by (rule idempotency_one_owner [where now = 0 and rows = "[]"])
     (simp_all add: Begin_def begin_reserve_def Truncate_us_def)

text \<open>
  C30: A retry replays the recorded response. Once the owner of a key has completed it, every \<open>Begin\<close> before
  the key's time to live is over returns exactly that entry, fingerprint, status, headers and body, whatever the
  store does in between (releases and sweeps included) except another \<open>Complete\<close> of the key.
\<close>

theorem idempotency_replays:
  assumes "Begin ttl now key rows = (Begun, rows1)"
    and "\<forall>(t, x) \<in> set ops. t < Truncate_us (now + ttl) \<and> x \<noteq> Abandon key"
    and "\<forall>(t, x) \<in> set ops'. t < Truncate_us (now + ttl) \<and> (\<forall>entry'. x \<noteq> Answer key entry')"
    and "later < Truncate_us (now + ttl)"
  shows "fst (Begin ttl later key (fold (\<lambda>(t, x). apply_key_op ttl t x) ops'
      (Complete key entry (fold (\<lambda>(t, x). apply_key_op ttl t x) ops rows1)))) = Completed entry"
  using idem.replay [OF begun_held [OF assms(1)] assms(2-4), where r = entry]
  by (simp add: begin_lost)

definition created :: idem_entry where
  "created = \<lparr>ie_fingerprint = ''f'', ie_status = 201, ie_header = [], ie_body = []\<rparr>"

theorem idempotency_replays_witness:
  "fst (Begin 5000 4000 ''k'' (fold (\<lambda>(t, x). apply_key_op 5000 t x) [(2000, Abandon ''k''), (3000, Purge)]
      (Complete ''k'' created (fold (\<lambda>(t, x). apply_key_op 5000 t x) [(1000, Reserve ''k'')] [fresh_row 5000 0 ''k''])))) = Completed created"
  by (rule idempotency_replays [where now = 0 and rows = "[]"])
     (simp_all add: Begin_def begin_reserve_def Truncate_us_def)



text \<open>
  The owner of a key is not recorded, and a late one acts for its successor: after a reservation has
  expired and a second request has begun on the key, the first request's \<open>Release\<close> deletes the second's live
  reservation, and a third request begins while the second is still running inside its time to live.
\<close>

lemma late_release_frees_successor:
  "\<exists>rows1 rows2 rows3. Begin 5000 0 ''k'' [] = (Begun, rows1) \<and> Begin 5000 6000 ''k'' rows1 = (Begun, rows2)
     \<and> Begin 5000 7000 ''k'' (Release_key ''k'' rows2) = (Begun, rows3) \<and> key_held_until ''k'' rows2 = Some 11000"
  by (simp add: Begin_def begin_reserve_def Release_key_def update_rows_def key_held_until_def Truncate_us_def)

end
