(* ===== verification/Timestamps.thy ===== *)
theory Timestamps
  imports Money Journal "HOL-Library.Monad_Syntax"
begin

text \<open>
  Time as text: what the HTTP layer and the command use of \<open>time.Parse\<close>, for the layouts
  \<open>time.RFC3339\<close> and \<open>2006-01-02\<close>. The scanner follows Go's layout interpreter where it is
  laxer than RFC 3339: an hour of one digit, a comma before the fraction, an offset of 24 hours or
  60 minutes, digits of the fraction beyond the ninth dropped. The lemmas show that a day's instant is the
  start of a UTC day and that different days are different instants.
\<close>

section \<open>The calendar\<close>

definition leap_year :: "nat \<Rightarrow> bool" where
  "leap_year y \<longleftrightarrow> y mod 4 = 0 \<and> (y mod 100 \<noteq> 0 \<or> y mod 400 = 0)"

definition daysIn :: "nat \<Rightarrow> nat \<Rightarrow> nat" where
  "daysIn m y = (if m = 2 then (if leap_year y then 29 else 28)
     else if m = 4 \<or> m = 6 \<or> m = 9 \<or> m = 11 then 30 else 31)"

text \<open>Days from 1 January of year 0 to 1 January of year \<open>y\<close>, and to the first of a month.\<close>

definition days_before_year :: "nat \<Rightarrow> nat" where
  "days_before_year y = 365 * y + (y + 3) div 4 - (y + 99) div 100 + (y + 399) div 400"

definition days_before_month :: "nat \<Rightarrow> nat \<Rightarrow> nat" where
  "days_before_month m y = [0, 31, 59, 90, 120, 151, 181, 212, 243, 273, 304, 334] ! (m - 1)
     + (if leap_year y \<and> 2 < m then 1 else 0)"

definition day_number :: "nat \<Rightarrow> nat \<Rightarrow> nat \<Rightarrow> int" where
  "day_number y m d = int (days_before_year y + days_before_month m y + d - 1) - 719528"

definition day_nanos :: int where
  "day_nanos = 86400 * 1000000000"

section \<open>Scanning\<close>

definition expect :: "char \<Rightarrow> string \<Rightarrow> string option" where
  "expect c s = (case s of [] \<Rightarrow> None | c' # rest \<Rightarrow> if c' = c then Some rest else None)"

definition getnum :: "bool \<Rightarrow> string \<Rightarrow> (nat \<times> string) option" where
  "getnum fixed s =
     (case s of
        [] \<Rightarrow> None
      | a # rest \<Rightarrow>
          if \<not> is_digit a then None
          else (case rest of
                  [] \<Rightarrow> if fixed then None else Some (digit_val a, [])
                | b # rest' \<Rightarrow>
                    if is_digit b then Some (10 * digit_val a + digit_val b, rest')
                    else if fixed then None else Some (digit_val a, rest)))"

definition get_year :: "string \<Rightarrow> (nat \<times> string) option" where
  "get_year s = (if length s < 4 then None
     else map_option (\<lambda>y. (y, drop 4 s)) (parse_digits 0 (take 4 s)))"

definition in_bounds :: "nat \<Rightarrow> nat \<Rightarrow> nat \<Rightarrow> unit option" where
  "in_bounds lo hi n = (if lo \<le> n \<and> n \<le> hi then Some () else None)"

definition get_date :: "string \<Rightarrow> (int \<times> string) option" where
  "get_date s = do {
     (y, s) \<leftarrow> get_year s;
     s \<leftarrow> expect (CHR ''-'') s;
     (m, s) \<leftarrow> getnum True s;
     in_bounds 1 12 m;
     s \<leftarrow> expect (CHR ''-'') s;
     (d, s) \<leftarrow> getnum True s;
     in_bounds 1 (daysIn m y) d;
     Some (day_number y m d, s)
   }"

text \<open>The fraction, in nanoseconds; absent when no digit follows the separator.\<close>

definition get_fraction :: "string \<Rightarrow> (nat \<times> string) option" where
  "get_fraction s =
     (case s of
        p # c # _ \<Rightarrow>
          if (p = CHR ''.'' \<or> p = CHR '','') \<and> is_digit c
          then (let digits = takeWhile is_digit (tl s); used = take 9 digits in
                map_option (\<lambda>n. (n * 10 ^ (9 - length used), dropWhile is_digit (tl s))) (parse_digits 0 used))
          else Some (0, s)
      | _ \<Rightarrow> Some (0, s))"

text \<open>The offset of the zone, in seconds east of UTC.\<close>

definition get_zone :: "string \<Rightarrow> (int \<times> string) option" where
  "get_zone s =
     (if s \<noteq> [] \<and> hd s = CHR ''Z'' then Some (0, tl s)
      else if length s < 6 \<or> s ! 3 \<noteq> CHR '':'' then None
      else do {
        (hr, _) \<leftarrow> getnum True (take 2 (drop 1 s));
        (mm, _) \<leftarrow> getnum True (take 2 (drop 4 s));
        in_bounds 0 24 hr;
        in_bounds 0 60 mm;
        if hd s = CHR ''+'' then Some (int ((hr * 60 + mm) * 60), drop 6 s)
        else if hd s = CHR ''-'' then Some (- int ((hr * 60 + mm) * 60), drop 6 s)
        else None
      })"

text \<open>The instant, and the zone it is written in.\<close>

definition Parse_RFC3339_zoned :: "string \<Rightarrow> (time \<times> int) option" where
  "Parse_RFC3339_zoned s = do {
     (day, s) \<leftarrow> get_date s;
     s \<leftarrow> expect (CHR ''T'') s;
     (h, s) \<leftarrow> getnum False s;
     in_bounds 0 23 h;
     s \<leftarrow> expect (CHR '':'') s;
     (mi, s) \<leftarrow> getnum True s;
     in_bounds 0 59 mi;
     s \<leftarrow> expect (CHR '':'') s;
     (sec, s) \<leftarrow> getnum True s;
     in_bounds 0 59 sec;
     (nanos, s) \<leftarrow> get_fraction s;
     (east, s) \<leftarrow> get_zone s;
     if s = [] then Some (day * day_nanos + (int (h * 3600 + mi * 60 + sec) - east) * 1000000000 + int nanos, east) else None
   }"

definition Parse_RFC3339 :: "string \<Rightarrow> time option" where
  "Parse_RFC3339 s = map_option fst (Parse_RFC3339_zoned s)"

definition Parse_day :: "string \<Rightarrow> time option" where
  "Parse_day s = do {
     (day, s) \<leftarrow> get_date s;
     if s = [] then Some (day * day_nanos) else None
   }"

lemmas parse_time_simps = Parse_RFC3339_def Parse_RFC3339_zoned_def Parse_day_def get_date_def get_year_def getnum_def expect_def in_bounds_def
  get_fraction_def get_zone_def is_digit_def digit_val_def day_number_def day_nanos_def
  days_before_year_def days_before_month_def daysIn_def leap_year_def

section \<open>Sample texts\<close>

lemma parse_epoch: "Parse_RFC3339 ''1970-01-01T00:00:00Z'' = Some 0"
  by (simp add: parse_time_simps)

lemma parse_zero_time: "Parse_RFC3339 ''0001-01-01T00:00:00Z'' = Some zero_time"
  by (simp add: parse_time_simps zero_time_def)

lemma parse_offset: "Parse_RFC3339 ''2024-02-29T1:00:00.5+01:00'' = Parse_RFC3339 ''2024-02-29T00:00:00,500Z''"
  by (simp add: parse_time_simps)

lemma parse_no_such_day: "Parse_RFC3339 ''2023-02-29T01:00:00Z'' = None" "Parse_day ''2023-02-29'' = None"
  by (simp_all add: parse_time_simps)

lemma parse_day_sample: "Parse_day ''2023-11-14'' = Some (19675 * day_nanos)"
  by (simp add: parse_time_simps)

section \<open>The calendar counts days\<close>

lemma year_count:
  fixes a b c i j k r y :: nat
  assumes "365 * y + a = c + r" "k \<le> 1"
  shows "365 * Suc y + (a + i) - (c + k) + (b + j) = r + b + (365 + i + j - k)"
  using assms by simp

lemma year_length: "days_before_year (Suc y) = days_before_year y + (if leap_year y then 366 else 365)"
proof -
  have step: "(Suc y + k) div Suc k = (y + k) div Suc k + (if y mod Suc k = 0 then 1 else 0)" for k
    using div_Suc [of "y + k" "Suc k"] mod_add_self2 [of y "Suc k"] by simp
  have q: "(Suc y + 3) div 4 = (y + 3) div 4 + (if y mod 4 = 0 then 1 else 0)"
    "(Suc y + 99) div 100 = (y + 99) div 100 + (if y mod 100 = 0 then 1 else 0)"
    "(Suc y + 399) div 400 = (y + 399) div 400 + (if y mod 400 = 0 then 1 else 0)"
    using step [of 3] step [of 99] step [of 399] by simp_all
  have m: "y mod 400 = 0 \<Longrightarrow> y mod 100 = 0" "y mod 100 = 0 \<Longrightarrow> y mod 4 = 0"
    using mod_mod_cancel [of 100 400 y] mod_mod_cancel [of 4 100 y] by auto
  have "(y + 99) div 100 \<le> 365 * y + (y + 3) div 4" by linarith
  then obtain r where r: "365 * y + (y + 3) div 4 = (y + 99) div 100 + r"
    using le_Suc_ex by blast
  then have "days_before_year y = r + (y + 399) div 400"
    by (simp add: days_before_year_def)
  moreover have "days_before_year (Suc y) = r + (y + 399) div 400
      + (365 + (if y mod 4 = 0 then 1 else 0) + (if y mod 400 = 0 then 1 else 0) - (if y mod 100 = 0 then 1 else 0))"
    unfolding days_before_year_def q by (rule year_count) (use r in simp_all)
  ultimately show ?thesis using m by (simp add: leap_year_def)
qed

lemma month_cases: "1 \<le> m \<Longrightarrow> m \<le> 12 \<Longrightarrow> m \<in> {1, 2, 3, 4, 5, 6, 7, 8, 9, 10, 11, 12 :: nat}"
  by (simp, arith)

lemma month_length:
  "1 \<le> m \<Longrightarrow> m < 12 \<Longrightarrow> days_before_month (Suc m) y = days_before_month m y + daysIn m y"
  using month_cases [of m] by (auto simp: days_before_month_def daysIn_def)

lemma december: "days_before_month 12 y + daysIn 12 y = (if leap_year y then 366 else 365)"
  by (simp add: days_before_month_def daysIn_def)

lemma days_before_month_mono:
  assumes "1 \<le> m" "m < m'" "m' \<le> 12"
  shows "days_before_month m y + daysIn m y \<le> days_before_month m' y"
  using assms(2,3)
proof (induction m')
  case (Suc k)
  then show ?case
    using assms(1) month_length [of m y] month_length [of k y] by (cases "m = k") auto
qed simp

lemma days_before_year_mono: "y < y' \<Longrightarrow> days_before_year (Suc y) \<le> days_before_year y'"
  by (rule lift_Suc_mono_le) (auto simp: year_length)

lemma day_of_year:
  assumes "1 \<le> m" "m \<le> 12" "1 \<le> d" "d \<le> daysIn m y"
  shows "days_before_month m y + d - 1 < (if leap_year y then 366 else 365)"
proof (cases "m = 12")
  case True
  with assms december [of y] show ?thesis by simp
next
  case False
  with assms have "m < 12" by simp
  from days_before_month_mono [OF assms(1) this, of y] december [of y] assms show ?thesis by (simp split: if_splits)
qed

lemma day_number_inj:
  assumes v: "1 \<le> m" "m \<le> 12" "1 \<le> d" "d \<le> daysIn m y"
    and v': "1 \<le> m'" "m' \<le> 12" "1 \<le> d'" "d' \<le> daysIn m' y'"
    and eq: "day_number y m d = day_number y' m' d'"
  shows "y = y' \<and> m = m' \<and> d = d'"
proof -
  from eq v v' have n: "days_before_year y + (days_before_month m y + d - 1) = days_before_year y' + (days_before_month m' y' + d' - 1)"
    by (simp add: day_number_def)
  have y: "y = y'"
  proof (rule linorder_cases [of y y'])
    assume "y < y'"
    with days_before_year_mono [OF this] n day_of_year [OF v] show ?thesis by (simp add: year_length split: if_splits)
  next
    assume "y' < y"
    with days_before_year_mono [OF this] n day_of_year [OF v'] show ?thesis by (simp add: year_length split: if_splits)
  qed
  with n v v' have m: "days_before_month m y + d = days_before_month m' y + d'" by simp
  have "m = m'"
  proof (rule linorder_cases [of m m'])
    assume "m < m'"
    with days_before_month_mono [OF v(1) this v'(2), of y] m v v' show ?thesis by simp
  next
    assume "m' < m"
    with days_before_month_mono [OF v'(1) this v(2), of y] m v v' y show ?thesis by simp
  qed
  with y m show ?thesis by simp
qed

lemma Parse_day_multiple: "Parse_day s = Some t \<Longrightarrow> t mod day_nanos = 0"
  by (auto simp: Parse_day_def split: bind_splits if_splits)

section \<open>Formatting a day\<close>

text \<open>
  \<open>t.Format("2006-01-02")\<close> in a zone \<open>east\<close> seconds east of UTC, for years from 0 on: no text that parses
  has an earlier day in its own zone.
\<close>

function year_from :: "nat \<Rightarrow> nat \<Rightarrow> nat" where
  "year_from y n = (if days_before_year (Suc y) \<le> n then year_from (Suc y) n else y)"
  by pat_completeness auto

termination
proof (relation "measure (\<lambda>(y, n). Suc n - days_before_year y)")
  fix y n assume "days_before_year (Suc y) \<le> n"
  then show "((Suc y, n), y, n) \<in> measure (\<lambda>(y, n). Suc n - days_before_year y)"
    by (simp add: year_length split: if_splits)
qed simp

function month_from :: "nat \<Rightarrow> nat \<Rightarrow> nat \<Rightarrow> nat \<times> nat" where
  "month_from m y k = (if m < 12 \<and> daysIn m y \<le> k then month_from (Suc m) y (k - daysIn m y) else (m, Suc k))"
  by pat_completeness auto

termination by (relation "measure (\<lambda>(m, y, k). 12 - m)") auto

declare year_from.simps [simp del] month_from.simps [simp del]

definition date_of :: "int \<Rightarrow> nat \<times> nat \<times> nat" where
  "date_of n = (let k = nat (n + 719528); y = year_from (k div 366) k in (y, month_from 1 y (k - days_before_year y)))"

definition pad_nat :: "nat \<Rightarrow> nat \<Rightarrow> string" where
  "pad_nat w n = replicate (w - length (format_nat n)) (CHR ''0'') @ format_nat n"

definition Format_day :: "int \<Rightarrow> time \<Rightarrow> string" where
  "Format_day east t =
     (let (y, m, d) = date_of ((t + east * 1000000000) div day_nanos)
      in pad_nat 4 y @ ''-'' @ pad_nat 2 m @ ''-'' @ pad_nat 2 d)"

lemma year_from_eq:
  assumes "y0 \<le> y" "days_before_year y \<le> n" "n < days_before_year (Suc y)"
  shows "year_from y0 n = y"
  using assms(1)
proof (induction y0 rule: inc_induct)
  case base
  with assms(3) show ?case by (subst year_from.simps) simp
next
  case (step k)
  have "days_before_year (Suc k) \<le> days_before_year y"
    using days_before_year_mono [OF step(2)] .
  with assms(2) step show ?case by (subst year_from.simps) simp
qed

lemma month_from_eq:
  assumes "m0 \<le> m" "m \<le> 12" "1 \<le> m0" "1 \<le> d" "d \<le> daysIn m y"
  shows "month_from m0 y (days_before_month m y - days_before_month m0 y + d - 1) = (m, d)"
  using assms(1,3)
proof (induction m0 rule: inc_induct)
  case base
  have "\<not> daysIn m y \<le> d - 1" using assms(4,5) by linarith
  with assms show ?case by (subst month_from.simps) simp
next
  case (step k)
  have more: "days_before_month k y + daysIn k y \<le> days_before_month m y"
    using step assms by (intro days_before_month_mono) auto
  have next_month: "days_before_month (Suc k) y = days_before_month k y + daysIn k y"
    using step assms by (intro month_length) auto
  have "days_before_month m y - days_before_month k y + d - 1 - daysIn k y
      = days_before_month m y - days_before_month (Suc k) y + d - 1"
    using more next_month assms(4) by simp
  with more step assms show ?case by (subst month_from.simps) auto
qed

lemma date_of_day_number:
  assumes "1 \<le> m" "m \<le> 12" "1 \<le> d" "d \<le> daysIn m y"
  shows "date_of (day_number y m d) = (y, m, d)"
proof -
  let ?k = "days_before_year y + days_before_month m y + d - 1"
  have k: "nat (day_number y m d + 719528) = ?k" by (simp add: day_number_def)
  have upper: "?k < days_before_year (Suc y)"
    using day_of_year [OF assms] assms(3) by (simp add: year_length split: if_splits)
  have "days_before_year (Suc y) \<le> 366 * Suc y" for y
    by (simp add: days_before_year_def)
  with upper have "?k div 366 \<le> y" by (metis less_mult_imp_div_less less_Suc_eq_le mult.commute order_less_le_trans)
  then have year: "year_from (?k div 366) ?k = y"
    using upper assms(3) by (intro year_from_eq) auto
  have "days_before_month 1 y = 0" by (simp add: days_before_month_def)
  moreover have "?k - days_before_year y = days_before_month m y + d - 1" using assms(3) by simp
  ultimately have "month_from 1 y (?k - days_before_year y) = (m, d)"
    using month_from_eq [of 1 m d y] assms by simp
  with year show ?thesis by (simp add: date_of_def k Let_def)
qed

text \<open>A number of two or four digits prints as it was written.\<close>

lemma digit_char_val: "is_digit c \<Longrightarrow> digit_char (digit_val c) = c"
  by (simp add: is_digit_def digit_char_def digit_val_def)

lemma digit_val_less: "is_digit c \<Longrightarrow> digit_val c < 10"
  unfolding is_digit_def digit_val_def by linarith

lemma digit_zero: "digit_char 0 = CHR ''0''"
  by code_simp

lemma format_nat_one: "d < 10 \<Longrightarrow> format_nat d = [digit_char d]"
  by (subst format_nat.simps) simp

lemma format_nat_snoc: "d < 10 \<Longrightarrow> 0 < x \<Longrightarrow> format_nat (x * 10 + d) = format_nat x @ [digit_char d]"
  by (subst format_nat.simps) simp

lemma format_two:
  assumes "a < 10" "b < 10"
  shows "pad_nat 2 (10 * a + b) = [digit_char a, digit_char b]"
proof (cases "a = 0")
  case True
  with assms show ?thesis by (simp add: pad_nat_def format_nat_one digit_zero)
next
  case False
  with assms format_nat_snoc [of b a] show ?thesis by (simp add: pad_nat_def format_nat_one mult.commute)
qed

lemma format_four:
  assumes "a < 10" "b < 10" "c < 10" "d < 10"
  shows "pad_nat 4 (((a * 10 + b) * 10 + c) * 10 + d) = [digit_char a, digit_char b, digit_char c, digit_char d]"
proof -
  have three: "format_nat ((b * 10 + c) * 10 + d) = [digit_char b, digit_char c, digit_char d]" if "b \<noteq> 0"
    using that assms format_nat_snoc [of d "b * 10 + c"] format_nat_snoc [of c b] by (simp add: format_nat_one)
  have two: "format_nat (c * 10 + d) = [digit_char c, digit_char d]" if "c \<noteq> 0"
    using that assms format_nat_snoc [of d c] by (simp add: format_nat_one)
  consider "a \<noteq> 0" | "a = 0" "b \<noteq> 0" | "a = 0" "b = 0" "c \<noteq> 0" | "a = 0" "b = 0" "c = 0" by blast
  then show ?thesis
  proof cases
    case 1
    with assms format_nat_snoc [of d "(a * 10 + b) * 10 + c"] format_nat_snoc [of c "a * 10 + b"] format_nat_snoc [of b a]
    show ?thesis by (simp add: pad_nat_def format_nat_one)
  next
    case 2
    with three show ?thesis by (simp add: pad_nat_def digit_zero)
  next
    case 3
    with two show ?thesis by (simp add: pad_nat_def digit_zero numeral_2_eq_2)
  next
    case 4
    with assms show ?thesis by (simp add: pad_nat_def digit_zero format_nat_one numeral_3_eq_3)
  qed
qed

lemma getnum_two: "getnum True s = Some (n, r) \<Longrightarrow> s = pad_nat 2 n @ r"
  by (auto simp: getnum_def format_two digit_char_val digit_val_less split: list.splits if_splits)

lemma get_year_four: "get_year s = Some (n, r) \<Longrightarrow> s = pad_nat 4 n @ r"
proof -
  assume y: "get_year s = Some (n, r)"
  then have "4 \<le> length s" by (simp add: get_year_def split: if_splits)
  then obtain a b c d t where s: "s = a # b # c # d # t"
    by (auto simp: numeral_eq_Suc Suc_le_length_iff)
  from y have "is_digit a" "is_digit b" "is_digit c" "is_digit d"
    and "n = ((digit_val a * 10 + digit_val b) * 10 + digit_val c) * 10 + digit_val d" "r = t"
    by (auto simp: s get_year_def split: if_splits)
  with format_four [of "digit_val a" "digit_val b" "digit_val c" "digit_val d"] show ?thesis
    by (simp add: s digit_char_val digit_val_less)
qed

lemma get_date_text:
  assumes "get_date s = Some (n, r)"
  shows "\<exists>y m d. date_of n = (y, m, d) \<and> s = pad_nat 4 y @ ''-'' @ pad_nat 2 m @ ''-'' @ pad_nat 2 d @ r"
proof -
  from assms obtain y s1 s2 m s3 s4 d where y: "get_year s = Some (y, s1)" "s1 = CHR ''-'' # s2" "getnum True s2 = Some (m, s3)"
    "s3 = CHR ''-'' # s4" "getnum True s4 = Some (d, r)" and n: "n = day_number y m d"
    and ok: "1 \<le> m" "m \<le> 12" "1 \<le> d" "d \<le> daysIn m y"
    by (auto simp: get_date_def expect_def in_bounds_def split: bind_splits list.splits if_splits)
  from date_of_day_number [OF ok] get_year_four [OF y(1)] getnum_two [OF y(3)] getnum_two [OF y(5)] y(2,4) n
  show ?thesis by simp
qed

lemma Parse_day_text:
  assumes "Parse_day s = Some t" "0 \<le> k" "k < day_nanos"
  shows "Format_day 0 (t + k) = s"
proof -
  from assms(1) obtain n where n: "get_date s = Some (n, [])" "t = n * day_nanos"
    by (auto simp: Parse_day_def split: bind_splits if_splits)
  have "(t + k) div day_nanos = n" using assms(2,3) by (simp add: n(2) day_nanos_def)
  with get_date_text [OF n(1)] show ?thesis by (auto simp: Format_day_def)
qed

end
