(* ===== verification/Requests.thy ===== *)
theory Requests
  imports Timestamps Reconcile Holds
begin

text \<open>
  The request bodies of \<open>src/httpapi/api.go\<close> and how \<open>decode\<close> reads them: a JSON value into a struct,
  with \<open>DisallowUnknownFields\<close>. Names match without regard to ASCII case, \<open>null\<close> leaves a
  field as it is (or sets a pointer or slice to \<open>nil\<close>), a later member overrides an earlier one.
  \<open>Money\<close> reads itself (\<open>UnmarshalJSON\<close>) and is not strict about its own members. The lemmas say
  what a strict decoding accepts.
\<close>

section \<open>Strict decoding of structs\<close>

type_synonym 'r fields = "string \<Rightarrow> (json \<Rightarrow> 'r \<Rightarrow> 'r option) option"

fun decode_members :: "'r fields \<Rightarrow> (string \<times> json) list \<Rightarrow> 'r \<Rightarrow> 'r option" where
  "decode_members tbl [] r = Some r"
| "decode_members tbl ((k, v) # kvs) r =
     (case tbl (map ascii_lower k) of
        None \<Rightarrow> None
      | Some f \<Rightarrow> Option.bind (f v r) (decode_members tbl kvs))"

definition decode_struct :: "'r fields \<Rightarrow> json \<Rightarrow> 'r \<Rightarrow> 'r option" where
  "decode_struct tbl j r =
     (case j of JNull \<Rightarrow> Some r | JObject kvs \<Rightarrow> decode_members tbl kvs r | _ \<Rightarrow> None)"

definition decode_string :: "((string \<Rightarrow> string) \<Rightarrow> 'r \<Rightarrow> 'r) \<Rightarrow> json \<Rightarrow> 'r \<Rightarrow> 'r option" where
  "decode_string upd j r = (case j of JNull \<Rightarrow> Some r | JString s \<Rightarrow> Some (upd (\<lambda>_. s) r) | _ \<Rightarrow> None)"

definition decode_money :: "((money \<Rightarrow> money) \<Rightarrow> 'r \<Rightarrow> 'r) \<Rightarrow> json \<Rightarrow> 'r \<Rightarrow> 'r option" where
  "decode_money upd j r = (case UnmarshalJSON j of Inl _ \<Rightarrow> None | Inr m \<Rightarrow> Some (upd (\<lambda>_. m) r))"

definition decode_time :: "((time \<Rightarrow> time) \<Rightarrow> 'r \<Rightarrow> 'r) \<Rightarrow> json \<Rightarrow> 'r \<Rightarrow> 'r option" where
  "decode_time upd j r =
     (case j of JNull \<Rightarrow> Some r
      | JString s \<Rightarrow> map_option (\<lambda>t. upd (\<lambda>_. t) r) (Parse_RFC3339 s) | _ \<Rightarrow> None)"

text \<open>A pointer field: \<open>null\<close> is \<open>nil\<close>.\<close>

definition decode_time_ptr :: "((time option \<Rightarrow> time option) \<Rightarrow> 'r \<Rightarrow> 'r) \<Rightarrow> json \<Rightarrow> 'r \<Rightarrow> 'r option" where
  "decode_time_ptr upd j r =
     (case j of JNull \<Rightarrow> Some (upd (\<lambda>_. None) r)
      | JString s \<Rightarrow> map_option (\<lambda>t. upd (\<lambda>_. Some t) r) (Parse_RFC3339 s) | _ \<Rightarrow> None)"

definition decode_bool_ptr :: "((bool option \<Rightarrow> bool option) \<Rightarrow> 'r \<Rightarrow> 'r) \<Rightarrow> json \<Rightarrow> 'r \<Rightarrow> 'r option" where
  "decode_bool_ptr upd j r =
     (case j of JNull \<Rightarrow> Some (upd (\<lambda>_. None) r) | JBool b \<Rightarrow> Some (upd (\<lambda>_. Some b) r) | _ \<Rightarrow> None)"

fun decode_elements :: "(json \<Rightarrow> 'e option) \<Rightarrow> json list \<Rightarrow> 'e list option" where
  "decode_elements dec [] = Some []"
| "decode_elements dec (j # js) =
     (case dec j of None \<Rightarrow> None | Some e \<Rightarrow> map_option ((#) e) (decode_elements dec js))"

definition decode_slice :: "('e fields) \<Rightarrow> 'e \<Rightarrow> (('e list \<Rightarrow> 'e list) \<Rightarrow> 'r \<Rightarrow> 'r) \<Rightarrow> json \<Rightarrow> 'r \<Rightarrow> 'r option" where
  "decode_slice tbl zero upd j r =
     (case j of JNull \<Rightarrow> Some (upd (\<lambda>_. []) r)
      | JArray js \<Rightarrow> map_option (\<lambda>es. upd (\<lambda>_. es) r) (decode_elements (\<lambda>j. decode_struct tbl j zero) js)
      | _ \<Rightarrow> None)"

section \<open>The bodies\<close>

record accountRequest =
  ar_id :: string
  ar_type :: AccountType
  ar_currency :: string
  ar_allow_negative :: "bool option"

definition accountRequest_fields :: "accountRequest fields" where
  "accountRequest_fields k =
     (if k = ''id'' then Some (decode_string ar_id_update)
      else if k = ''type'' then Some (decode_string ar_type_update)
      else if k = ''currency'' then Some (decode_string ar_currency_update)
      else if k = ''allow_negative'' then Some (decode_bool_ptr ar_allow_negative_update)
      else None)"

definition accountRequest_zero :: accountRequest where
  "accountRequest_zero = \<lparr>ar_id = [], ar_type = [], ar_currency = [], ar_allow_negative = None\<rparr>"

record holdRequest =
  hq_account :: string
  hq_reference :: string
  hq_amount :: money
  hq_expires_at :: "time option"

definition holdRequest_fields :: "holdRequest fields" where
  "holdRequest_fields k =
     (if k = ''account'' then Some (decode_string hq_account_update)
      else if k = ''reference'' then Some (decode_string hq_reference_update)
      else if k = ''amount'' then Some (decode_money hq_amount_update)
      else if k = ''expires_at'' then Some (decode_time_ptr hq_expires_at_update)
      else None)"

definition holdRequest_zero :: holdRequest where
  "holdRequest_zero = \<lparr>hq_account = [], hq_reference = [], hq_amount = Amount 0 [], hq_expires_at = None\<rparr>"

definition posting_fields :: "posting fields" where
  "posting_fields k =
     (if k = ''account'' then Some (decode_string p_account_update)
      else if k = ''amount'' then Some (decode_money p_amount_update)
      else if k = ''direction'' then Some (decode_string p_dir_update)
      else None)"

definition posting_zero :: posting where
  "posting_zero = \<lparr>p_account = [], p_amount = Amount 0 [], p_dir = []\<rparr>"

record transferRequest =
  tq_reference :: string
  tq_description :: string
  tq_posted_at :: "time option"
  tq_postings :: "posting list"

definition transferRequest_fields :: "transferRequest fields" where
  "transferRequest_fields k =
     (if k = ''reference'' then Some (decode_string tq_reference_update)
      else if k = ''description'' then Some (decode_string tq_description_update)
      else if k = ''posted_at'' then Some (decode_time_ptr tq_posted_at_update)
      else if k = ''postings'' then Some (decode_slice posting_fields posting_zero tq_postings_update)
      else None)"

definition transferRequest_zero :: transferRequest where
  "transferRequest_zero = \<lparr>tq_reference = [], tq_description = [], tq_posted_at = None, tq_postings = []\<rparr>"

text \<open>\<open>transferRequest.transfer()\<close>.\<close>

definition transfer_of_request :: "transferRequest \<Rightarrow> transfer" where
  "transfer_of_request req = \<lparr>t_reference = tq_reference req, t_description = tq_description req,
     t_postings = tq_postings req,
     t_posted_at = (case tq_posted_at req of None \<Rightarrow> zero_time | Some at \<Rightarrow> at), t_reverses = 0\<rparr>"

record reverseRequest =
  vq_reference :: string
  vq_description :: string

definition reverseRequest_fields :: "reverseRequest fields" where
  "reverseRequest_fields k =
     (if k = ''reference'' then Some (decode_string vq_reference_update)
      else if k = ''description'' then Some (decode_string vq_description_update)
      else None)"

definition reverseRequest_zero :: reverseRequest where
  "reverseRequest_zero = \<lparr>vq_reference = [], vq_description = []\<rparr>"

definition ExternalEntry_fields :: "ExternalEntry fields" where
  "ExternalEntry_fields k =
     (if k = ''reference'' then Some (decode_string x_reference_update)
      else if k = ''amount'' then Some (decode_money x_amount_update)
      else if k = ''date'' then Some (decode_time x_date_update)
      else None)"

definition ExternalEntry_zero :: ExternalEntry where
  "ExternalEntry_zero = \<lparr>x_reference = [], x_amount = Amount 0 [], x_date = zero_time\<rparr>"

record reconcileRequest =
  rq_from :: time
  rq_to :: time
  rq_entries :: "ExternalEntry list"

definition reconcileRequest_fields :: "reconcileRequest fields" where
  "reconcileRequest_fields k =
     (if k = ''from'' then Some (decode_time rq_from_update)
      else if k = ''to'' then Some (decode_time rq_to_update)
      else if k = ''entries'' then Some (decode_slice ExternalEntry_fields ExternalEntry_zero rq_entries_update)
      else None)"

definition reconcileRequest_zero :: reconcileRequest where
  "reconcileRequest_zero = \<lparr>rq_from = zero_time, rq_to = zero_time, rq_entries = []\<rparr>"

section \<open>Strictness\<close>

lemma decode_members_known:
  "decode_members tbl kvs r = Some r' \<Longrightarrow> (k, v) \<in> set kvs \<Longrightarrow> tbl (map ascii_lower k) \<noteq> None"
  by (induction kvs arbitrary: r) (auto split: option.splits bind_splits)

lemma decode_elements_length: "decode_elements dec js = Some es \<Longrightarrow> length es = length js"
  by (induction js arbitrary: es) (auto split: option.splits)

text \<open>A transfer in the wire form a client sends, and that it decodes to the transfer it denotes.\<close>

definition posting_json :: "posting \<Rightarrow> json" where
  "posting_json p = JObject [(''account'', JString (p_account p)), (''amount'', MarshalJSON (p_amount p)),
     (''direction'', JString (p_dir p))]"

definition transfer_json :: "transfer \<Rightarrow> json" where
  "transfer_json t = JObject [(''reference'', JString (t_reference t)), (''description'', JString (t_description t)),
     (''postings'', JArray (map posting_json (t_postings t)))]"

lemma decode_posting_json: "decode_struct posting_fields (posting_json p) posting_zero = Some p"
  by (simp add: decode_struct_def posting_json_def ascii_lower_def posting_fields_def decode_string_def
      decode_money_def unmarshal_marshal posting_zero_def)

lemma decode_postings_json:
  "decode_elements (\<lambda>j. decode_struct posting_fields j posting_zero) (map posting_json ps) = Some ps"
  by (induction ps) (simp_all add: decode_posting_json)

lemma decode_transfer_json:
  "decode_struct transferRequest_fields (transfer_json t) transferRequest_zero
     = Some \<lparr>tq_reference = t_reference t, tq_description = t_description t, tq_posted_at = None, tq_postings = t_postings t\<rparr>"
  by (simp add: decode_struct_def transfer_json_def ascii_lower_def transferRequest_fields_def decode_string_def
      decode_slice_def decode_postings_json [unfolded decode_struct_def] transferRequest_zero_def)

end
