(* ===== verification/Http.thy ===== *)
theory Http
  imports Requests Verify Idempotency "HOL-Library.Sublist"
begin

text \<open>
  The frame of the HTTP layer: requests and responses, the error table and the error
  responses of \<open>src/httpapi/errors.go\<close>, and what \<open>src/httpapi/api.go\<close> uses of \<open>http.ServeMux\<close> and
  \<open>crypto/subtle\<close>. A response body is the Go value handed to \<open>writeJSON\<close>. A handler changes the
  \<^emph>\<open>world\<close>: the database, the table of idempotency keys and the error log.

  The lemmas show that the error table is total on the sentinels and hides every other error, that the
  comparison of tokens is equality, and which request a route accepts.
\<close>

section \<open>Requests and responses\<close>

text \<open>
  \<open>rq_segments\<close> are the decoded segments of the path, \<open>rq_header\<close> is \<open>Header.Get\<close>. The body is
  \<open>None\<close> when it is not JSON or longer than the 8 MiB that \<open>decode\<close> reads.
\<close>

record request =
  rq_method :: string
  rq_segments :: "string list"
  rq_query :: "(string \<times> string) list"
  rq_header :: "string \<Rightarrow> string"
  rq_body :: "json option"
  rq_values :: "(string \<times> string) list"

definition URL_Path :: "request \<Rightarrow> string" where
  "URL_Path r = concat (map (\<lambda>s. CHR ''/'' # s) (rq_segments r))"

definition Query_Get :: "request \<Rightarrow> string \<Rightarrow> string" where
  "Query_Get r k = (case map_of (rq_query r) k of None \<Rightarrow> [] | Some v \<Rightarrow> v)"

definition PathValue :: "request \<Rightarrow> string \<Rightarrow> string" where
  "PathValue r k = (case map_of (rq_values r) k of None \<Rightarrow> [] | Some v \<Rightarrow> v)"

datatype payload =
    ErrorBody string string                  \<comment> \<open>\<open>errorBody\<close>: code and message\<close>
  | AccountBody account
  | BalanceBody string money "time option"   \<comment> \<open>\<open>balanceResponse\<close>\<close>
  | HoldBody hold
  | EntriesBody "Entry list"
  | TransferBody int transfer                \<comment> \<open>\<open>transferResponse\<close>\<close>
  | ReconcileBody ReconcileReport
  | ReportBody Report
  | StatusBody string
  | TextBody string
  | RawBody "byte list"
  | NoBody

record response =
  rs_status :: int
  rs_header :: header
  rs_body :: payload

record world =
  w_db :: db
  w_keys :: "idem_row list"
  w_log :: "ledger_error list"

type_synonym handler = "request \<Rightarrow> world \<Rightarrow> response \<times> world"

text \<open>
  What one request sees of its surroundings: the clocks, the texts of errors, whether the pool answers a ping, and what each of the
  statements of \<open>Verify\<close>, which run one after the other, finds of the database while other calls commit.
\<close>

record env =
  ev_now :: time
  ev_post_now :: time
  ev_pg_now :: time
  ev_text :: "ledger_error \<Rightarrow> string"
  ev_json_text :: "json option \<Rightarrow> string"
  ev_ping :: bool
  ev_sees :: "nat \<Rightarrow> db \<Rightarrow> db"

section \<open>Error responses\<close>

definition writeJSON :: "int \<Rightarrow> payload \<Rightarrow> response" where
  "writeJSON status v = \<lparr>rs_status = status, rs_header = [(''Content-Type'', [''application/json; charset=utf-8''])], rs_body = v\<rparr>"

definition writeErrorCode :: "int \<Rightarrow> string \<Rightarrow> string \<Rightarrow> response" where
  "writeErrorCode status code message = writeJSON status (ErrorBody code message)"

definition badRequest :: "string \<Rightarrow> string \<Rightarrow> response" where
  "badRequest code message = writeErrorCode 400 code message"

definition statusOf :: "(ledger_error \<times> int \<times> string) list" where
  "statusOf =
    [(ErrUnknownAccount, 404, ''unknown_account''),
     (ErrUnknownTransfer, 404, ''unknown_transfer''),
     (ErrAccountExists, 409, ''account_exists''),
     (ErrDuplicateReference, 409, ''duplicate_reference''),
     (ErrUnknownHold, 404, ''unknown_hold''),
     (ErrHoldNotActive, 409, ''hold_not_active''),
     (ErrHoldExpired, 409, ''hold_expired''),
     (ErrAlreadyReversed, 409, ''already_reversed''),
     (ErrInsufficientFunds, 422, ''insufficient_funds''),
     (ErrCaptureMismatch, 422, ''capture_mismatch''),
     (ErrAccountArchived, 422, ''account_archived''),
     (ErrCurrencyMismatch, 422, ''currency_mismatch''),
     (ErrUnbalanced, 422, ''unbalanced''),
     (ErrTooFewPostings, 400, ''too_few_postings''),
     (ErrMissingReference, 400, ''missing_reference''),
     (ErrNonPositiveAmount, 400, ''non_positive_amount''),
     (ErrInvalidDirection, 400, ''invalid_direction''),
     (ErrInvalidCurrency, 400, ''invalid_currency''),
     (ErrInvalidAccount, 400, ''invalid_account''),
     (ErrInvalidType, 400, ''invalid_account_type'')]"

fun status_in :: "(ledger_error \<times> int \<times> string) list \<Rightarrow> ledger_error \<Rightarrow> int \<times> string" where
  "status_in [] err = (500, ''internal'')"
| "status_in ((e, status, code) # ms) err = (if err = e then (status, code) else status_in ms err)"

definition writeError :: "(ledger_error \<Rightarrow> string) \<Rightarrow> ledger_error \<Rightarrow> response" where
  "writeError msg_of err =
     (let (status, code) = status_in statusOf err;
          message = (if status = 500 then ''internal error'' else msg_of err)
      in writeJSON status (ErrorBody code message))"

definition isInternal :: "ledger_error \<Rightarrow> bool" where
  "isInternal err \<longleftrightarrow> \<not> (\<exists>m \<in> set statusOf. fst m = err)"

definition fail :: "env \<Rightarrow> ledger_error \<Rightarrow> world \<Rightarrow> response \<times> world" where
  "fail env err w =
     (writeError (ev_text env) err, if isInternal err then w\<lparr>w_log := w_log w @ [err]\<rparr> else w)"

text \<open>The tail of a handler: run a ledger call, answer its value or \<open>fail\<close> with its error.\<close>

definition answer :: "env \<Rightarrow> 'a run \<Rightarrow> ('a \<Rightarrow> response) \<Rightarrow> world \<Rightarrow> response \<times> world" where
  "answer env m ok w =
     (case m (w_db w) of
        (Inl err, s) \<Rightarrow> fail env err (w\<lparr>w_db := s\<rparr>)
      | (Inr x, s) \<Rightarrow> (ok x, w\<lparr>w_db := s\<rparr>))"

section \<open>Routing\<close>

datatype segment = Lit string | Wild string

fun path_match :: "segment list \<Rightarrow> string list \<Rightarrow> (string \<times> string) list option" where
  "path_match [] [] = Some []"
| "path_match (Lit l # ps) (s # ss) = (if s = l then path_match ps ss else None)"
| "path_match (Wild k # ps) (s # ss) = (if s = [] then None else map_option ((#) (k, s)) (path_match ps ss))"
| "path_match _ _ = None"

record route =
  rt_method :: string
  rt_path :: "segment list"
  rt_handler :: handler

text \<open>A \<open>GET\<close> pattern also serves \<open>HEAD\<close>.\<close>

definition serves :: "route \<Rightarrow> request \<Rightarrow> bool" where
  "serves rt r \<longleftrightarrow> (rq_method r = rt_method rt \<or> rt_method rt = ''GET'' \<and> rq_method r = ''HEAD'')
     \<and> path_match (rt_path rt) (rq_segments r) \<noteq> None"

definition text_error :: "int \<Rightarrow> header \<Rightarrow> string \<Rightarrow> response" where
  "text_error status h msg = \<lparr>rs_status = status,
     rs_header = h @ [(''Content-Type'', [''text/plain; charset=utf-8'']), (''X-Content-Type-Options'', [''nosniff''])],
     rs_body = TextBody (msg @ [CHR 0x0A])\<rparr>"

fun join_comma :: "string list \<Rightarrow> string" where
  "join_comma [] = []"
| "join_comma [s] = s"
| "join_comma (s # ss) = s @ '', '' @ join_comma ss"

definition allowed_methods :: "route list \<Rightarrow> request \<Rightarrow> string list" where
  "allowed_methods routes r = sort (remdups (concat (map
     (\<lambda>rt. if path_match (rt_path rt) (rq_segments r) = None then []
            else if rt_method rt = ''GET'' then [''GET'', ''HEAD''] else [rt_method rt]) routes)))"

definition ServeMux :: "route list \<Rightarrow> handler" where
  "ServeMux routes r w =
     (case find (\<lambda>rt. serves rt r) routes of
        Some rt \<Rightarrow> (case path_match (rt_path rt) (rq_segments r) of
                      Some vs \<Rightarrow> rt_handler rt (r\<lparr>rq_values := vs\<rparr>) w
                    | None \<Rightarrow> (text_error 404 [] ''404 page not found'', w))
      | None \<Rightarrow>
          (if allowed_methods routes r \<noteq> []
           then (text_error 405 [(''Allow'', [join_comma (allowed_methods routes r)])] ''Method Not Allowed'', w)
           else (text_error 404 [] ''404 page not found'', w)))"

text \<open>\<open>subtle.ConstantTimeCompare\<close>: all bytes are looked at, whatever the first difference.\<close>

definition ConstantTimeCompare :: "byte list \<Rightarrow> byte list \<Rightarrow> bool" where
  "ConstantTimeCompare x y \<longleftrightarrow> length x = length y \<and> fold (\<lambda>(a, b) v. v OR (a XOR b)) (zip x y) 0 = 0"

section \<open>The error table\<close>

definition sentinels :: "ledger_error list" where
  "sentinels = map fst statusOf"

lemma isInternal_iff: "isInternal err \<longleftrightarrow> err \<notin> set sentinels"
  by (auto simp: isInternal_def sentinels_def)

lemma isInternal_cases: "isInternal err \<longleftrightarrow> err = ScanOutOfRange \<or> (\<exists>e. err = DbError e)"
  by (cases err) (simp_all add: isInternal_def statusOf_def)

lemma status_in_internal: "status_in statusOf err = (500, ''internal'') \<longleftrightarrow> isInternal err"
  by (cases err) (simp_all add: isInternal_def statusOf_def)

lemma status_in_sentinel: "\<not> isInternal err \<Longrightarrow> (err, status_in statusOf err) \<in> set statusOf"
  by (cases err) (simp_all add: isInternal_def statusOf_def)

lemma statusOf_statuses: "m \<in> set statusOf \<Longrightarrow> fst (snd m) \<in> {400, 404, 409, 422}"
  by (auto simp: statusOf_def)

lemma statusOf_distinct_codes: "distinct (map (\<lambda>m. snd (snd m)) statusOf)"
  by (simp add: statusOf_def)

lemma status_code_inj:
  assumes "\<not> isInternal e" "\<not> isInternal err" "snd (status_in statusOf e) = snd (status_in statusOf err)"
  shows "e = err"
proof -
  have "inj_on (\<lambda>m. snd (snd m)) (set statusOf)"
    using statusOf_distinct_codes by (simp add: distinct_map)
  then have "(e, status_in statusOf e) = (err, status_in statusOf err)"
    by (rule inj_onD) (use assms in \<open>simp_all add: status_in_sentinel\<close>)
  then show ?thesis by simp
qed

lemma writeError_not_created: "rs_status (writeError msg_of err) \<noteq> 201"
  by (cases err) (simp_all add: writeError_def statusOf_def writeJSON_def)

section \<open>Tokens\<close>

lemma xor_zero_iff: "a XOR b = 0 \<longleftrightarrow> a = (b :: byte)"
proof
  assume "a XOR b = 0"
  then have "(a XOR b) XOR b = 0 XOR b" by simp
  then show "a = b" by (simp add: xor.assoc)
qed simp

lemma fold_or_zero: "fold (\<lambda>(a, b) v. v OR (a XOR b)) ps (v :: byte) = 0 \<longleftrightarrow> v = 0 \<and> (\<forall>(a, b) \<in> set ps. a = b)"
  by (induction ps arbitrary: v) (auto simp: or_eq_0_iff xor_zero_iff)

lemma ConstantTimeCompare_eq: "ConstantTimeCompare x y \<longleftrightarrow> x = y"
  by (auto simp: ConstantTimeCompare_def fold_or_zero list_eq_iff_zip_eq)

section \<open>Routes\<close>

lemma ServeMux_cases:
  assumes "ServeMux routes r w = (res, w')"
  obtains (routed) rt vs where "rt \<in> set routes" "serves rt r" "path_match (rt_path rt) (rq_segments r) = Some vs"
      "rt_handler rt (r\<lparr>rq_values := vs\<rparr>) w = (res, w')"
    | (refused) "w' = w" "rs_status res = 404 \<or> rs_status res = 405" "\<exists>msg. rs_body res = TextBody msg"
proof (cases "find (\<lambda>rt. serves rt r) routes")
  case None
  then have "w' = w \<and> (rs_status res = 404 \<or> rs_status res = 405) \<and> (\<exists>msg. rs_body res = TextBody msg)"
    using assms by (auto simp: ServeMux_def text_error_def split: if_splits)
  then show thesis using refused by blast
next
  case (Some rt)
  then have rt: "rt \<in> set routes" "serves rt r" by (auto simp: find_Some_iff)
  then obtain vs where vs: "path_match (rt_path rt) (rq_segments r) = Some vs" by (auto simp: serves_def)
  with Some assms have "rt_handler rt (r\<lparr>rq_values := vs\<rparr>) w = (res, w')" by (simp add: ServeMux_def)
  with rt vs show thesis by (rule routed)
qed

lemma path_match_first: "path_match (Lit l # ps) ss = Some vs \<Longrightarrow> \<exists>ss'. ss = l # ss' \<and> path_match ps ss' = Some vs"
  by (cases ss) (auto split: if_splits)

lemma path_match_length: "path_match ps ss = Some vs \<Longrightarrow> length ss = length ps"
  by (induction ps ss arbitrary: vs rule: path_match.induct) (auto split: if_splits)

lemma v1_prefix:
  assumes "path_match (Lit ''v1'' # p # ps) (rq_segments r) = Some vs"
  shows "prefix ''/v1/'' (URL_Path r)"
proof -
  from path_match_first [OF assms] obtain ss where ss: "rq_segments r = ''v1'' # ss" "path_match (p # ps) ss = Some vs"
    by blast
  from path_match_length [OF ss(2)] obtain s' ss' where "ss = s' # ss'" by (cases ss) auto
  with ss(1) show ?thesis by (simp add: URL_Path_def)
qed

section \<open>Handler tails\<close>

lemma answer_run:
  assumes "answer env m ok w = (res, w')"
  shows "\<exists>v. m (w_db w) = (v, w_db w') \<and> w_keys w' = w_keys w
    \<and> (case v of Inl err \<Rightarrow> res = writeError (ev_text env) err \<and> w_log w' = (if isInternal err then w_log w @ [err] else w_log w)
       | Inr x \<Rightarrow> res = ok x \<and> w_log w' = w_log w)"
  using assms by (auto simp: answer_def fail_def split: prod.splits sum.splits)

lemma answer_cases:
  assumes "answer env m ok w = (res, w')"
  obtains (failed) err where "m (w_db w) = (Inl err, w_db w')" "res = writeError (ev_text env) err"
    | (answered) x where "m (w_db w) = (Inr x, w_db w')" "res = ok x" "w_log w' = w_log w"
proof (cases "m (w_db w)")
  case (Pair v s)
  with assms that show thesis by (cases v) (auto simp: answer_def fail_def split: if_splits)
qed

end
