(* ===== verification/Api.thy ===== *)
theory Api
  imports Http
begin

text \<open>
  The router, the middleware and the handlers of \<open>src/httpapi/api.go\<close>. A handler runs the ledger calls in the
  order of the code, on a ledger from \<open>ledger.New\<close>, and turns their results into a response. The
  idempotency middleware of go-idempotent is the parameter \<open>keyed\<close>.
\<close>

section \<open>Decoding\<close>

definition decode :: "env \<Rightarrow> 'r fields \<Rightarrow> 'r \<Rightarrow> ('r \<Rightarrow> handler) \<Rightarrow> handler" where
  "decode env tbl zero k r w =
     (case Option.bind (rq_body r) (\<lambda>j. decode_struct tbl j zero) of
        None \<Rightarrow> (badRequest ''invalid_json'' (ev_json_text env (rq_body r)), w)
      | Some req \<Rightarrow> k req r w)"

fun parse_positive :: "nat \<Rightarrow> string \<Rightarrow> nat option" where
  "parse_positive n [] = (if n = 0 then None else Some n)"
| "parse_positive n (c # cs) =
     (if \<not> is_digit c then None
      else if 1000000 < n * 10 + digit_val c then None
      else parse_positive (n * 10 + digit_val c) cs)"

definition parsePositiveInt :: "string \<Rightarrow> nat option" where
  "parsePositiveInt s = parse_positive 0 s"

section \<open>Accounts\<close>

definition ready :: "env \<Rightarrow> handler" where
  "ready env r w = (if ev_ping env then writeJSON 200 (StatusBody ''ready'') else writeJSON 503 (StatusBody ''unavailable''), w)"

definition createAccount :: "env \<Rightarrow> handler" where
  "createAccount env = decode env accountRequest_fields accountRequest_zero (\<lambda>req r.
     let a = \<lparr>a_id = ar_id req, a_type = ar_type req, a_currency = ar_currency req, a_archived = False,
              a_allow_negative = (case ar_allow_negative req of None \<Rightarrow> True | Some b \<Rightarrow> b)\<rparr>
     in answer env (CreateAccount New a) (\<lambda>_. writeJSON 201 (AccountBody a)))"

definition getAccount :: "env \<Rightarrow> handler" where
  "getAccount env r = answer env (Account New (PathValue r ''id'')) (\<lambda>a. writeJSON 200 (AccountBody a))"

definition no_content :: response where
  "no_content = \<lparr>rs_status = 204, rs_header = [], rs_body = NoBody\<rparr>"

definition archiveAccount :: "env \<Rightarrow> handler" where
  "archiveAccount env r = answer env (Archive New (PathValue r ''id'')) (\<lambda>_. no_content)"

definition getBalance :: "env \<Rightarrow> handler" where
  "getBalance env r w =
     (let acc = PathValue r ''id''; raw = Query_Get r ''as_of'' in
      if raw \<noteq> [] then
        (case Parse_RFC3339 raw of
           None \<Rightarrow> (badRequest ''invalid_as_of'' ''as_of must be an RFC 3339 timestamp'', w)
         | Some at \<Rightarrow> answer env (BalanceAsOf New acc at) (\<lambda>bal. writeJSON 200 (BalanceBody acc bal (Some at))) w)
      else answer env (Balance New acc) (\<lambda>bal. writeJSON 200 (BalanceBody acc bal None)) w)"

definition getAvailable :: "env \<Rightarrow> handler" where
  "getAvailable env r =
     answer env (Available New (PathValue r ''id'')) (\<lambda>avail. writeJSON 200 (BalanceBody (PathValue r ''id'') avail None))"

section \<open>Holds\<close>

definition postHold :: "env \<Rightarrow> handler" where
  "postHold env = decode env holdRequest_fields holdRequest_zero (\<lambda>req r.
     answer env (Hold New (ev_pg_now env)
         \<lparr>hr_account = hq_account req, hr_reference = hq_reference req, hr_amount = hq_amount req,
          hr_expires_at = (case hq_expires_at req of None \<Rightarrow> zero_time | Some at \<Rightarrow> at)\<rparr>)
       (\<lambda>h. writeJSON 201 (HoldBody h)))"

definition getHold :: "env \<Rightarrow> handler" where
  "getHold env r = answer env (HoldByReference New (PathValue r ''reference'')) (\<lambda>h. writeJSON 200 (HoldBody h))"

definition captureHold :: "env \<Rightarrow> handler" where
  "captureHold env = decode env transferRequest_fields transferRequest_zero (\<lambda>req r.
     answer env (Capture New (ev_now env) (ev_post_now env) (ev_pg_now env) (PathValue r ''reference'') (transfer_of_request req))
       (\<lambda>(tid, t). writeJSON 201 (TransferBody tid t)))"

definition releaseHold :: "env \<Rightarrow> handler" where
  "releaseHold env r = answer env (Release New (ev_pg_now env) (PathValue r ''reference'')) (\<lambda>_. no_content)"

section \<open>Statements\<close>

definition time_param :: "request \<Rightarrow> string \<Rightarrow> response + time" where
  "time_param r name =
     (let raw = Query_Get r name in
      if raw = [] then Inr zero_time
      else case Parse_RFC3339 raw of
             None \<Rightarrow> Inl (badRequest (''invalid_'' @ name) (name @ '' must be an RFC 3339 timestamp''))
           | Some at \<Rightarrow> Inr at)"

definition limit_param :: "request \<Rightarrow> response + int" where
  "limit_param r =
     (let raw = Query_Get r ''limit'' in
      if raw = [] then Inr 0
      else case parsePositiveInt raw of
             None \<Rightarrow> Inl (badRequest ''invalid_limit'' ''limit must be a positive integer'')
           | Some n \<Rightarrow> Inr (int n))"

definition getStatement :: "env \<Rightarrow> handler" where
  "getStatement env r w =
     (case time_param r ''from'' of
        Inl e \<Rightarrow> (e, w)
      | Inr from \<Rightarrow>
          (case time_param r ''to'' of
             Inl e \<Rightarrow> (e, w)
           | Inr to \<Rightarrow>
               (case limit_param r of
                  Inl e \<Rightarrow> (e, w)
                | Inr n \<Rightarrow> answer env (Statement New (PathValue r ''id'') \<lparr>so_from = from, so_to = to, so_limit = n\<rparr>)
                             (\<lambda>es. writeJSON 200 (EntriesBody es)) w)))"

section \<open>Transfers\<close>

definition postTransfer :: "env \<Rightarrow> handler" where
  "postTransfer env = decode env transferRequest_fields transferRequest_zero (\<lambda>req r.
     answer env (Post New (ev_post_now env) (transfer_of_request req)) (\<lambda>(tid, t). writeJSON 201 (TransferBody tid t)))"

definition reverseTransfer :: "env \<Rightarrow> handler" where
  "reverseTransfer env = decode env reverseRequest_fields reverseRequest_zero (\<lambda>req r w.
     case Reverse New (ev_post_now env) (PathValue r ''reference'') (vq_reference req) (vq_description req) (w_db w) of
       (Inl err, s) \<Rightarrow> fail env err (w\<lparr>w_db := s\<rparr>)
     | (Inr (tid, _), s) \<Rightarrow>
         answer env (TransferByReference New (vq_reference req)) (\<lambda>(t, _). writeJSON 201 (TransferBody tid t)) (w\<lparr>w_db := s\<rparr>))"

definition getTransfer :: "env \<Rightarrow> handler" where
  "getTransfer env r =
     answer env (TransferByReference New (PathValue r ''reference'')) (\<lambda>(t, tid). writeJSON 200 (TransferBody tid t))"

section \<open>Reconciliation and verification\<close>

definition reconcile :: "env \<Rightarrow> handler" where
  "reconcile env = decode env reconcileRequest_fields reconcileRequest_zero (\<lambda>req r w.
     if IsZero_time (rq_from req) \<or> IsZero_time (rq_to req) \<or> rq_to req < rq_from req
     then (badRequest ''invalid_window'' ''from and to must be RFC 3339 timestamps with from <= to'', w)
     else if 50000 < length (rq_entries req)
     then (badRequest ''too_many_entries'' ''reconcile at most 50000 entries per request'', w)
     else answer env (Reconcile New (PathValue r ''id'') (rq_from req) (rq_to req) (rq_entries req))
            (\<lambda>report. writeJSON 200 (ReconcileBody report)) w)"

definition verify :: "env \<Rightarrow> handler" where
  "verify env r w =
     (let sees = (\<lambda>n. ev_sees env n (w_db w)) in
      case Verify (sees 0) (sees 1) (sees 2) (sees 3) (sees 4) of
        (Inl err, _) \<Rightarrow> fail env err w
      | (Inr _, report) \<Rightarrow> (writeJSON (if OK report then 200 else 409) (ReportBody report), w))"

section \<open>Middleware and router\<close>

definition IdempotencyHeader :: string where
  "IdempotencyHeader = ''Idempotency-Key''"

definition requireBearer :: "string \<Rightarrow> handler \<Rightarrow> handler" where
  "requireBearer token next r w =
     (if \<not> prefix ''/v1/'' (URL_Path r) then next r w
      else let want = bytes_of (''Bearer '' @ token); got = bytes_of (rq_header r ''Authorization'') in
           if length got \<noteq> length want \<or> \<not> ConstantTimeCompare got want
           then (let res = writeErrorCode 401 ''unauthorized'' ''missing or invalid bearer token''
                 in res\<lparr>rs_header := (''WWW-Authenticate'', [''Bearer realm=\"sumzero\"'']) # rs_header res\<rparr>, w)
           else next r w)"

definition scoped_key :: "request \<Rightarrow> string" where
  "scoped_key r = rq_method r @ '' '' @ URL_Path r @ '' '' @ rq_header r IdempotencyHeader"

definition requireIdempotencyKey :: "handler \<Rightarrow> handler" where
  "requireIdempotencyKey next r w =
     (if rq_header r IdempotencyHeader = []
      then (badRequest ''missing_idempotency_key'' (''writes require an '' @ IdempotencyHeader @ '' header''), w)
      else next (r\<lparr>rq_header := (rq_header r)(IdempotencyHeader := scoped_key r)\<rparr>) w)"

definition verify_disabled :: handler where
  "verify_disabled r w = (writeErrorCode 403 ''verify_disabled''
     ''GET /v1/verify is only served when the API has a token; run `sumzero verify` instead'', w)"

definition healthz :: handler where
  "healthz r w = (\<lparr>rs_status = 200, rs_header = [], rs_body = TextBody (''ok'' @ [CHR 0x0A])\<rparr>, w)"

definition open_routes :: "env \<Rightarrow> string \<Rightarrow> route list" where
  "open_routes env token =
    [\<lparr>rt_method = ''GET'', rt_path = [Lit ''healthz''], rt_handler = healthz\<rparr>,
     \<lparr>rt_method = ''GET'', rt_path = [Lit ''readyz''], rt_handler = ready env\<rparr>,
     \<lparr>rt_method = ''POST'', rt_path = [Lit ''v1'', Lit ''accounts''], rt_handler = createAccount env\<rparr>,
     \<lparr>rt_method = ''GET'', rt_path = [Lit ''v1'', Lit ''accounts'', Wild ''id''], rt_handler = getAccount env\<rparr>,
     \<lparr>rt_method = ''POST'', rt_path = [Lit ''v1'', Lit ''accounts'', Wild ''id'', Lit ''archive''], rt_handler = archiveAccount env\<rparr>,
     \<lparr>rt_method = ''GET'', rt_path = [Lit ''v1'', Lit ''accounts'', Wild ''id'', Lit ''balance''], rt_handler = getBalance env\<rparr>,
     \<lparr>rt_method = ''GET'', rt_path = [Lit ''v1'', Lit ''accounts'', Wild ''id'', Lit ''available''], rt_handler = getAvailable env\<rparr>,
     \<lparr>rt_method = ''GET'', rt_path = [Lit ''v1'', Lit ''holds'', Wild ''reference''], rt_handler = getHold env\<rparr>,
     \<lparr>rt_method = ''GET'', rt_path = [Lit ''v1'', Lit ''accounts'', Wild ''id'', Lit ''statement''], rt_handler = getStatement env\<rparr>,
     \<lparr>rt_method = ''POST'', rt_path = [Lit ''v1'', Lit ''accounts'', Wild ''id'', Lit ''reconcile''], rt_handler = reconcile env\<rparr>,
     \<lparr>rt_method = ''GET'', rt_path = [Lit ''v1'', Lit ''transfers'', Wild ''reference''], rt_handler = getTransfer env\<rparr>,
     \<lparr>rt_method = ''GET'', rt_path = [Lit ''v1'', Lit ''verify''],
      rt_handler = (if token \<noteq> [] then verify env else verify_disabled)\<rparr>]"

definition keyed_handlers :: "env \<Rightarrow> (segment list \<times> handler) list" where
  "keyed_handlers env =
    [([Lit ''v1'', Lit ''transfers''], postTransfer env),
     ([Lit ''v1'', Lit ''transfers'', Wild ''reference'', Lit ''reverse''], reverseTransfer env),
     ([Lit ''v1'', Lit ''holds''], postHold env),
     ([Lit ''v1'', Lit ''holds'', Wild ''reference'', Lit ''capture''], captureHold env),
     ([Lit ''v1'', Lit ''holds'', Wild ''reference'', Lit ''release''], releaseHold env)]"

definition keyed_routes :: "env \<Rightarrow> (handler \<Rightarrow> handler) \<Rightarrow> route list" where
  "keyed_routes env keyed = map (\<lambda>(path, h). \<lparr>rt_method = ''POST'', rt_path = path, rt_handler = requireIdempotencyKey (keyed h)\<rparr>)
     (keyed_handlers env)"

definition New_handler :: "env \<Rightarrow> string \<Rightarrow> (handler \<Rightarrow> handler) \<Rightarrow> handler" where
  "New_handler env token keyed =
     (let mux = ServeMux (open_routes env token @ keyed_routes env keyed) in
      if token = [] then mux else requireBearer token mux)"

end
