(* ===== verification/Api_Facts.thy ===== *)
theory Api_Facts
  imports Api Outcomes
begin

text \<open>
  What the HTTP layer guarantees whatever the request. The locale \<open>request_frame\<close> is the contract between
  the router and its handlers: a relation on worlds that every handler respects is respected by the
  router and the middleware around them. It is interpreted twice: with the steps of the ledger, for
  every request, and with \<open>no money moved\<close>, for the requests without an idempotency key.
\<close>

section \<open>Reads\<close>

lemma same_select [keeps_intros]: "keeps (\<lambda>x. x = s) (select f)"
  by (auto simp: keeps_def select_def sql_def split: if_splits)

lemma same_inTx [keeps_intros]: "keeps (\<lambda>x. x = s) m \<Longrightarrow> keeps (\<lambda>x. x = s) (inTx l m)"
  by (rule keepsI) (auto simp: inTx_def dest: keepsD split: ledger.splits prod.splits sum.splits)

lemma same_get_account [keeps_intros]: "keeps (\<lambda>x. x = s) (get_account acc)"
  unfolding get_account_def by (intro keeps_intros)

lemma same_Account [keeps_intros]: "keeps (\<lambda>x. x = s) (Account l acc)"
  unfolding Account_def by (intro keeps_intros)

lemma same_availableLocked [keeps_intros]: "keeps (\<lambda>x. x = s) (availableLocked a ex)"
  unfolding availableLocked_def by (intro keeps_intros)

lemma same_lockHold [keeps_intros]: "keeps (\<lambda>x. x = s) (lockHold ref)"
  unfolding lockHold_def by (intro keeps_intros)

lemma same_find_transfer [keeps_intros]: "keeps (\<lambda>x. x = s) (find_transfer ref)"
  unfolding find_transfer_def by (intro keeps_intros)

lemma same_reads:
  "keeps (\<lambda>x. x = s) (Balance l acc)" "keeps (\<lambda>x. x = s) (BalanceAsOf l acc at)"
  "keeps (\<lambda>x. x = s) (Available l acc)" "keeps (\<lambda>x. x = s) (Statement l acc opt)"
  "keeps (\<lambda>x. x = s) (HoldByReference l ref)" "keeps (\<lambda>x. x = s) (TransferByReference l ref)"
  "keeps (\<lambda>x. x = s) (Reconcile l acc from to external)"
  unfolding Balance_def BalanceAsOf_def Available_def Statement_def HoldByReference_def TransferByReference_def Reconcile_def
  by (intro keeps_intros)+

section \<open>The contract of a handler\<close>

locale request_frame =
  fixes covers :: "request \<Rightarrow> bool"
    and rel :: "world \<Rightarrow> world \<Rightarrow> bool"
  assumes rel_refl: "rel w w"
    and covers_values: "covers r \<Longrightarrow> covers (r\<lparr>rq_values := vs\<rparr>)"
    and covers_key: "covers r \<Longrightarrow> rq_header r IdempotencyHeader \<noteq> [] \<Longrightarrow> covers (r\<lparr>rq_header := h\<rparr>)"
begin

definition stays :: "handler \<Rightarrow> bool" where
  "stays h \<longleftrightarrow> (\<forall>r w res w'. covers r \<longrightarrow> h r w = (res, w') \<longrightarrow> rel w w')"

lemma staysI: "(\<And>r w res w'. covers r \<Longrightarrow> h r w = (res, w') \<Longrightarrow> rel w w') \<Longrightarrow> stays h"
  by (auto simp: stays_def)

lemma staysD: "stays h \<Longrightarrow> covers r \<Longrightarrow> h r w = (res, w') \<Longrightarrow> rel w w'"
  by (auto simp: stays_def)

lemma stays_decode: "(\<And>req. stays (k req)) \<Longrightarrow> stays (decode env tbl zero k)"
  by (rule staysI) (auto simp: decode_def rel_refl split: option.splits dest: staysD)

lemma stays_mux: "(\<And>rt. rt \<in> set routes \<Longrightarrow> stays (rt_handler rt)) \<Longrightarrow> stays (ServeMux routes)"
  by (rule staysI) (erule ServeMux_cases; auto simp: rel_refl intro: covers_values dest: staysD)

lemma stays_key: "stays h \<Longrightarrow> stays (requireIdempotencyKey h)"
  by (rule staysI) (auto simp: requireIdempotencyKey_def rel_refl dest: covers_key staysD split: if_splits)

lemma stays_bearer: "stays h \<Longrightarrow> stays (requireBearer token h)"
  by (rule staysI) (auto simp: requireBearer_def rel_refl Let_def dest: staysD split: if_splits)

lemma stays_New:
  assumes "list_all (\<lambda>rt. stays (rt_handler rt)) (open_routes env token)"
    and "list_all (\<lambda>rt. stays (rt_handler rt)) (keyed_routes env keyed)"
  shows "stays (New_handler env token keyed)"
proof -
  have "stays (ServeMux (open_routes env token @ keyed_routes env keyed))"
    by (rule stays_mux) (use assms in \<open>auto simp: list_all_iff\<close>)
  then show ?thesis by (cases "token = []") (simp_all add: New_handler_def Let_def stays_bearer)
qed

end

section \<open>Handlers that only read\<close>

lemma answer_read:
  assumes "answer env m ok w = (res, w')" "\<And>s. keeps (\<lambda>x. x = s) m"
  shows "w_db w' = w_db w \<and> w_keys w' = w_keys w"
proof -
  from answer_run [OF assms(1)] obtain v where "m (w_db w) = (v, w_db w')" "w_keys w' = w_keys w" by blast
  with keepsD [OF assms(2)] show ?thesis by blast
qed

lemma fail_world: "fail env err w = (res, w') \<Longrightarrow> w_db w' = w_db w \<and> w_keys w' = w_keys w"
  by (auto simp: fail_def)

definition only_reads :: "handler \<Rightarrow> bool" where
  "only_reads h \<longleftrightarrow> (\<forall>r w res w'. h r w = (res, w') \<longrightarrow> w_db w' = w_db w \<and> w_keys w' = w_keys w)"

lemma only_reads_decode: "(\<And>req. only_reads (k req)) \<Longrightarrow> only_reads (decode env tbl zero k)"
  by (auto simp: only_reads_def decode_def split: option.splits)

lemma only_reads_answer: "(\<And>r s. keeps (\<lambda>x. x = s) (m r)) \<Longrightarrow> only_reads (\<lambda>r. answer env (m r) (ok r))"
  by (auto simp: only_reads_def dest: answer_read)

lemma read_handlers:
  "only_reads healthz" "only_reads (ready env)" "only_reads verify_disabled"
  "only_reads (getAccount env)" "only_reads (getBalance env)" "only_reads (getAvailable env)"
  "only_reads (getHold env)" "only_reads (getStatement env)" "only_reads (getTransfer env)"
  "only_reads (reconcile env)" "only_reads (verify env)"
proof -
  show "only_reads healthz" "only_reads (ready env)" "only_reads verify_disabled"
    by (simp_all add: only_reads_def healthz_def ready_def verify_disabled_def)
  show "only_reads (getAccount env)" "only_reads (getAvailable env)" "only_reads (getHold env)" "only_reads (getTransfer env)"
    unfolding getAccount_def getAvailable_def getHold_def getTransfer_def
    by (intro only_reads_answer same_reads same_Account)+
  show "only_reads (getBalance env)"
    unfolding only_reads_def getBalance_def Let_def
    by (auto split: option.splits if_splits dest!: answer_read intro: same_reads)
  show "only_reads (getStatement env)"
    unfolding only_reads_def getStatement_def
    by (auto split: sum.splits dest!: answer_read intro: same_reads)
  show "only_reads (reconcile env)"
    unfolding reconcile_def
    by (rule only_reads_decode) (auto simp: only_reads_def split: if_splits dest!: answer_read intro: same_reads)
  show "only_reads (verify env)"
    unfolding only_reads_def verify_def Let_def
    by (auto split: prod.splits sum.splits dest!: fail_world)
qed

section \<open>Every request is a run of the ledger\<close>

definition same_or_steps :: "world \<Rightarrow> world \<Rightarrow> bool" where
  "same_or_steps w w' \<longleftrightarrow> ledger_step\<^sup>*\<^sup>* (w_db w) (w_db w')"

interpretation lawful: request_frame "\<lambda>_. True" same_or_steps
  by unfold_locales (auto simp: same_or_steps_def)

lemma lawful_read: "only_reads h \<Longrightarrow> lawful.stays h"
  by (rule lawful.staysI) (auto simp: only_reads_def same_or_steps_def)

lemmas lawful_reads = read_handlers [THEN lawful_read]

lemma lawful_answer:
  assumes "\<And>r s v s'. m r s = (v, s') \<Longrightarrow> ledger_step s s'"
  shows "lawful.stays (\<lambda>r. answer env (m r) (ok r))"
  by (rule lawful.staysI) (use assms in \<open>auto simp: same_or_steps_def dest!: answer_run\<close>)

lemma lawful_writes:
  "lawful.stays (createAccount env)" "lawful.stays (archiveAccount env)" "lawful.stays (postTransfer env)"
  "lawful.stays (postHold env)" "lawful.stays (captureHold env)" "lawful.stays (releaseHold env)"
  unfolding createAccount_def archiveAccount_def postTransfer_def postHold_def captureHold_def releaseHold_def Let_def
  by (intro lawful.stays_decode lawful_answer; erule ledger_step.intros)+

lemma lawful_reverse: "lawful.stays (reverseTransfer env)"
  unfolding reverseTransfer_def
proof (intro lawful.stays_decode lawful.staysI)
  fix req r w res w'
  assume run: "(case Reverse New (ev_post_now env) (PathValue r ''reference'') (vq_reference req) (vq_description req) (w_db w) of
       (Inl err, s) \<Rightarrow> fail env err (w\<lparr>w_db := s\<rparr>)
     | (Inr (tid, _), s) \<Rightarrow>
         answer env (TransferByReference New (vq_reference req)) (\<lambda>(t, _). writeJSON 201 (TransferBody tid t)) (w\<lparr>w_db := s\<rparr>))
     = (res, w')"
  obtain v s where v: "Reverse New (ev_post_now env) (PathValue r ''reference'') (vq_reference req) (vq_description req) (w_db w) = (v, s)"
    by fastforce
  with run have "w_db w' = s"
    by (auto split: sum.splits dest!: fail_world answer_read intro: same_reads)
  with step_reverse [OF v] show "same_or_steps w w'" by (auto simp: same_or_steps_def)
qed


text \<open>
  The middleware, as far as the ledger is concerned: around a request it reads and writes the
  key table only, and it calls the handler with that request once or not at all.
\<close>

definition runs_at_most_once :: "(handler \<Rightarrow> handler) \<Rightarrow> bool" where
  "runs_at_most_once keyed \<longleftrightarrow> (\<forall>h r w res w'. keyed h r w = (res, w') \<longrightarrow>
     (\<exists>w1 w2 res'. w_db w1 = w_db w \<and> w_log w1 = w_log w \<and> (w2 = w1 \<or> h r w1 = (res', w2))
        \<and> w_db w' = w_db w2 \<and> w_log w' = w_log w2))"

lemma lawful_middleware:
  assumes "runs_at_most_once keyed" "lawful.stays h"
  shows "lawful.stays (keyed h)"
proof (rule lawful.staysI)
  fix r w res w' assume run: "keyed h r w = (res, w')"
  from assms(1) [unfolded runs_at_most_once_def, rule_format, OF run]
  obtain w1 w2 res' where "w_db w1 = w_db w" "w2 = w1 \<or> h r w1 = (res', w2)" "w_db w' = w_db w2"
    by (elim exE conjE)
  with lawful.staysD [OF assms(2) TrueI, of r w1 res' w2] show "same_or_steps w w'" by (auto simp: same_or_steps_def)
qed

lemma open_routes_lawful: "list_all (\<lambda>rt. lawful.stays (rt_handler rt)) (open_routes env token)"
  unfolding open_routes_def list.pred_inject route.select_convs
  by (cases "token = []") (simp_all only: list.pred_inject if_True if_False simp_thms lawful_reads lawful_writes)

lemma keyed_routes_lawful:
  assumes "runs_at_most_once keyed"
  shows "list_all (\<lambda>rt. lawful.stays (rt_handler rt)) (keyed_routes env keyed)"
  using lawful_middleware [OF assms]
  by (simp add: keyed_routes_def keyed_handlers_def lawful.stays_key lawful_writes lawful_reverse)

lemma New_lawful: "runs_at_most_once keyed \<Longrightarrow> lawful.stays (New_handler env token keyed)"
  by (intro lawful.stays_New open_routes_lawful keyed_routes_lawful)

section \<open>Requests without a key\<close>

definition money_kept :: "world \<Rightarrow> world \<Rightarrow> bool" where
  "money_kept w w' \<longleftrightarrow> transfers (w_db w') = transfers (w_db w) \<and> postings (w_db w') = postings (w_db w)
     \<and> holds (w_db w') = holds (w_db w) \<and> w_keys w' = w_keys w"

interpretation unkeyed: request_frame "\<lambda>r. rq_header r IdempotencyHeader = []" money_kept
  by unfold_locales (auto simp: money_kept_def)

lemma unkeyed_read: "only_reads h \<Longrightarrow> unkeyed.stays h"
  by (rule unkeyed.staysI) (auto simp: only_reads_def money_kept_def)

lemmas unkeyed_reads = read_handlers [THEN unkeyed_read]

lemma unkeyed_answer:
  assumes "\<And>r s v s'. m r s = (v, s') \<Longrightarrow> transfers s' = transfers s \<and> postings s' = postings s \<and> holds s' = holds s"
  shows "unkeyed.stays (\<lambda>r. answer env (m r) (ok r))"
proof (rule unkeyed.staysI)
  fix r w res w' assume "answer env (m r) (ok r) w = (res, w')"
  from answer_run [OF this] obtain v where "m r (w_db w) = (v, w_db w')" "w_keys w' = w_keys w" by blast
  with assms show "money_kept w w'" by (simp add: money_kept_def)
qed

lemma accounts_keep_money:
  "CreateAccount New a s = (v, s') \<Longrightarrow> transfers s' = transfers s \<and> postings s' = postings s \<and> holds s' = holds s"
  "Archive New acc s = (u, s') \<Longrightarrow> transfers s' = transfers s \<and> postings s' = postings s \<and> holds s' = holds s"
  by (drule CreateAccount_cases, force) (drule Archive_cases, force)

lemma unkeyed_accounts: "unkeyed.stays (createAccount env)" "unkeyed.stays (archiveAccount env)"
  unfolding createAccount_def archiveAccount_def Let_def
  by (intro unkeyed.stays_decode unkeyed_answer, erule accounts_keep_money)+

lemma unkeyed_refused: "unkeyed.stays (requireIdempotencyKey h)"
  by (rule unkeyed.staysI) (auto simp: requireIdempotencyKey_def money_kept_def)

lemma New_unkeyed: "unkeyed.stays (New_handler env token keyed)"
proof (rule unkeyed.stays_New)
  show "list_all (\<lambda>rt. unkeyed.stays (rt_handler rt)) (open_routes env token)"
    unfolding open_routes_def list.pred_inject route.select_convs
    by (cases "token = []") (simp_all only: list.pred_inject if_True if_False simp_thms unkeyed_reads unkeyed_accounts)
  show "list_all (\<lambda>rt. unkeyed.stays (rt_handler rt)) (keyed_routes env keyed)"
    unfolding keyed_routes_def by (simp add: list_all_iff unkeyed_refused case_prod_unfold)
qed

end
