(* ===== verification/Migrate.thy ===== *)
theory Migrate
  imports Errors "HOL-Library.Sublist"
begin

text \<open>
  \<open>src/migrations/migrations.go\<close>: apply the embedded SQL files that are not recorded yet, in file order. The
  text of a file and what Postgres makes of it are parameters (\<open>text_of\<close>, \<open>exec\<close>); the schema is any type. The
  lemmas show that an outcome of \<open>Apply\<close> is an initial part of what was pending, in order, that exactly those files are
  recorded, and that a second run has nothing to do.
\<close>

section \<open>Apply\<close>

text \<open>The table \<open>sumzero_migrations\<close>, absent before the first run, and the rest of the database.\<close>

record 's database =
  recorded :: "string list option"
  tables :: 's

definition names_of :: "'s database \<Rightarrow> string list" where
  "names_of d = (case recorded d of None \<Rightarrow> [] | Some ns \<Rightarrow> ns)"

definition create_table :: "'s database \<Rightarrow> 's database" where
  "create_table d = d\<lparr>recorded := Some (names_of d)\<rparr>"

definition insert_name :: "string \<Rightarrow> 's database \<Rightarrow> (pg_error + unit) \<times> 's database" where
  "insert_name name d =
     (if name \<in> set (names_of d) then (Inl (UniqueViolation ''sumzero_migrations_pkey''), d)
      else (Inr (), d\<lparr>recorded := Some (names_of d @ [name])\<rparr>))"

fun apply_each :: "(string \<Rightarrow> string) \<Rightarrow> (string \<Rightarrow> 's \<Rightarrow> (pg_error + unit) \<times> 's) \<Rightarrow> string list \<Rightarrow> string list \<Rightarrow> 's database
    \<Rightarrow> pg_error option \<times> string list \<times> 's database" where
  "apply_each text_of exec [] applied d = (None, applied, d)"
| "apply_each text_of exec (name # names) applied d =
     (if name \<in> set (names_of d) then apply_each text_of exec names applied d
      else case exec (text_of name) (tables d) of
             (Inl e, s) \<Rightarrow> (Some e, applied, d\<lparr>tables := s\<rparr>)
           | (Inr _, s) \<Rightarrow>
               (case insert_name name (d\<lparr>tables := s\<rparr>) of
                  (Inl e, d') \<Rightarrow> (Some e, applied, d')
                | (Inr _, d') \<Rightarrow> apply_each text_of exec names (applied @ [name]) d'))"

definition Apply :: "string list \<Rightarrow> (string \<Rightarrow> string) \<Rightarrow> (string \<Rightarrow> 's \<Rightarrow> (pg_error + unit) \<times> 's) \<Rightarrow> 's database
    \<Rightarrow> pg_error option \<times> string list \<times> 's database" where
  "Apply files text_of exec d = apply_each text_of exec (sort files) [] (create_table d)"

section \<open>What a run does\<close>

text \<open>Running files one after the other, until the first error.\<close>

fun run_files :: "(string \<Rightarrow> string) \<Rightarrow> (string \<Rightarrow> 's \<Rightarrow> (pg_error + unit) \<times> 's) \<Rightarrow> string list \<Rightarrow> 's \<Rightarrow> pg_error option \<times> string list \<times> 's" where
  "run_files text_of exec [] s = (None, [], s)"
| "run_files text_of exec (name # names) s =
     (case exec (text_of name) s of
        (Inl e, s') \<Rightarrow> (Some e, [], s')
      | (Inr _, s') \<Rightarrow> (let (err, did, s'') = run_files text_of exec names s' in (err, name # did, s'')))"

lemma create_table_simps [simp]: "names_of (create_table d) = names_of d" "tables (create_table d) = tables d"
  by (simp_all add: create_table_def names_of_def)

lemma names_of_update [simp]:
  "names_of (d\<lparr>tables := s\<rparr>) = names_of d" "names_of (d\<lparr>recorded := Some ns\<rparr>) = ns"
  by (simp_all add: names_of_def)

lemma apply_each_run:
  assumes "distinct names"
  shows "apply_each text_of exec names applied d = (err, applied', d') \<Longrightarrow>
    \<exists>did. run_files text_of exec (filter (\<lambda>n. n \<notin> set (names_of d)) names) (tables d) = (err, did, tables d')
      \<and> applied' = applied @ did \<and> names_of d' = names_of d @ did \<and> (recorded d \<noteq> None \<longrightarrow> recorded d' \<noteq> None)"
  using assms
proof (induction names arbitrary: applied d)
  case Nil
  then show ?case by auto
next
  case (Cons name names)
  show ?case
  proof (cases "name \<in> set (names_of d)")
    case True
    with Cons show ?thesis by auto
  next
    case fresh: False
    show ?thesis
    proof (cases "exec (text_of name) (tables d)")
      case (Pair v s)
      show ?thesis
      proof (cases v)
        case (Inl e)
        with Cons.prems Pair fresh show ?thesis by auto
      next
        case (Inr u)
        let ?d = "d\<lparr>tables := s, recorded := Some (names_of d @ [name])\<rparr>"
        have "apply_each text_of exec names (applied @ [name]) ?d = (err, applied', d')"
          using Cons.prems(1) Pair Inr fresh by (simp add: insert_name_def)
        from Cons.IH [OF this] Cons.prems(2)
        obtain ns where ns: "run_files text_of exec (filter (\<lambda>n. n \<notin> set (names_of ?d)) names) (tables ?d) = (err, ns, tables d')"
          "applied' = (applied @ [name]) @ ns" "names_of d' = names_of ?d @ ns" "recorded d' \<noteq> None" by auto
        moreover have "filter (\<lambda>n. n \<notin> set (names_of ?d)) names = filter (\<lambda>n. n \<notin> set (names_of d)) names"
          using Cons.prems(2) by (auto intro!: filter_cong)
        ultimately show ?thesis using Pair Inr fresh by auto
      qed
    qed
  qed
qed

lemma run_files_prefix: "run_files text_of exec names s = (err, did, s') \<Longrightarrow> prefix did names \<and> (err = None \<longleftrightarrow> did = names)"
proof (induction names arbitrary: s did)
  case (Cons name names)
  then show ?case by (fastforce split: prod.splits sum.splits)
qed auto

lemma apply_each_done:
  "set names \<subseteq> set (names_of d) \<Longrightarrow> apply_each text_of exec names applied d = (None, applied, d)"
  by (induction names) auto

text \<open>
  C38: Whatever the outcome of \<open>Apply\<close>, the names it returns are an initial part, in file order, of the
  embedded files not recorded before, all of them exactly when there is no error; the database is what
  running just those files leaves (and the failing one, if any), and precisely they are added to the record.
\<close>

theorem Apply_runs_pending_in_order:
  assumes "distinct files" "Apply files text_of exec d = (err, applied, d')"
  shows "run_files text_of exec (filter (\<lambda>n. n \<notin> set (names_of d)) (sort files)) (tables d) = (err, applied, tables d')
    \<and> prefix applied (filter (\<lambda>n. n \<notin> set (names_of d)) (sort files))
    \<and> (err = None \<longleftrightarrow> applied = filter (\<lambda>n. n \<notin> set (names_of d)) (sort files))
    \<and> recorded d' = Some (names_of d @ applied)"
proof -
  have "distinct (sort files)" using assms(1) by simp
  from apply_each_run [OF this assms(2) [unfolded Apply_def]]
  have run: "run_files text_of exec (filter (\<lambda>n. n \<notin> set (names_of d)) (sort files)) (tables d) = (err, applied, tables d')"
    and rec: "names_of d' = names_of d @ applied" "recorded d' \<noteq> None"
    by (auto simp: create_table_def)
  from rec have "recorded d' = Some (names_of d @ applied)" by (auto simp: names_of_def)
  with run run_files_prefix [OF run] show ?thesis by simp
qed

definition embedded :: "string list" where
  "embedded = [''0001_init.sql'', ''0002_idempotency.sql'', ''0003_holds.sql'', ''0004_reversals.sql'']"

text \<open>An \<open>exec\<close> that keeps the list of what it ran and refuses the third file.\<close>

definition sample_exec :: "string \<Rightarrow> string list \<Rightarrow> (pg_error + unit) \<times> string list" where
  "sample_exec sql s = (if sql = ''0003_holds.sql'' then (Inl CheckViolation, s) else (Inr (), s @ [sql]))"

lemma embedded_sorted: "sort embedded = embedded"
  by (simp add: embedded_def)

theorem Apply_runs_pending_in_order_witness:
  "prefix [''0002_idempotency.sql''] (filter (\<lambda>n. n \<notin> set [''0001_init.sql'']) (sort embedded))
    \<and> recorded (snd (snd (Apply embedded (\<lambda>n. n) sample_exec \<lparr>recorded = Some [''0001_init.sql''], tables = []\<rparr>)))
        = Some ([''0001_init.sql''] @ [''0002_idempotency.sql''])"
proof -
  let ?d = "\<lparr>recorded = Some [''0001_init.sql''], tables = []\<rparr>"
  let ?d' = "\<lparr>recorded = Some [''0001_init.sql'', ''0002_idempotency.sql''], tables = [''0002_idempotency.sql'']\<rparr>"
  have "distinct embedded" by (simp add: embedded_def)
  moreover have run: "Apply embedded (\<lambda>n. n) sample_exec ?d = (Some CheckViolation, [''0002_idempotency.sql''], ?d')"
    unfolding Apply_def embedded_sorted
    by (simp add: embedded_def create_table_def names_of_def insert_name_def sample_exec_def)
  ultimately show ?thesis
    using Apply_runs_pending_in_order [of embedded "\<lambda>n. n" sample_exec ?d] by (simp add: names_of_def)
qed

text \<open>
  \<open>Apply\<close> can run on every deploy: after a run without error, another run applies nothing, reports
  nothing and leaves the database as it is.
\<close>

lemma Apply_again_does_nothing:
  assumes "distinct files" "Apply files text_of exec d = (None, applied, d')"
  shows "Apply files text_of exec d' = (None, [], d')"
proof -
  from apply_each_run [OF _ assms(2) [unfolded Apply_def]] assms(1) run_files_prefix
  have rec: "names_of d' = names_of d @ filter (\<lambda>n. n \<notin> set (names_of d)) (sort files)" "recorded d' \<noteq> None"
    by (fastforce simp: create_table_def)+
  then have "create_table d' = d'" by (auto simp: create_table_def names_of_def)
  moreover have "set (sort files) \<subseteq> set (names_of d')" using rec by auto
  ultimately show ?thesis by (simp add: Apply_def apply_each_done)
qed

end
