(* ===== verification/Printing.thy ===== *)
theory Printing
  imports Verify Reconcile Timestamps
begin

text \<open>
  What \<open>src/cmd/sumzero/main.go\<close> prints for people: the usage text, \<open>printReport\<close> and \<open>printReconcile\<close>. A string is
  its bytes, so the few characters outside ASCII are spelled out in UTF-8, and \<open>%-24s\<close> pads by the number of
  runes as Go counts them (\<open>utf8.RuneCountInString\<close>, written out).
\<close>

section \<open>Formatting\<close>

definition newline :: string where "newline = [CHR 0x0A]"
definition arrow :: string where "arrow = [CHR 0xE2, CHR 0x86, CHR 0x92]"
definition middle_dot :: string where "middle_dot = [CHR 0xC2, CHR 0xB7]"
definition dash :: string where "dash = [CHR 0xE2, CHR 0x80, CHR 0x94]"

text \<open>\<open>%d\<close> of a Go \<open>int\<close> that counts, and of an \<open>int64\<close>.\<close>

definition show_count :: "int \<Rightarrow> string" where
  "show_count n = FormatInt (word_of_int n)"

text \<open>The width in bytes of the first rune; a byte that starts no valid encoding counts as one rune.\<close>

definition tail_byte :: "nat \<Rightarrow> bool" where
  "tail_byte b \<longleftrightarrow> 128 \<le> b \<and> b \<le> 191"

definition second_byte :: "nat \<Rightarrow> nat \<Rightarrow> bool" where
  "second_byte b0 b1 \<longleftrightarrow>
     (if b0 = 224 then 160 \<le> b1 \<and> b1 \<le> 191
      else if b0 = 237 then 128 \<le> b1 \<and> b1 \<le> 159
      else if b0 = 240 then 144 \<le> b1 \<and> b1 \<le> 191
      else if b0 = 244 then 128 \<le> b1 \<and> b1 \<le> 143
      else tail_byte b1)"

definition rune_size :: "nat \<Rightarrow> nat" where
  "rune_size b0 = (if 194 \<le> b0 \<and> b0 \<le> 223 then 2 else if 224 \<le> b0 \<and> b0 \<le> 239 then 3
     else if 240 \<le> b0 \<and> b0 \<le> 244 then 4 else 1)"

definition rune_width :: "nat \<Rightarrow> nat list \<Rightarrow> nat" where
  "rune_width b0 bs =
     (let n = rune_size b0 in
      if n \<le> 1 \<or> length bs < n - 1 then 1
      else if second_byte b0 (hd bs) \<and> list_all tail_byte (take (n - 2) (tl bs)) then n
      else 1)"

function rune_count :: "nat list \<Rightarrow> nat" where
  "rune_count [] = 0"
| "rune_count (b # bs) = Suc (rune_count (drop (rune_width b bs - 1) bs))"
  by pat_completeness auto

termination by (relation "measure length") auto

definition RuneCountInString :: "string \<Rightarrow> nat" where
  "RuneCountInString s = rune_count (map of_char s)"

definition pad_right :: "nat \<Rightarrow> string \<Rightarrow> string" where
  "pad_right w s = s @ replicate (w - RuneCountInString s) (CHR '' '')"

lemma rune_count_ascii: "\<forall>b \<in> set bs. b < 128 \<Longrightarrow> rune_count bs = length bs"
  by (induction bs rule: rune_count.induct) (auto simp: rune_width_def rune_size_def)

lemma pad_right_ascii:
  assumes "\<forall>c \<in> set s. (of_char c :: nat) < 128"
  shows "length (pad_right w s) = max w (length s)"
  using assms by (simp add: pad_right_def RuneCountInString_def rune_count_ascii max_def)

section \<open>Usage\<close>

definition usage :: string where
  "usage = concat (map (\<lambda>l. l @ newline)
    [''sumzero '' @ dash @ '' double-entry ledger for Postgres'',
     '''',
     ''usage:'',
     ''  sumzero migrate [--dsn URL]'',
     ''  sumzero serve  [--dsn URL] [--addr HOST:PORT] [--idempotency-ttl DUR] [--token T]'',
     ''  sumzero verify [--dsn URL] [--json]'',
     ''  sumzero reconcile --account ID --file bank.csv --from DATE --to DATE [--json]'',
     '''',
     ''  migrate    apply the schema (idempotent; safe to run on every deploy).'',
     ''  serve      run the REST API. Every write requires an Idempotency-Key. With'',
     ''             --token (or SUMZERO_API_TOKEN) every /v1 call needs'',
     ''             '' @ [CHR 0x22] @ ''Authorization: Bearer <token>'' @ [CHR 0x22] @ ''; without it the API is open and'',
     ''             says so loudly at start, and /v1/verify is disabled.'',
     ''  verify     recompute every balance from the postings and re-walk the hash'',
     ''             chain. Exits non-zero if the ledger does not check out.'',
     ''  reconcile  compare an account against an external CSV (reference,amount'',
     ''             [,date]) and report what matches, what differs and what is missing'',
     ''             on either side. Exits 1 when the two sides disagree.'',
     '''',
     ''The DSN is read from --dsn or DATABASE_URL.''])"

section \<open>Reports\<close>

text \<open>\<open>took\<close> is \<open>r.Took\<close>, a rendering of the wall clock.\<close>

definition printReport :: "string \<Rightarrow> Report \<Rightarrow> string" where
  "printReport took r =
     show_count (rp_accounts r) @ '' accounts, '' @ show_count (rp_transfers r) @ '' transfers, ''
       @ show_count (rp_postings r) @ '' postings ('' @ took @ '')'' @ newline
     @ (if OK r then ''ok: balances match the postings and the chain is intact'' @ newline
        else newline @ show_count (int (length (rp_problems r))) @ '' problem(s):'' @ newline
          @ concat (map (\<lambda>p. ''  '' @ String_problem p @ newline) (rp_problems r)))"

definition mismatch_line :: "Match \<Rightarrow> string" where
  "mismatch_line m = ''  ~ '' @ pad_right 24 (mt_reference m) @ '' ledger '' @ FormatInt (m_amount (mt_ledger m))
     @ '', external '' @ FormatInt (m_amount (mt_external m)) @ newline"

definition external_only_line :: "ExternalEntry \<Rightarrow> string" where
  "external_only_line e = ''  + '' @ pad_right 24 (x_reference e) @ '' '' @ FormatInt (m_amount (x_amount e))
     @ ''  (external only: money moved, not recorded)'' @ newline"

definition ledger_only_line :: "LedgerLine \<Rightarrow> string" where
  "ledger_only_line l = ''  - '' @ pad_right 24 (ll_reference l) @ '' '' @ FormatInt (m_amount (ll_amount l))
     @ ''  (ledger only: recorded, money did not move)'' @ newline"

text \<open>The window is printed in the zones its ends were given in.\<close>

definition window_line :: "int \<Rightarrow> int \<Rightarrow> ReconcileReport \<Rightarrow> string" where
  "window_line from_east to_east r = rr_account r @ '' ('' @ rr_currency r @ '') '' @ Format_day from_east (rr_from r)
     @ '' '' @ arrow @ '' '' @ Format_day to_east (rr_to r) @ newline"

definition printReconcile :: "int \<Rightarrow> int \<Rightarrow> ReconcileReport \<Rightarrow> string" where
  "printReconcile from_east to_east r =
     window_line from_east to_east r
     @ ''  matched '' @ show_count (int (length (rr_matched r)))
       @ '' '' @ middle_dot @ '' amount mismatch '' @ show_count (int (length (rr_mismatch r)))
       @ '' '' @ middle_dot @ '' missing in ledger '' @ show_count (int (length (rr_missing_in_ledger r)))
       @ '' '' @ middle_dot @ '' missing externally '' @ show_count (int (length (rr_missing_externally r))) @ newline
     @ ''  ledger '' @ FormatInt (rr_ledger_total r)
       @ '' '' @ middle_dot @ '' external '' @ FormatInt (rr_external_total r)
       @ '' '' @ middle_dot @ '' difference '' @ FormatInt (rr_difference r) @ newline
     @ (if Clean r then ''ok: both sides agree'' @ newline
        else concat (map mismatch_line (rr_mismatch r)) @ concat (map external_only_line (rr_missing_in_ledger r))
          @ concat (map ledger_only_line (rr_missing_externally r)))"

end
