(* ===== verification/Durations.thy ===== *)
theory Durations
  imports Timestamps
begin

text \<open>
  \<open>time.ParseDuration\<close>, which reads \<open>--idempotency-ttl\<close> of \<open>src/cmd/sumzero/main.go\<close>, written out from the standard
  library. The whole part is summed in a \<open>uint64\<close>; the fraction goes through \<open>float64\<close>, whose rounding (to nearest, ties to
  even, 53 bits) is written out. Its exponent range is not: a scale beyond it belongs to
  a fraction below one nanosecond, which is truncated to zero either way.
\<close>

section \<open>Double precision\<close>

text \<open>A number that is not negative, as a mantissa and an exponent of two.\<close>

type_synonym float = "nat \<times> int"

fun bit_length :: "nat \<Rightarrow> nat" where
  "bit_length n = (if n = 0 then 0 else Suc (bit_length (n div 2)))"

declare bit_length.simps [simp del]

definition div_even :: "nat \<Rightarrow> nat \<Rightarrow> nat" where
  "div_even a b = (if 2 * (a mod b) < b \<or> 2 * (a mod b) = b \<and> even (a div b) then a div b else a div b + 1)"

text \<open>\<open>a / b * 2 ^ e\<close>, scaled by the power of two that leaves 53 bits, and rounded.\<close>

definition float64 :: "nat \<Rightarrow> nat \<Rightarrow> int \<Rightarrow> float" where
  "float64 a b e =
     (if a = 0 then (0, 0)
      else let scaled = (\<lambda>k. (a * 2 ^ nat (- k), b * 2 ^ nat k));
               k0 = int (bit_length a) - int (bit_length b) - 53;
               k = (case scaled k0 of (a', b') \<Rightarrow> if 2 ^ 53 \<le> a' div b' then k0 + 1 else k0)
           in case scaled k of (a', b') \<Rightarrow> (div_even a' b', k + e))"

definition float_of :: "nat \<Rightarrow> float" where
  "float_of n = float64 n 1 0"

definition float_times :: "float \<Rightarrow> float \<Rightarrow> float" where
  "float_times x y = float64 (fst x * fst y) 1 (snd x + snd y)"

definition float_divide :: "float \<Rightarrow> float \<Rightarrow> float" where
  "float_divide x y = float64 (fst x) (fst y) (snd x - snd y)"

text \<open>The conversion to \<open>uint64\<close> of a value in its range.\<close>

definition truncated :: "float \<Rightarrow> nat" where
  "truncated x = fst x * 2 ^ nat (snd x) div 2 ^ nat (- snd x)"

section \<open>Numbers and units\<close>

fun leadingInt :: "nat \<Rightarrow> string \<Rightarrow> (nat \<times> string) option" where
  "leadingInt x [] = Some (x, [])"
| "leadingInt x (c # s) =
     (if \<not> is_digit c then Some (x, c # s)
      else if 2 ^ 63 div 10 < x \<or> 2 ^ 63 < x * 10 + digit_val c then None
      else leadingInt (x * 10 + digit_val c) s)"

text \<open>The digits that fit, as a number and its power of ten; the digits after those are skipped.\<close>

fun leadingFraction :: "nat \<Rightarrow> float \<Rightarrow> bool \<Rightarrow> string \<Rightarrow> nat \<times> float \<times> string" where
  "leadingFraction x scale overflow [] = (x, scale, [])"
| "leadingFraction x scale overflow (c # s) =
     (if \<not> is_digit c then (x, scale, c # s)
      else if overflow \<or> (2 ^ 63 - 1) div 10 < x \<or> 2 ^ 63 < x * 10 + digit_val c then leadingFraction x scale True s
      else leadingFraction (x * 10 + digit_val c) (float_times scale (float_of 10)) False s)"

definition unitMap :: "(string \<times> nat) list" where
  "unitMap =
    [(''ns'', 1),
     (''us'', 1000),
     ([CHR 0xC2, CHR 0xB5, CHR ''s''], 1000),
     ([CHR 0xCE, CHR 0xBC, CHR ''s''], 1000),
     (''ms'', 1000000),
     (''s'', 1000000000),
     (''m'', 60 * 1000000000),
     (''h'', 3600 * 1000000000)]"

definition duration_number :: "string \<Rightarrow> (nat \<times> nat \<times> float \<times> string) option" where
  "duration_number s =
     (case leadingInt 0 s of
        None \<Rightarrow> None
      | Some (v, s1) \<Rightarrow>
          if s1 \<noteq> [] \<and> hd s1 = CHR ''.''
          then (let (f, scale, s2) = leadingFraction 0 (float_of 1) False (tl s1)
                in if length s1 = length s \<and> length s2 = length (tl s1) then None else Some (v, f, scale, s2))
          else if length s1 = length s then None
          else Some (v, 0, float_of 1, s1))"

definition in_unit :: "nat \<Rightarrow> nat \<Rightarrow> float \<Rightarrow> nat \<Rightarrow> nat option" where
  "in_unit v f scale unit =
     (if 2 ^ 63 div unit < v then None
      else if f = 0 then Some (v * unit)
      else let v' = v * unit + truncated (float_times (float_of f) (float_divide (float_of unit) scale))
           in if 2 ^ 63 < v' then None else Some v')"

definition duration_term :: "string \<Rightarrow> (nat \<times> string) option" where
  "duration_term s =
     (if \<not> (hd s = CHR ''.'' \<or> is_digit (hd s)) then None
      else case duration_number s of
             None \<Rightarrow> None
           | Some (v, f, scale, s1) \<Rightarrow>
               let name = takeWhile (\<lambda>c. c \<noteq> CHR ''.'' \<and> \<not> is_digit c) s1 in
               if name = [] then None
               else case map_of unitMap name of
                      None \<Rightarrow> None
                    | Some unit \<Rightarrow> map_option (\<lambda>n. (n, drop (length name) s1)) (in_unit v f scale unit))"

lemma leadingInt_shrinks: "leadingInt x s = Some (v, s') \<Longrightarrow> length s' \<le> length s"
  by (induction x s rule: leadingInt.induct) (auto split: if_splits)

lemma leadingFraction_shrinks: "leadingFraction x scale over s = (f, scale', s') \<Longrightarrow> length s' \<le> length s"
  by (induction x scale over s rule: leadingFraction.induct) (auto split: if_splits)

lemma duration_number_shrinks: "duration_number s = Some (v, f, scale, s') \<Longrightarrow> length s' < length s"
  by (fastforce simp: duration_number_def neq_Nil_conv dest: leadingInt_shrinks leadingFraction_shrinks
      split: option.splits if_splits prod.splits)

lemma duration_term_shrinks: "duration_term s = Some (n, s') \<Longrightarrow> length s' < length s"
  by (auto simp: duration_term_def Let_def dest!: duration_number_shrinks split: option.splits if_splits)

section \<open>ParseDuration\<close>

function duration_sum :: "nat \<Rightarrow> string \<Rightarrow> nat option" where
  "duration_sum d s =
     (if s = [] then Some d
      else case duration_term s of
             None \<Rightarrow> None
           | Some (v, s') \<Rightarrow> (let d' = (d + v) mod 2 ^ 64 in if 2 ^ 63 < d' then None else duration_sum d' s'))"
  by pat_completeness auto

termination by (relation "measure (\<lambda>(d, s). length s)") (auto dest: duration_term_shrinks)

declare duration_sum.simps [simp del]

definition ParseDuration :: "string \<Rightarrow> int option" where
  "ParseDuration s =
     (let neg = (s \<noteq> [] \<and> hd s = CHR ''-''); s = (if s \<noteq> [] \<and> hd s \<in> {CHR ''-'', CHR ''+''} then tl s else s) in
      if s = ''0'' then Some 0
      else if s = [] then None
      else case duration_sum 0 s of
             None \<Rightarrow> None
           | Some d \<Rightarrow> if neg then Some (- int d) else if 2 ^ 63 - 1 < d then None else Some (int d))"

lemma duration_sum_step:
  "duration_sum d [] = Some d"
  "s \<noteq> [] \<Longrightarrow> duration_sum d s = Some n \<Longrightarrow>
     \<exists>v s'. duration_term s = Some (v, s') \<and> (d + v) mod 2 ^ 64 \<le> 2 ^ 63 \<and> duration_sum ((d + v) mod 2 ^ 64) s' = Some n"
  using duration_sum.simps [of d "[]"] duration_sum.simps [of d s]
  by (simp_all add: Let_def split: option.splits if_splits prod.splits)

lemma duration_sum_bound: "duration_sum d s = Some n \<Longrightarrow> d \<le> 2 ^ 63 \<Longrightarrow> n \<le> 2 ^ 63"
proof (induction "length s" arbitrary: d s rule: less_induct)
  case less
  show ?case
  proof (cases "s = []")
    case True
    with less.prems show ?thesis by (simp add: duration_sum_step(1))
  next
    case False
    from duration_sum_step(2) [OF this less.prems(1)] less.hyps duration_term_shrinks show ?thesis by blast
  qed
qed

text \<open>A duration is a 64-bit number of nanoseconds.\<close>

lemma ParseDuration_bound: "ParseDuration s = Some t \<Longrightarrow> - (2 ^ 63) \<le> t \<and> t < 2 ^ 63"
  by (auto simp: ParseDuration_def Let_def dest!: duration_sum_bound split: if_splits option.splits)

lemma parse_digits_grows: "parse_digits n s = Some k \<Longrightarrow> n \<le> k"
proof (induction s arbitrary: n)
  case (Cons c s)
  then have "n * 10 + digit_val c \<le> k" by (simp split: if_splits)
  then show ?case by simp
qed simp

lemma leadingInt_digits:
  assumes "\<forall>c \<in> set ds. is_digit c" "rest = [] \<or> \<not> is_digit (hd rest)" "parse_digits x ds = Some v" "v \<le> 2 ^ 63"
  shows "leadingInt x (ds @ rest) = Some (v, rest)"
  using assms(1,3)
proof (induction ds arbitrary: x)
  case Nil
  then show ?case using assms(2) by (cases rest) auto
next
  case (Cons c ds)
  then have "x * 10 + digit_val c \<le> v" by (auto dest: parse_digits_grows split: if_splits)
  then have "x * 10 + digit_val c \<le> 2 ^ 63" "x \<le> 2 ^ 63 div 10" using assms(4) by simp_all
  with Cons show ?case by (simp split: if_splits)
qed

text \<open>A whole number of one unit is read as that many nanoseconds, as long as it fits 63 bits.\<close>

lemma ParseDuration_whole:
  assumes unit: "(name, unit) \<in> set unitMap" and fits: "n * unit < 2 ^ 63"
  shows "ParseDuration (format_nat n @ name) = Some (int (n * unit))"
proof -
  let ?s = "format_nat n @ name"
  have name: "name \<noteq> []" "\<forall>c \<in> set name. c \<noteq> CHR ''.'' \<and> \<not> is_digit c" "map_of unitMap name = Some unit" "0 < unit"
    using unit by (auto simp: unitMap_def is_digit_def)
  have first: "is_digit (hd ?s)" "format_nat n \<noteq> []"
    using format_nat_digits [of "hd (format_nat n)" n] format_nat_nonempty by auto
  have "n \<le> n * unit" using name(4) by simp
  then have "n \<le> 2 ^ 63" using fits by linarith
  then have "leadingInt 0 ?s = Some (n, name)"
    using name(1,2) format_nat_digits by (intro leadingInt_digits) (auto simp: parse_format_nat)
  then have number: "duration_number ?s = Some (n, 0, float_of 1, name)"
    using name(1,2) first(2) by (auto simp: duration_number_def)
  have "n \<le> 2 ^ 63 div unit"
    using fits name(4) by (simp add: less_eq_div_iff_mult_less_eq)
  then have "duration_term ?s = Some (n * unit, [])"
    using number name first(1)
    by (simp add: duration_term_def in_unit_def Let_def takeWhile_eq_all_conv [THEN iffD2, OF name(2)])
  then have "duration_sum 0 ?s = Some (n * unit)"
    using first(2) fits by (subst duration_sum.simps) (simp add: duration_sum_step(1))
  moreover have "hd ?s \<noteq> CHR ''-''" "hd ?s \<noteq> CHR ''+''" "?s \<noteq> ''0''"
    using first name(1) sign_not_digit by (auto simp: append_eq_Cons_conv)
  ultimately show ?thesis using fits first(2) by (simp add: ParseDuration_def)
qed

end
