(* ===== verification/Csv.thy ===== *)
theory Csv
  imports Timestamps "HOL-Library.Sublist"
begin

text \<open>
  What \<open>readExternalCSV\<close> of \<open>src/cmd/sumzero/main.go\<close> uses of the standard library: \<open>strings.TrimSpace\<close>, \<open>strings.EqualFold\<close> and
  \<open>csv.Reader\<close> with \<open>TrimLeadingSpace\<close> and any number of fields, over the bytes of the file. The lemma at the end shows
  that the reader gives back the fields of records that were quoted.
\<close>

section \<open>Spaces\<close>

text \<open>\<open>unicode.IsSpace\<close>, in UTF-8.\<close>

definition space_runes :: "string list" where
  "space_runes =
    [[CHR 0x09], [CHR 0x0A], [CHR 0x0B], [CHR 0x0C], [CHR 0x0D], [CHR 0x20],
     [CHR 0xC2, CHR 0x85], [CHR 0xC2, CHR 0xA0], [CHR 0xE1, CHR 0x9A, CHR 0x80]]
    @ map (\<lambda>b. [CHR 0xE2, CHR 0x80, char_of b]) [128 :: nat, 129, 130, 131, 132, 133, 134, 135, 136, 137, 138, 168, 169, 175]
    @ [[CHR 0xE2, CHR 0x81, CHR 0x9F], [CHR 0xE3, CHR 0x80, CHR 0x80]]"

function trim_with :: "string list \<Rightarrow> string \<Rightarrow> string" where
  "trim_with runes s =
     (case find (\<lambda>u. u \<noteq> [] \<and> prefix u s) runes of
        None \<Rightarrow> s
      | Some u \<Rightarrow> trim_with runes (drop (length u) s))"
  by pat_completeness auto

termination
  by (relation "measure (\<lambda>(runes, s). length s)") (auto simp: find_Some_iff prefix_def)

declare trim_with.simps [simp del]

definition TrimSpace :: "string \<Rightarrow> string" where
  "TrimSpace s = rev (trim_with (map rev space_runes) (rev (trim_with space_runes s)))"

lemma trim_with_shrinks: "length (trim_with runes s) \<le> length s"
proof (induction runes s rule: trim_with.induct)
  case (1 runes s)
  then show ?case by (subst trim_with.simps) (force split: option.split)
qed

text \<open>
  \<open>EqualFold\<close> for a second argument without the letters \<open>k\<close> and \<open>s\<close>, the only ones that fold to
  letters outside ASCII.
\<close>

definition EqualFold :: "string \<Rightarrow> string \<Rightarrow> bool" where
  "EqualFold s t \<longleftrightarrow> map ascii_lower s = map ascii_lower t"

section \<open>Lines\<close>

abbreviation LF :: char where "LF \<equiv> CHR 0x0A"
abbreviation CR :: char where "CR \<equiv> CHR 0x0D"
abbreviation QUOTE :: char where "QUOTE \<equiv> CHR 0x22"

text \<open>The next line with its line feed, and what follows; \<open>None\<close> at the end of the file.\<close>

definition readLine :: "string \<Rightarrow> (string \<times> string) option" where
  "readLine s =
     (if s = [] then None
      else let l = takeWhile (\<lambda>c. c \<noteq> LF) s; after = drop (length l) s in
        if after = [] then Some (if l \<noteq> [] \<and> last l = CR then butlast l else l, [])
        else Some ((if l \<noteq> [] \<and> last l = CR then butlast l else l) @ [LF], tl after))"

lemma readLine_shrinks:
  assumes "readLine s = Some (l, r)"
  shows "length r < length s" "length l + length r \<le> length s"
proof -
  let ?l = "takeWhile (\<lambda>c. c \<noteq> LF) s"
  have "length s = length ?l + length (drop (length ?l) s)" using length_takeWhile_le [of "\<lambda>c. c \<noteq> LF" s] by simp
  moreover have "s \<noteq> []" "length (if ?l \<noteq> [] \<and> last ?l = CR then butlast ?l else ?l) \<le> length ?l"
    using assms by (auto simp: readLine_def)
  moreover have "drop (length ?l) s \<noteq> [] \<Longrightarrow> 0 < length (drop (length ?l) s)" by simp
  ultimately show "length r < length s" "length l + length r \<le> length s"
    using assms by (auto simp: readLine_def Let_def split: if_splits)
qed

section \<open>Fields\<close>

lemma tl_drop_shrinks: "drop n xs \<noteq> [] \<Longrightarrow> length (tl (drop n xs)) < length xs"
  by auto

text \<open>
  A quoted field from behind its quote: the field and, unless the record ends with it, the rest of the line behind the
  comma; and the rest of the file. A field may run over several lines.
\<close>

function quoted :: "string \<Rightarrow> string \<Rightarrow> string \<Rightarrow> (string \<times> string option \<times> string) option" where
  "quoted [] r field = (case readLine r of None \<Rightarrow> None | Some (l, r') \<Rightarrow> quoted l r' field)"
| "quoted (c # l) r field =
     (if c \<noteq> QUOTE then quoted l r (field @ [c])
      else case l of
             [] \<Rightarrow> Some (field, None, r)
           | d # l' \<Rightarrow>
               if d = QUOTE then quoted l' r (field @ [QUOTE])
               else if d = CHR '','' then Some (field, Some l', r)
               else if d = LF \<and> l' = [] then Some (field, None, r)
               else None)"
  by pat_completeness auto

termination
  by (relation "measures [\<lambda>(l, r, field). length r, \<lambda>(l, r, field). length l]") (auto dest: readLine_shrinks)

lemma quoted_shrinks:
  "quoted l r field = Some (f, m, r') \<Longrightarrow> length (case m of None \<Rightarrow> [] | Some l' \<Rightarrow> l') + length r' < length l + length r"
proof (induction l r field rule: quoted.induct)
  case (1 r field)
  then obtain l r1 where line: "readLine r = Some (l, r1)" "quoted l r1 field = Some (f, m, r')"
    by (auto split: option.splits)
  from "1.IH" [OF line(1) refl line(2)] readLine_shrinks(2) [OF line(1)] show ?case by simp
next
  case (2 c l r field)
  show ?case
  proof (cases "c = QUOTE")
    case False
    with "2.IH"(1) "2.prems" show ?thesis by simp
  next
    case True
    show ?thesis
    proof (cases l)
      case Nil
      with True "2.prems" show ?thesis by simp
    next
      case (Cons d l')
      with True "2.IH"(2) "2.prems" show ?thesis by (cases "d = QUOTE") (auto split: if_splits)
    qed
  qed
qed

function fields_of :: "string \<Rightarrow> string \<Rightarrow> string list \<Rightarrow> (string list \<times> string) option" where
  "fields_of l r fs =
     (let l = trim_with space_runes l in
      if l = [] \<or> hd l \<noteq> QUOTE
      then (let field = takeWhile (\<lambda>c. c \<noteq> CHR '','') l; after = drop (length field) l in
            if after \<noteq> []
            then (if QUOTE \<in> set field then None else fields_of (tl after) r (fs @ [field]))
            else (let field = (if field \<noteq> [] \<and> last field = LF then butlast field else field) in
                  if QUOTE \<in> set field then None else Some (fs @ [field], r)))
      else case quoted (tl l) r [] of
             None \<Rightarrow> None
           | Some (field, None, r') \<Rightarrow> Some (fs @ [field], r')
           | Some (field, Some m, r') \<Rightarrow> fields_of m r' (fs @ [field]))"
  by pat_completeness auto

termination
proof (relation "measure (\<lambda>(l, r, fs). length l + length r)", goal_cases)
  case (2 l r fs x field after)
  then have "length (tl after) < length x" using tl_drop_shrinks [of "length field" x] by simp
  moreover have "length x \<le> length l" using 2 trim_with_shrinks by simp
  ultimately show ?case by simp
next
  case (3 l r fs x p field p' m m' r')
  then have "length (tl x) \<le> length l" using trim_with_shrinks [of space_runes l] by simp
  with 3 quoted_shrinks [of "tl x" r "[]"] show ?case by fastforce
qed simp

declare fields_of.simps [simp del]

section \<open>Records\<close>

lemma fields_of_shrinks:
  "fields_of l r fs = Some (fs', r') \<Longrightarrow> length r' \<le> length l + length r \<and> (l \<noteq> [] \<longrightarrow> length r' < length l + length r)"
proof (induction l r fs rule: fields_of.induct)
  case (1 l r fs)
  let ?l = "trim_with space_runes l"
  let ?field = "takeWhile (\<lambda>c. c \<noteq> CHR '','') ?l"
  have le: "length ?l \<le> length l" by (rule trim_with_shrinks)
  show ?case
  proof (cases "?l = [] \<or> hd ?l \<noteq> QUOTE")
    case plain: True
    show ?thesis
    proof (cases "drop (length ?field) ?l = []")
      case True
      with plain "1.prems" have "r' = r"
        by (subst (asm) fields_of.simps) (auto simp: Let_def split: if_splits)
      then show ?thesis by simp
    next
      case False
      with plain "1.prems" have "fields_of (tl (drop (length ?field) ?l)) r (fs @ [?field]) = Some (fs', r')" "QUOTE \<notin> set ?field"
        by (subst (asm) fields_of.simps; auto simp: Let_def split: if_splits)+
      with "1.IH"(1) [OF refl plain refl refl False] have "length r' \<le> length (tl (drop (length ?field) ?l)) + length r" by simp
      moreover have "length (tl (drop (length ?field) ?l)) < length ?l"
        using tl_drop_shrinks [OF False] .
      ultimately show ?thesis using le by linarith
    qed
  next
    case q: False
    with "1.prems" obtain field m r1 where "quoted (tl ?l) r [] = Some (field, m, r1)"
      by (subst (asm) fields_of.simps) (auto simp: Let_def split: option.splits)
    note run = this
    have less: "length (case m of None \<Rightarrow> [] | Some l' \<Rightarrow> l') + length r1 < length l + length r"
      using quoted_shrinks [OF run] le by simp
    show ?thesis
    proof (cases m)
      case None
      with q run "1.prems" have "r' = r1" by (subst (asm) fields_of.simps) (auto simp: Let_def)
      with less None show ?thesis by simp
    next
      case (Some l')
      with q run "1.prems" have "fields_of l' r1 (fs @ [field]) = Some (fs', r')"
        by (subst (asm) fields_of.simps) (auto simp: Let_def)
      with "1.IH"(2) [OF refl q run [unfolded Some] refl refl refl] less Some show ?thesis by auto
    qed
  qed
qed

text \<open>All that \<open>Read\<close> returns until the end of the file or the first error, which is \<open>None\<close>.\<close>

function csv_records :: "string \<Rightarrow> string list option list" where
  "csv_records s =
     (case readLine s of
        None \<Rightarrow> []
      | Some (l, r) \<Rightarrow>
          if l = [] \<or> l = [LF] then csv_records r
          else case fields_of l r [] of
                 None \<Rightarrow> [None]
               | Some (rec, r') \<Rightarrow> Some rec # csv_records r')"
  by pat_completeness auto

termination
proof (relation "measure length", goal_cases)
  case (2 s a l r)
  then show ?case using readLine_shrinks(1) by auto
next
  case (3 s a l r b fs r')
  then have "length r' < length l + length r" using fields_of_shrinks by auto
  with 3 readLine_shrinks(2) [of s l r] show ?case by simp
qed simp

declare csv_records.simps [simp del]

section \<open>Reading what was quoted\<close>

text \<open>A record with all its fields quoted, and the text behind it.\<close>

definition doubled :: "string \<Rightarrow> string" where
  "doubled f = concat (map (\<lambda>c. if c = QUOTE then [QUOTE, QUOTE] else [c]) f)"

fun row_text :: "string list \<Rightarrow> string \<Rightarrow> string" where
  "row_text [] u = LF # u"
| "row_text [f] u = QUOTE # doubled f @ QUOTE # LF # u"
| "row_text (f # fs) u = QUOTE # doubled f @ QUOTE # CHR '','' # row_text fs u"

lemma row_text_suffix: "set u \<subseteq> set (row_text fs u)"
  by (induction fs u rule: row_text.induct) auto

definition csv_text :: "string list list \<Rightarrow> string" where
  "csv_text rows = foldr row_text rows []"

text \<open>The first line of a text, with its line feed, and the lines after it.\<close>

fun first_line :: "string \<Rightarrow> string" where
  "first_line [] = []"
| "first_line (c # t) = c # (if c = LF then [] else first_line t)"

fun other_lines :: "string \<Rightarrow> string" where
  "other_lines [] = []"
| "other_lines (c # t) = (if c = LF then t else other_lines t)"

lemma first_line_eq: "first_line t = takeWhile (\<lambda>c. c \<noteq> LF) t @ take 1 (dropWhile (\<lambda>c. c \<noteq> LF) t)"
  by (induction t) auto

lemma other_lines_eq: "other_lines t = drop 1 (dropWhile (\<lambda>c. c \<noteq> LF) t)"
  by (induction t) auto

lemma readLine_text:
  assumes "CR \<notin> set t" "t \<noteq> []"
  shows "readLine t = Some (first_line t, other_lines t)"
proof -
  let ?l = "takeWhile (\<lambda>c. c \<noteq> LF) t"
  have "\<not> (?l \<noteq> [] \<and> last ?l = CR)"
  proof
    assume "?l \<noteq> [] \<and> last ?l = CR"
    then have "CR \<in> set ?l" using last_in_set [of ?l] by simp
    then show False using assms(1) by (auto dest: set_takeWhileD)
  qed
  then have keep: "(if ?l \<noteq> [] \<and> last ?l = CR then butlast ?l else ?l) = ?l" by (simp only: if_False)
  have after: "drop (length ?l) t = dropWhile (\<lambda>c. c \<noteq> LF) t" by (simp add: dropWhile_eq_drop)
  show ?thesis
  proof (cases "dropWhile (\<lambda>c. c \<noteq> LF) t")
    case Nil
    show ?thesis
      unfolding readLine_def first_line_eq other_lines_eq Let_def keep after Nil using assms(2) by simp
  next
    case (Cons c u)
    then have "c = LF" using hd_dropWhile [of "\<lambda>c. c \<noteq> LF" t] by simp
    then show ?thesis
      unfolding readLine_def first_line_eq other_lines_eq Let_def keep after Cons using assms(2) by simp
  qed
qed

lemma quoted_text:
  assumes "CR \<notin> set (doubled f @ QUOTE # u)"
  shows "quoted (first_line (doubled f @ QUOTE # u)) (other_lines (doubled f @ QUOTE # u)) field
    = quoted (first_line (QUOTE # u)) (other_lines (QUOTE # u)) (field @ f)"
  using assms
proof (induction f arbitrary: field)
  case (Cons c f)
  show ?case
  proof (cases "c = LF")
    case True
    have "readLine (doubled f @ QUOTE # u) = Some (first_line (doubled f @ QUOTE # u), other_lines (doubled f @ QUOTE # u))"
      using Cons.prems by (intro readLine_text) (auto simp: doubled_def)
    then have "quoted (first_line (doubled (c # f) @ QUOTE # u)) (other_lines (doubled (c # f) @ QUOTE # u)) field
        = quoted (first_line (doubled f @ QUOTE # u)) (other_lines (doubled f @ QUOTE # u)) (field @ [c])"
      using True by (simp add: doubled_def)
    also have "\<dots> = quoted (first_line (QUOTE # u)) (other_lines (QUOTE # u)) ((field @ [c]) @ f)"
      using Cons.prems by (intro Cons.IH) (auto simp: doubled_def split: if_splits)
    finally show ?thesis by simp
  next
    case False
    have "quoted (first_line (doubled (c # f) @ QUOTE # u)) (other_lines (doubled (c # f) @ QUOTE # u)) field
        = quoted (first_line (doubled f @ QUOTE # u)) (other_lines (doubled f @ QUOTE # u)) (field @ [c])"
      using False by (cases "c = QUOTE") (simp_all add: doubled_def)
    also have "\<dots> = quoted (first_line (QUOTE # u)) (other_lines (QUOTE # u)) ((field @ [c]) @ f)"
      using Cons.prems by (intro Cons.IH) (auto simp: doubled_def split: if_splits)
    finally show ?thesis by simp
  qed
qed (simp add: doubled_def)

lemma space_bytes:
  "\<forall>u \<in> set space_runes. u \<noteq> [] \<and> (\<forall>c \<in> {hd u, last u}. (of_char c :: nat) < 33 \<or> 127 < (of_char c :: nat))"
  by (simp add: space_runes_def)

lemma trim_with_id:
  assumes "\<forall>u \<in> set runes. u \<noteq> [] \<longrightarrow> s \<noteq> [] \<longrightarrow> hd u \<noteq> hd s"
  shows "trim_with runes s = s"
proof -
  have "find (\<lambda>u. u \<noteq> [] \<and> prefix u s) runes = None"
    unfolding find_None_iff using assms by (metis hd_append2 append_is_Nil_conv prefix_def)
  then show ?thesis by (subst trim_with.simps) simp
qed

lemma trim_quote: "trim_with space_runes (QUOTE # l) = QUOTE # l"
  by (rule trim_with_id) (use space_bytes in fastforce)

lemma TrimSpace_printable:
  assumes "\<forall>c \<in> set s. 33 \<le> (of_char c :: nat) \<and> (of_char c :: nat) \<le> 127"
  shows "TrimSpace s = s"
proof -
  have ends: "33 \<le> (of_char (hd s) :: nat) \<and> (of_char (hd s) :: nat) \<le> 127" "33 \<le> (of_char (last s) :: nat) \<and> (of_char (last s) :: nat) \<le> 127"
    if "s \<noteq> []"
    using assms that by simp_all
  have "trim_with space_runes s = s" by (rule trim_with_id) (use space_bytes ends(1) in fastforce)
  moreover have "trim_with (map rev space_runes) (rev s) = rev s"
    by (rule trim_with_id) (use space_bytes ends(2) in \<open>fastforce simp: hd_rev\<close>)
  ultimately show ?thesis by (simp add: TrimSpace_def)
qed

lemma fields_of_text:
  assumes "CR \<notin> set (row_text fs u)" "fs \<noteq> []"
  shows "fields_of (first_line (row_text fs u)) (other_lines (row_text fs u)) front = Some (front @ fs, u)"
  using assms
proof (induction fs u arbitrary: front rule: row_text.induct)
  case (2 f u)
  have "quoted (first_line (doubled f @ QUOTE # LF # u)) (other_lines (doubled f @ QUOTE # LF # u)) [] = Some (f, None, u)"
    using quoted_text [of f "LF # u" "[]"] "2.prems" by simp
  then show ?case by (subst fields_of.simps) (simp add: trim_quote Let_def)
next
  case (3 f g gs u)
  let ?u = "CHR '','' # row_text (g # gs) u"
  have "quoted (first_line (doubled f @ QUOTE # ?u)) (other_lines (doubled f @ QUOTE # ?u)) []
      = Some (f, Some (first_line (row_text (g # gs) u)), other_lines (row_text (g # gs) u))"
    using quoted_text [of f ?u "[]"] "3.prems" by simp
  moreover have "fields_of (first_line (row_text (g # gs) u)) (other_lines (row_text (g # gs) u)) (front @ [f]) = Some ((front @ [f]) @ g # gs, u)"
    using "3.prems" by (intro "3.IH") auto
  ultimately show ?case by (subst fields_of.simps) (simp add: trim_quote Let_def)
qed simp

text \<open>Quoted records are read back as they are, whatever their fields hold; only a carriage return is not kept.\<close>

lemma csv_records_text:
  assumes "\<forall>fs \<in> set rows. fs \<noteq> []" "CR \<notin> set (csv_text rows)"
  shows "csv_records (csv_text rows) = map Some rows"
  using assms
proof (induction rows)
  case Nil
  then show ?case by (subst csv_records.simps) (simp add: csv_text_def readLine_def)
next
  case (Cons fs rows)
  have shape: "csv_text (fs # rows) = row_text fs (csv_text rows)" by (simp add: csv_text_def)
  then obtain t where t: "csv_text (fs # rows) = QUOTE # t" using Cons.prems(1) by (cases "(fs, csv_text rows)" rule: row_text.cases) auto
  have "readLine (csv_text (fs # rows)) = Some (first_line (csv_text (fs # rows)), other_lines (csv_text (fs # rows)))"
    using Cons.prems(2) t by (intro readLine_text) simp_all
  moreover have "fields_of (first_line (csv_text (fs # rows))) (other_lines (csv_text (fs # rows))) [] = Some (fs, csv_text rows)"
    using fields_of_text [of fs "csv_text rows" "[]"] Cons.prems shape by simp
  moreover have "csv_records (csv_text rows) = map Some rows"
    using Cons.prems shape row_text_suffix [of "csv_text rows" fs] by (intro Cons.IH) auto
  ultimately show ?case using t by (subst csv_records.simps) simp
qed

end
