(* ===== verification/Cli.thy ===== *)
theory Cli
  imports Api Migrate Printing Durations Csv
begin

text \<open>
  \<open>src/cmd/sumzero/main.go\<close>: the dispatch of \<open>run\<close>, the commands \<open>migrate\<close>, \<open>serve\<close>, \<open>verify\<close> and \<open>reconcile\<close> with
  what they print and their exit codes, the reading of dates and of the external CSV, and \<open>housekeeping\<close>. Written out from the
  standard library: the parsing of flags (\<open>flag.FlagSet\<close> with \<open>ExitOnError\<close>). The files, the databases and what happens to the
  server while it runs are parameters.
\<close>

section \<open>Flags\<close>

text \<open>A flag with a value, and which values it takes; a switch.\<close>

datatype flag_kind = ValueFlag "string \<Rightarrow> bool" | BoolFlag

abbreviation StringFlag :: flag_kind where
  "StringFlag \<equiv> ValueFlag (\<lambda>_. True)"

datatype flag_error = FlagHelp | BadFlag

definition ParseBool :: "string \<Rightarrow> bool option" where
  "ParseBool s =
     (if s \<in> {''1'', ''t'', ''T'', ''TRUE'', ''true'', ''True''} then Some True
      else if s \<in> {''0'', ''f'', ''F'', ''FALSE'', ''false'', ''False''} then Some False
      else None)"

definition flag_name :: "string \<Rightarrow> string" where
  "flag_name s = (if s ! 1 = CHR ''-'' then drop 2 s else drop 1 s)"

fun parse_flags :: "(string \<Rightarrow> flag_kind option) \<Rightarrow> string list \<Rightarrow> (string \<Rightarrow> string) \<Rightarrow> flag_error + (string \<Rightarrow> string)" where
  "parse_flags formal [] vals = Inr vals"
| "parse_flags formal (s # args) vals =
     (if length s < 2 \<or> hd s \<noteq> CHR ''-'' \<or> s = ''--'' then Inr vals
      else let whole = flag_name s in
        if whole = [] \<or> hd whole = CHR ''-'' \<or> hd whole = CHR ''='' then Inl BadFlag
        else let name = takeWhile (\<lambda>c. c \<noteq> CHR ''='') whole; rest = dropWhile (\<lambda>c. c \<noteq> CHR ''='') whole in
          case formal name of
            None \<Rightarrow> Inl (if name = ''help'' \<or> name = ''h'' then FlagHelp else BadFlag)
          | Some BoolFlag \<Rightarrow>
              (if rest = [] then parse_flags formal args (vals(name := ''true''))
               else case ParseBool (tl rest) of
                      None \<Rightarrow> Inl BadFlag
                    | Some b \<Rightarrow> parse_flags formal args (vals(name := (if b then ''true'' else ''false''))))
          | Some (ValueFlag takes) \<Rightarrow>
              (if rest \<noteq> [] then (if takes (tl rest) then parse_flags formal args (vals(name := tl rest)) else Inl BadFlag)
               else case args of
                      [] \<Rightarrow> Inl BadFlag
                    | v # args' \<Rightarrow> if takes v then parse_flags formal args' (vals(name := v)) else Inl BadFlag))"

section \<open>Dates and the external record\<close>

definition envOr :: "(string \<Rightarrow> string) \<Rightarrow> string \<Rightarrow> string \<Rightarrow> string" where
  "envOr getenv key fallback = (let v = getenv key in if v \<noteq> [] then v else fallback)"

definition parseDate :: "string \<Rightarrow> bool \<Rightarrow> time option" where
  "parseDate s endOfDay =
     (case Parse_RFC3339 s of
        Some t \<Rightarrow> Some t
      | None \<Rightarrow>
          (case Parse_day s of
             None \<Rightarrow> None
           | Some t \<Rightarrow> Some (if endOfDay then t + (24 * 3600 * 1000000000 - 1000) else t)))"

text \<open>The zone of a date: the one it is written in, UTC for a bare day.\<close>

definition zone_of_date :: "string \<Rightarrow> int" where
  "zone_of_date s = (case Parse_RFC3339_zoned s of Some (_, east) \<Rightarrow> east | None \<Rightarrow> 0)"

datatype csv_error = CsvSyntax nat | TooFewFields nat | BadAmount nat | BadDate nat

definition csv_entry :: "string \<Rightarrow> nat \<Rightarrow> string list \<Rightarrow> csv_error + ExternalEntry" where
  "csv_entry currency line rec =
     (if length rec < 2 then Inl (TooFewFields line)
      else case ParseInt (TrimSpace (rec ! 1)) of
             None \<Rightarrow> Inl (BadAmount line)
           | Some amount \<Rightarrow>
               let e = \<lparr>x_reference = TrimSpace (rec ! 0), x_amount = Amount amount currency, x_date = zero_time\<rparr> in
               if 3 \<le> length rec \<and> TrimSpace (rec ! 2) \<noteq> []
               then (case parseDate (TrimSpace (rec ! 2)) False of
                       None \<Rightarrow> Inl (BadDate line)
                     | Some d \<Rightarrow> Inr (e\<lparr>x_date := d\<rparr>))
               else Inr e)"

text \<open>The loop over the records; \<open>None\<close> is a record the reader refuses.\<close>

fun read_rows :: "string \<Rightarrow> nat \<Rightarrow> string list option list \<Rightarrow> ExternalEntry list \<Rightarrow> csv_error + ExternalEntry list" where
  "read_rows currency line [] out = Inr out"
| "read_rows currency line (None # recs) out = Inl (CsvSyntax line)"
| "read_rows currency line (Some rec # recs) out =
     (if line = 1 \<and> EqualFold (TrimSpace (rec ! 0)) ''reference'' then read_rows currency (line + 1) recs out
      else case csv_entry currency line rec of
             Inl e \<Rightarrow> Inl e
           | Inr e \<Rightarrow> read_rows currency (line + 1) recs (out @ [e]))"

definition readExternalCSV :: "string \<Rightarrow> string \<Rightarrow> csv_error + ExternalEntry list" where
  "readExternalCSV written currency = read_rows currency 1 (csv_records written) []"

section \<open>Commands\<close>

text \<open>
  What a command leaves on standard output: text, a report as \<open>encoding/json\<close> renders it, or the log of the server, whose first
  line is the warning of an open API when there is no token. The exit code is 2 when a command returns an
  error; a server that still runs has none.
\<close>

datatype printout =
    Printed string
  | JsonReport Report
  | JsonReconcile ReconcileReport
  | ServerLog bool

type_synonym outcome = "int option \<times> printout"

abbreviation failed :: outcome where
  "failed \<equiv> (Some 2, Printed [])"

definition flag_exit :: "flag_error \<Rightarrow> outcome" where
  "flag_exit e = (Some (case e of FlagHelp \<Rightarrow> 0 | BadFlag \<Rightarrow> 2), Printed [])"

text \<open>
  What happens to a running server, in order: a request, a turn of the housekeeping loop, the listener
  failing, a signal, and the end of \<open>srv.Shutdown\<close>, in time or not.
\<close>

datatype tick = HoldsTick time | SweepTick time

datatype event =
    Request env request
  | Tick tick
  | ListenFailed
  | Signal
  | ShutdownDone bool

text \<open>
  The surroundings: environment variables, databases by connection string, what the statements of \<open>Verify\<close> find
  of one while other connections commit, the content of files by name, the elapsed time of a check as
  text, whether \<open>encoding/json\<close> takes a report (it refuses a time more than 23 hours off UTC), what happens to the server.
\<close>

record 's shell =
  sh_env :: "string \<Rightarrow> string"
  sh_world :: "string \<Rightarrow> world option"
  sh_schema :: "string \<Rightarrow> 's database option"
  sh_sees :: "nat \<Rightarrow> db \<Rightarrow> db"
  sh_file :: "string \<Rightarrow> string option"
  sh_took :: string
  sh_marshal :: "ReconcileReport \<Rightarrow> bool"
  sh_events :: "event list"

definition dsn_default :: "'s shell \<Rightarrow> string \<Rightarrow> string" where
  "dsn_default sh = (\<lambda>_. [])(''dsn'' := sh_env sh ''DATABASE_URL'', ''json'' := ''false'')"

text \<open>\<open>applied NAME\<close> for each file, also when a later one fails.\<close>

definition migrate_text :: "pg_error option \<Rightarrow> string list \<Rightarrow> string" where
  "migrate_text err applied = concat (map (\<lambda>name. ''applied '' @ name @ newline) applied)
     @ (if err = None \<and> applied = [] then ''up to date'' @ newline else [])"

definition migrate_cmd :: "(string \<Rightarrow> string) \<Rightarrow> (string \<Rightarrow> 's \<Rightarrow> (pg_error + unit) \<times> 's) \<Rightarrow> 's shell \<Rightarrow> string list \<Rightarrow> outcome \<times> 's shell" where
  "migrate_cmd text_of exec sh args =
     (case parse_flags [''dsn'' \<mapsto> StringFlag] args (dsn_default sh) of
        Inl e \<Rightarrow> (flag_exit e, sh)
      | Inr vals \<Rightarrow>
          if vals ''dsn'' = [] then (failed, sh)
          else case sh_schema sh (vals ''dsn'') of
                 None \<Rightarrow> (failed, sh)
               | Some d \<Rightarrow>
                   (let (err, applied, d') = Apply embedded text_of exec d in
                    ((Some (case err of None \<Rightarrow> 0 | Some e \<Rightarrow> 2), Printed (migrate_text err applied)),
                     sh\<lparr>sh_schema := (sh_schema sh)(vals ''dsn'' := Some d')\<rparr>)))"

definition verify_at :: "'s shell \<Rightarrow> world \<Rightarrow> (ledger_error + unit) \<times> Report" where
  "verify_at sh w = (let sees = (\<lambda>n. sh_sees sh n (w_db w)) in Verify (sees 0) (sees 1) (sees 2) (sees 3) (sees 4))"

definition verify_formal :: "string \<Rightarrow> flag_kind option" where
  "verify_formal = [''dsn'' \<mapsto> StringFlag, ''json'' \<mapsto> BoolFlag]"

definition verify_cmd :: "'s shell \<Rightarrow> string list \<Rightarrow> outcome" where
  "verify_cmd sh args =
     (case parse_flags verify_formal args (dsn_default sh) of
        Inl e \<Rightarrow> flag_exit e
      | Inr vals \<Rightarrow>
          if vals ''dsn'' = [] then failed
          else case sh_world sh (vals ''dsn'') of
                 None \<Rightarrow> failed
               | Some w \<Rightarrow>
                   (case verify_at sh w of
                      (Inl e, _) \<Rightarrow> failed
                    | (Inr _, report) \<Rightarrow>
                        (Some (if OK report then 0 else 1),
                         if vals ''json'' = ''true'' then JsonReport report else Printed (printReport (sh_took sh) report))))"

definition reconcile_formal :: "string \<Rightarrow> flag_kind option" where
  "reconcile_formal = [''dsn'' \<mapsto> StringFlag, ''account'' \<mapsto> StringFlag, ''file'' \<mapsto> StringFlag, ''from'' \<mapsto> StringFlag,
     ''to'' \<mapsto> StringFlag, ''json'' \<mapsto> BoolFlag]"

text \<open>From the open connection to the report.\<close>

definition reconcile_run :: "db \<Rightarrow> string \<Rightarrow> time \<Rightarrow> time \<Rightarrow> string option \<Rightarrow> ReconcileReport option" where
  "reconcile_run s acc start until file =
     (case Account New acc s of
        (Inl e, _) \<Rightarrow> None
      | (Inr a, s1) \<Rightarrow>
          (case file of
             None \<Rightarrow> None
           | Some written \<Rightarrow>
               (case readExternalCSV written (a_currency a) of
                  Inl e \<Rightarrow> None
                | Inr entries \<Rightarrow>
                    (case Reconcile New acc start until entries s1 of
                       (Inl e, _) \<Rightarrow> None
                     | (Inr report, _) \<Rightarrow> Some report))))"

definition reconcile_cmd :: "'s shell \<Rightarrow> string list \<Rightarrow> outcome" where
  "reconcile_cmd sh args =
     (case parse_flags reconcile_formal args (dsn_default sh) of
        Inl e \<Rightarrow> flag_exit e
      | Inr vals \<Rightarrow>
          if vals ''dsn'' = [] then failed
          else if vals ''account'' = [] \<or> vals ''file'' = [] \<or> vals ''from'' = [] \<or> vals ''to'' = [] then failed
          else case parseDate (vals ''from'') False of
                 None \<Rightarrow> failed
               | Some start \<Rightarrow>
                   (case parseDate (vals ''to'') True of
                      None \<Rightarrow> failed
                    | Some until \<Rightarrow>
                        (case sh_world sh (vals ''dsn'') of
                           None \<Rightarrow> failed
                         | Some w \<Rightarrow>
                             (case reconcile_run (w_db w) (vals ''account'') start until (sh_file sh (vals ''file'')) of
                                None \<Rightarrow> failed
                              | Some report \<Rightarrow>
                                  if vals ''json'' = ''true'' \<and> \<not> sh_marshal sh report then failed
                                  else (Some (if Clean report then 0 else 1),
                                        if vals ''json'' = ''true'' then JsonReconcile report
                                        else Printed (printReconcile (zone_of_date (vals ''from'')) (zone_of_date (vals ''to''))
                                                        report))))))"

section \<open>The server\<close>

text \<open>One turn of the housekeeping loop: the tick of one of the two tickers, at the database's clock.\<close>

definition housekeep :: "tick \<Rightarrow> world \<Rightarrow> world" where
  "housekeep t w =
     (case t of
        HoldsTick now \<Rightarrow> w\<lparr>w_db := snd (ExpireHolds New now (w_db w))\<rparr>
      | SweepTick now \<Rightarrow> w\<lparr>w_keys := snd (Sweep now (w_keys w))\<rparr>)"

text \<open>
  The last part of \<open>serve\<close>. After the signal the context of \<open>housekeeping\<close> is cancelled: a tick its \<open>select\<close> may still pick runs its
  statement with a cancelled context, which fails before it reaches the database, so it changes nothing. The requests in flight are
  finished until \<open>Shutdown\<close> returns. \<open>keyed\<close> is the idempotency middleware, at the clocks of the request.
\<close>

fun shutting_down :: "(env \<Rightarrow> handler \<Rightarrow> handler) \<Rightarrow> string \<Rightarrow> event list \<Rightarrow> world \<Rightarrow> int option \<times> world" where
  "shutting_down keyed token [] w = (None, w)"
| "shutting_down keyed token (Request env r # es) w =
     shutting_down keyed token es (snd (New_handler env token (keyed env) r w))"
| "shutting_down keyed token (ShutdownDone in_time # es) w = (Some (if in_time then 0 else 2), w)"
| "shutting_down keyed token (Tick t # es) w = shutting_down keyed token es w"
| "shutting_down keyed token (ListenFailed # es) w = shutting_down keyed token es w"
| "shutting_down keyed token (Signal # es) w = shutting_down keyed token es w"

fun serving :: "(env \<Rightarrow> handler \<Rightarrow> handler) \<Rightarrow> string \<Rightarrow> event list \<Rightarrow> world \<Rightarrow> int option \<times> world" where
  "serving keyed token [] w = (None, w)"
| "serving keyed token (Request env r # es) w =
     serving keyed token es (snd (New_handler env token (keyed env) r w))"
| "serving keyed token (Tick t # es) w = serving keyed token es (housekeep t w)"
| "serving keyed token (ListenFailed # es) w = (Some 2, w)"
| "serving keyed token (Signal # es) w = shutting_down keyed token es w"
| "serving keyed token (ShutdownDone in_time # es) w = serving keyed token es w"

definition serve_formal :: "string \<Rightarrow> flag_kind option" where
  "serve_formal = [''dsn'' \<mapsto> StringFlag, ''addr'' \<mapsto> StringFlag,
     ''idempotency-ttl'' \<mapsto> ValueFlag (\<lambda>s. ParseDuration s \<noteq> None), ''token'' \<mapsto> StringFlag]"

definition serve_default :: "'s shell \<Rightarrow> string \<Rightarrow> string" where
  "serve_default sh = (dsn_default sh)(''addr'' := envOr (sh_env sh) ''SUMZERO_ADDR'' '':8080'', ''idempotency-ttl'' := ''24h0m0s'',
     ''token'' := sh_env sh ''SUMZERO_API_TOKEN'')"

text \<open>The default of the flag is the Go value \<open>24*time.Hour\<close>, here the text that stands for it.\<close>

lemma default_ttl_flag: "ParseDuration (serve_default sh ''idempotency-ttl'') = Some default_ttl"
proof -
  have "ParseDuration ''24h0m0s'' = Some default_ttl"
    by (simp add: ParseDuration_def duration_sum.simps duration_term_def duration_number_def in_unit_def unitMap_def
        is_digit_def digit_val_def default_ttl_def Let_def)
  then show ?thesis by (simp add: serve_default_def)
qed

text \<open>\<open>middleware ttl\<close> is go-idempotent's on a store that keeps responses for \<open>ttl\<close>.\<close>

definition serve_cmd :: "(int \<Rightarrow> env \<Rightarrow> handler \<Rightarrow> handler) \<Rightarrow> 's shell \<Rightarrow> string list \<Rightarrow> outcome \<times> 's shell" where
  "serve_cmd middleware sh args =
     (case parse_flags serve_formal args (serve_default sh) of
        Inl e \<Rightarrow> (flag_exit e, sh)
      | Inr vals \<Rightarrow>
          if vals ''dsn'' = [] then (failed, sh)
          else case sh_world sh (vals ''dsn'') of
                 None \<Rightarrow> (failed, sh)
               | Some w \<Rightarrow>
                   (let ttl = (case ParseDuration (vals ''idempotency-ttl'') of None \<Rightarrow> 0 | Some d \<Rightarrow> d);
                        (code, w') = serving (middleware (NewIdempotencyStore ttl)) (vals ''token'') (sh_events sh) w
                    in ((code, ServerLog (vals ''token'' = [])),
                        sh\<lparr>sh_world := (sh_world sh)(vals ''dsn'' := Some w')\<rparr>)))"

section \<open>Dispatch\<close>

definition run :: "(int \<Rightarrow> env \<Rightarrow> handler \<Rightarrow> handler) \<Rightarrow> (string \<Rightarrow> string) \<Rightarrow> (string \<Rightarrow> 's \<Rightarrow> (pg_error + unit) \<times> 's) \<Rightarrow>
    's shell \<Rightarrow> string list \<Rightarrow> outcome \<times> 's shell" where
  "run middleware text_of exec sh args =
     (case args of
        [] \<Rightarrow> ((Some 0, Printed usage), sh)
      | cmd # rest \<Rightarrow>
          if cmd = ''migrate'' then migrate_cmd text_of exec sh rest
          else if cmd = ''serve'' then serve_cmd middleware sh rest
          else if cmd = ''verify'' then (verify_cmd sh rest, sh)
          else if cmd = ''reconcile'' then (reconcile_cmd sh rest, sh)
          else if cmd = ''-h'' \<or> cmd = ''--help'' \<or> cmd = ''help'' then ((Some 0, Printed usage), sh)
          else (failed, sh))"

end
