(* ===== verification/Operator.thy ===== *)
theory Operator
  imports Api_Facts Cli Sample
begin

text \<open>
  What the command promises to whoever runs it: which instants a window of days covers, that an external record
  is read as it was written, and what an exit code of \<open>sumzero verify\<close> means.
\<close>

section \<open>Windows of days\<close>

lemma Parse_day_not_RFC3339: "Parse_day s = Some t \<Longrightarrow> Parse_RFC3339 s = None"
  by (auto simp: Parse_day_def Parse_RFC3339_def Parse_RFC3339_zoned_def expect_def split: bind_splits if_splits)

lemma parseDate_day:
  assumes "Parse_day s = Some t"
  shows "parseDate s e = Some (if e then t + (day_nanos - 1000) else t)"
  using assms Parse_day_not_RFC3339 [OF assms] by (simp add: parseDate_def day_nanos_def)

lemma day_micros: "(1000 :: int) dvd day_nanos" "0 < day_nanos"
  by (simp_all add: day_nanos_def)

lemma same_day:
  assumes "a mod day_nanos = 0"
  shows "a \<le> t \<longleftrightarrow> a div day_nanos \<le> t div day_nanos"
proof
  assume "a div day_nanos \<le> t div day_nanos"
  then have "a div day_nanos * day_nanos \<le> t div day_nanos * day_nanos"
    using day_micros(2) by (intro mult_right_mono) simp_all
  also have "\<dots> \<le> t" using day_micros(2) pos_mod_sign [of day_nanos t] div_mult_mod_eq [of t day_nanos] by linarith
  finally show "a \<le> t" using assms div_mult_mod_eq [of a day_nanos] by simp
qed (use day_micros(2) in \<open>simp add: zdiv_mono1\<close>)

lemma end_of_day:
  assumes "b mod day_nanos = 0" "t mod 1000 = 0"
  shows "t \<le> b + (day_nanos - 1000) \<longleftrightarrow> t div day_nanos \<le> b div day_nanos"
proof -
  have "(1000 :: int) dvd b + day_nanos - t"
    using assms day_micros(1) by (auto simp: mod_eq_0_iff_dvd intro!: dvd_diff dvd_add intro: dvd_trans)
  then obtain k where k: "b + day_nanos - t = 1000 * k" by (rule dvdE)
  have next_day: "(b + day_nanos) mod day_nanos = 0" "(b + day_nanos) div day_nanos = b div day_nanos + 1"
    using assms(1) day_micros(2) div_add_self2 [of day_nanos b] by simp_all
  have "t \<le> b + (day_nanos - 1000) \<longleftrightarrow> \<not> b + day_nanos \<le> t" using k by (cases "k \<le> 0") auto
  then show ?thesis using same_day [OF next_day(1), of t] next_day(2) by linarith
qed

lemma whole_micros: "t mod 1000 = 0 \<Longrightarrow> Truncate_us t = t"
  by (simp add: Truncate_us_def)

lemma zone_of_day: "Parse_day s = Some t \<Longrightarrow> zone_of_date s = 0"
  using Parse_day_not_RFC3339 [of s t] by (simp add: zone_of_date_def Parse_RFC3339_def)

text \<open>
  C35: A reconciliation window given as bare days covers those days and nothing else: with \<open>--from\<close> and
  \<open>--to\<close> as \<open>YYYY-MM-DD\<close>, an instant as Postgres stores it, a whole microsecond, lies in the window exactly when its UTC
  day is between the two days, both included. The report's first line prints the two days as they were given.
\<close>

theorem day_window:
  assumes "Parse_day f = Some a" "Parse_day u = Some b"
  shows "\<exists>lo hi. parseDate f False = Some lo \<and> parseDate u True = Some hi
    \<and> (\<forall>t. t mod 1000 = 0 \<longrightarrow> (Truncate_us lo \<le> t \<and> t \<le> Truncate_us hi
        \<longleftrightarrow> a div day_nanos \<le> t div day_nanos \<and> t div day_nanos \<le> b div day_nanos))
    \<and> Format_day (zone_of_date f) (Truncate_us lo) = f \<and> Format_day (zone_of_date u) (Truncate_us hi) = u"
proof -
  have days: "a mod day_nanos = 0" "b mod day_nanos = 0"
    using assms Parse_day_multiple by auto
  then have "(1000 :: int) dvd a" "1000 dvd b + (day_nanos - 1000)"
    using day_micros(1) by (auto simp: mod_eq_0_iff_dvd intro: dvd_trans)
  then have micros: "Truncate_us a = a" "Truncate_us (b + (day_nanos - 1000)) = b + (day_nanos - 1000)"
    by (simp_all add: whole_micros)
  have "Format_day 0 a = f" using Parse_day_text [OF assms(1), of 0] day_micros(2) by simp
  moreover have "Format_day 0 (b + (day_nanos - 1000)) = u"
    by (rule Parse_day_text [OF assms(2)]) (simp_all add: day_nanos_def)
  ultimately show ?thesis
    using same_day [OF days(1)] end_of_day [OF days(2)] micros
    by (simp add: parseDate_day [OF assms(1)] parseDate_day [OF assms(2)] zone_of_day [OF assms(1)] zone_of_day [OF assms(2)])
qed

theorem day_window_witness:
  "\<exists>lo hi. parseDate ''2023-11-14'' False = Some lo \<and> parseDate ''2023-11-14'' True = Some hi
    \<and> (\<forall>t. t mod 1000 = 0 \<longrightarrow> (Truncate_us lo \<le> t \<and> t \<le> Truncate_us hi
        \<longleftrightarrow> (19675 * day_nanos) div day_nanos \<le> t div day_nanos \<and> t div day_nanos \<le> (19675 * day_nanos) div day_nanos))
    \<and> Format_day (zone_of_date ''2023-11-14'') (Truncate_us lo) = ''2023-11-14''
    \<and> Format_day (zone_of_date ''2023-11-14'') (Truncate_us hi) = ''2023-11-14''"
  by (rule day_window) (rule parse_day_sample)+

section \<open>The external record\<close>

definition csv_row :: "ExternalEntry \<Rightarrow> string list" where
  "csv_row e = [x_reference e, FormatInt (m_amount (x_amount e))]"

definition no_outer_space :: "string \<Rightarrow> bool" where
  "no_outer_space s \<longleftrightarrow> TrimSpace s = s"

lemma FormatInt_chars: "c \<in> set (FormatInt n) \<Longrightarrow> is_digit c \<or> c = CHR ''-''"
  using format_nat_digits by (auto simp: FormatInt_def split: if_splits)

lemma FormatInt_not_space: "TrimSpace (FormatInt n) = FormatInt n"
  by (rule TrimSpace_printable) (auto simp: is_digit_def dest!: FormatInt_chars)

lemma FormatInt_no_CR: "CR \<notin> set (FormatInt n)"
  using FormatInt_chars [of CR n] by (auto simp: is_digit_def)

lemma csv_entry_row:
  assumes "no_outer_space (x_reference e)" "m_currency (x_amount e) = cur" "x_date e = zero_time"
  shows "csv_entry cur line (csv_row e) = Inr e"
  using assms
  by (simp add: csv_entry_def csv_row_def no_outer_space_def FormatInt_not_space ParseInt_FormatInt_raw Amount_def Let_def)

lemma read_rows_entries:
  assumes "\<forall>e \<in> set es. no_outer_space (x_reference e) \<and> m_currency (x_amount e) = cur \<and> x_date e = zero_time" "1 < line"
  shows "read_rows cur line (map (\<lambda>e. Some (csv_row e)) es) out = Inr (out @ es)"
  using assms by (induction es arbitrary: line out) (simp_all add: csv_entry_row)

lemma csv_text_chars:
  assumes "\<forall>fs \<in> set rows. \<forall>f \<in> set fs. CR \<notin> set f"
  shows "CR \<notin> set (csv_text rows)"
proof -
  have "CR \<notin> set (doubled f)" if "CR \<notin> set f" for f using that by (auto simp: doubled_def split: if_splits)
  then have row: "CR \<notin> set (row_text fs u)" if "\<forall>f \<in> set fs. CR \<notin> set f" "CR \<notin> set u" for fs u
    using that by (induction fs u rule: row_text.induct) auto
  show ?thesis using assms by (induction rows) (simp_all add: csv_text_def row)
qed

text \<open>
  \<open>readExternalCSV\<close> reads back what was written: a header and one quoted row of reference and amount per entry give
  exactly the entries, in order, whatever commas, quotes or line feeds the references hold, and every amount to the
  last of its 64 bits.
\<close>

lemma external_csv_roundtrip:
  assumes "\<forall>e \<in> set es. no_outer_space (x_reference e) \<and> CR \<notin> set (x_reference e)
    \<and> m_currency (x_amount e) = cur \<and> x_date e = zero_time"
  shows "readExternalCSV (csv_text ([''Reference'', ''amount''] # map csv_row es)) cur = Inr es"
proof -
  have "TrimSpace ''Reference'' = ''Reference''" by (rule TrimSpace_printable) simp
  then have header: "EqualFold (TrimSpace ''Reference'') ''reference''" by (simp add: EqualFold_def) code_simp
  have "csv_records (csv_text ([''Reference'', ''amount''] # map csv_row es)) = map Some ([''Reference'', ''amount''] # map csv_row es)"
    by (intro csv_records_text csv_text_chars) (use assms FormatInt_no_CR in \<open>auto simp: csv_row_def\<close>)
  then show ?thesis
    using read_rows_entries [of es cur 2 "[]"] assms header
    by (simp add: readExternalCSV_def numeral_2_eq_2 comp_def)
qed

lemma external_csv_sample:
  "readExternalCSV (csv_text ([''Reference'', ''amount''] #
     map csv_row [\<lparr>x_reference = ''sale-1'', x_amount = Amount 500 ''EUR'', x_date = zero_time\<rparr>])) ''EUR''
   = Inr [\<lparr>x_reference = ''sale-1'', x_amount = Amount 500 ''EUR'', x_date = zero_time\<rparr>]"
proof (rule external_csv_roundtrip)
  have "no_outer_space ''sale-1''" unfolding no_outer_space_def by (rule TrimSpace_printable) simp
  then show "\<forall>e \<in> set [\<lparr>x_reference = ''sale-1'', x_amount = Amount 500 ''EUR'', x_date = zero_time\<rparr>].
      no_outer_space (x_reference e) \<and> CR \<notin> set (x_reference e) \<and> m_currency (x_amount e) = ''EUR'' \<and> x_date e = zero_time"
    by (simp add: Amount_def)
qed

text \<open>
  The line in its errors is the number of the record: behind two empty lines, the record on the third line is reported as line 1.
\<close>

lemma csv_error_line_counts_records:
  "readExternalCSV ([LF, LF] @ ''sale-1'' @ [LF]) ''EUR'' = Inl (TooFewFields 1)"
proof -
  have "trim_with space_runes (''sale-1'' @ [LF]) = ''sale-1'' @ [LF]"
    by (rule trim_with_id) (use space_bytes in fastforce)
  moreover have "TrimSpace ''sale-1'' = ''sale-1''" by (rule TrimSpace_printable) simp
  ultimately show ?thesis
    by (simp add: readExternalCSV_def csv_records.simps readLine_def fields_of.simps EqualFold_def ascii_lower_def csv_entry_def)
qed

section \<open>Exit codes\<close>

lemma shutting_down_codes: "fst (shutting_down keyed token es w) \<in> {None, Some 0, Some 2}"
  by (induction keyed token es w rule: shutting_down.induct) auto

lemma serving_codes: "fst (serving keyed token es w) \<in> {None, Some 0, Some 2}"
  using shutting_down_codes by (induction keyed token es w rule: serving.induct) auto

lemma verify_report_Inr:
  assumes "\<forall>n. reachable (sh_sees sh n (w_db w)) \<and> all_small (sh_sees sh n (w_db w))"
  shows "\<exists>rep. verify_at sh w = (Inr (), rep) \<and> OK rep"
  using Verify_sound assms by (simp add: verify_at_def Let_def OK_def)

text \<open>What is on standard output is a report on a database of the surroundings, as text or as JSON.\<close>

definition verify_report :: "'s shell \<Rightarrow> printout \<Rightarrow> Report \<Rightarrow> bool" where
  "verify_report sh out r \<longleftrightarrow>
     (\<exists>dsn w. sh_world sh dsn = Some w \<and> verify_at sh w = (Inr (), r))
     \<and> (out = Printed (printReport (sh_took sh) r) \<or> out = JsonReport r)"

definition reconcile_report :: "'s shell \<Rightarrow> printout \<Rightarrow> ReconcileReport \<Rightarrow> bool" where
  "reconcile_report sh out r \<longleftrightarrow>
     (\<exists>dsn w acc start until entries s. sh_world sh dsn = Some w \<and> Reconcile New acc start until entries (w_db w) = (Inr r, s))
     \<and> ((\<exists>from_east to_east. out = Printed (printReconcile from_east to_east r)) \<or> out = JsonReconcile r)"

text \<open>A check ends in one of three ways: no complaint, a report that complains, or no report.\<close>

definition check_exit :: "(printout \<Rightarrow> 'r \<Rightarrow> bool) \<Rightarrow> ('r \<Rightarrow> bool) \<Rightarrow> outcome \<Rightarrow> bool" where
  "check_exit reports good oc \<longleftrightarrow>
     (fst oc = Some 0 \<and> (snd oc = Printed [] \<or> (\<exists>r. reports (snd oc) r \<and> good r)))
     \<or> (fst oc = Some 1 \<and> (\<exists>r. reports (snd oc) r \<and> \<not> good r))
     \<or> oc = (Some 2, Printed [])"

lemma flag_exit_check: "check_exit reports good (flag_exit e)"
  by (cases e) (simp_all add: flag_exit_def check_exit_def)

lemma failed_check: "check_exit reports good failed"
  by (simp add: check_exit_def)

lemma report_check:
  "reports out r \<Longrightarrow> good r \<Longrightarrow> check_exit reports good (Some 0, out)"
  "reports out r \<Longrightarrow> \<not> good r \<Longrightarrow> check_exit reports good (Some 1, out)"
  by (auto simp: check_exit_def)

lemma verify_reportI:
  assumes "sh_world sh dsn = Some w" "verify_at sh w = (Inr (), r)"
  shows "verify_report sh (JsonReport r) r" "verify_report sh (Printed (printReport (sh_took sh) r)) r"
  using assms by (auto simp: verify_report_def)

lemma verify_cmd_check: "check_exit (verify_report sh) OK (verify_cmd sh args)"
  unfolding verify_cmd_def
  by (auto simp: flag_exit_check failed_check split: sum.split option.split prod.split intro: report_check verify_reportI)

lemma Account_same: "Account l acc s = (v, s') \<Longrightarrow> s' = s"
  using same_Account [of s l acc] by (simp add: keeps_def)

lemma reconcile_run_report:
  assumes "reconcile_run s acc start until file = Some r"
  shows "\<exists>entries s'. Reconcile New acc start until entries s = (Inr r, s')"
  using assms by (auto simp: reconcile_run_def dest!: Account_same split: sum.splits option.splits prod.splits)

lemma reconcile_reportI:
  assumes "sh_world sh dsn = Some w" "reconcile_run (w_db w) acc start until file = Some r"
  shows "reconcile_report sh (JsonReconcile r) r" "reconcile_report sh (Printed (printReconcile from_east to_east r)) r"
  using assms(1) reconcile_run_report [OF assms(2)] unfolding reconcile_report_def by blast+

lemma reconcile_cmd_check: "check_exit (reconcile_report sh) Clean (reconcile_cmd sh args)"
  unfolding reconcile_cmd_def
  by (auto simp: flag_exit_check failed_check split: sum.split option.split intro: report_check reconcile_reportI)

lemma migrate_code: "fst (fst (migrate_cmd text_of exec sh args)) \<in> {Some 0, Some 2}"
  by (auto simp: migrate_cmd_def flag_exit_def split: sum.split option.split flag_error.split prod.split)

lemma serve_code: "fst (fst (serve_cmd middleware sh args)) \<in> {None, Some 0, Some 2}"
proof (cases "parse_flags serve_formal args (serve_default sh)")
  case (Inl e)
  then show ?thesis by (cases e) (simp_all add: serve_cmd_def flag_exit_def)
next
  case (Inr vals)
  show ?thesis
  proof (cases "vals ''dsn'' = [] \<or> sh_world sh (vals ''dsn'') = None")
    case True
    with Inr show ?thesis by (auto simp: serve_cmd_def split: option.split)
  next
    case False
    then obtain w where "sh_world sh (vals ''dsn'') = Some w" by auto
    with Inr False show ?thesis
      using serving_codes by (simp add: serve_cmd_def Let_def case_prod_unfold del: insert_iff)
  qed
qed

lemma run_simps:
  "run middleware text_of exec sh (''migrate'' # args) = migrate_cmd text_of exec sh args"
  "run middleware text_of exec sh (''serve'' # args) = serve_cmd middleware sh args"
  "run middleware text_of exec sh (''verify'' # args) = (verify_cmd sh args, sh)"
  "run middleware text_of exec sh (''reconcile'' # args) = (reconcile_cmd sh args, sh)"
  by (simp_all add: run_def)

lemma run_other:
  assumes "cmd \<notin> {''migrate'', ''serve'', ''verify'', ''reconcile''}"
  shows "run middleware text_of exec sh (cmd # args) = ((Some 0, Printed usage), sh)
    \<or> run middleware text_of exec sh (cmd # args) = (failed, sh)"
proof -
  have "cmd \<noteq> ''migrate'' \<and> cmd \<noteq> ''serve'' \<and> cmd \<noteq> ''verify'' \<and> cmd \<noteq> ''reconcile''" using assms by blast
  then show ?thesis
    by (cases "cmd = ''-h'' \<or> cmd = ''--help'' \<or> cmd = ''help''") (simp_all add: run_def)
qed

lemma run_keeps_worlds:
  assumes "cmd \<noteq> ''serve''"
  shows "sh_world (snd (run middleware text_of exec sh (cmd # args))) = sh_world sh"
proof -
  have "sh_world (snd (migrate_cmd text_of exec sh args)) = sh_world sh"
    by (auto simp: migrate_cmd_def split: sum.split option.split prod.split)
  then show ?thesis using assms by (simp add: run_def)
qed

text \<open>
  C36: What an exit code means. \<open>sumzero verify\<close> and \<open>sumzero reconcile\<close> change no database and end in one of three ways: code 0
  with a report that has no complaint (or, asked for help, with nothing), code 1 with a report that has one, code 2 with no
  report at all. \<open>verify\<close> exits 1 on no ledger this program has written in which no transfer moves \<open>2^63\<close> minor
  units or more, whatever other connections commit between its statements. No other command exits 1, and only \<open>serve\<close> goes on without an exit code.
\<close>

theorem exit_codes:
  assumes "run middleware text_of exec sh (cmd # args) = (oc, sh')"
  shows "(cmd = ''verify'' \<longrightarrow> sh' = sh \<and> check_exit (verify_report sh) OK oc
        \<and> ((\<forall>dsn w. sh_world sh dsn = Some w \<longrightarrow> (\<forall>n. reachable (sh_sees sh n (w_db w)) \<and> all_small (sh_sees sh n (w_db w)))) \<longrightarrow> fst oc \<noteq> Some 1))
    \<and> (cmd = ''reconcile'' \<longrightarrow> sh' = sh \<and> check_exit (reconcile_report sh) Clean oc)
    \<and> (cmd \<noteq> ''verify'' \<and> cmd \<noteq> ''reconcile'' \<longrightarrow> fst oc \<in> {None, Some 0, Some 2})
    \<and> (fst oc = None \<longrightarrow> cmd = ''serve'')"
proof -
  have verify: "fst (verify_cmd sh args) \<noteq> Some 1" if "\<forall>dsn w. sh_world sh dsn = Some w \<longrightarrow> (\<forall>n. reachable (sh_sees sh n (w_db w)) \<and> all_small (sh_sees sh n (w_db w)))"
  proof
    assume "fst (verify_cmd sh args) = Some 1"
    then obtain r where "verify_report sh (snd (verify_cmd sh args)) r" "\<not> OK r"
      using verify_cmd_check [of sh args] by (auto simp: check_exit_def)
    with that verify_report_Inr show False by (fastforce simp: verify_report_def)
  qed
  have checked: "fst (verify_cmd sh args) \<noteq> None" "fst (reconcile_cmd sh args) \<noteq> None"
    using verify_cmd_check [of sh args] reconcile_cmd_check [of sh args] by (auto simp: check_exit_def)
  note migrate = migrate_code [of text_of exec sh args] and serve = serve_code [of middleware sh args]
  consider "cmd = ''migrate''" | "cmd = ''serve''" | "cmd = ''verify''" | "cmd = ''reconcile''"
    | "cmd \<notin> {''migrate'', ''serve'', ''verify'', ''reconcile''}" by blast
  then show ?thesis
  proof cases
    case 1
    with assms run_simps(1) [of middleware text_of exec sh args] have "oc = fst (migrate_cmd text_of exec sh args)" by simp
    with 1 migrate show ?thesis by (elim insertE) simp_all
  next
    case 2
    with assms run_simps(2) [of middleware text_of exec sh args] have "oc = fst (serve_cmd middleware sh args)" by simp
    with 2 serve show ?thesis by simp
  next
    case 3
    with assms have "(verify_cmd sh args, sh) = (oc, sh')" by (simp only: run_simps)
    then have "oc = verify_cmd sh args" "sh' = sh" by blast+
    with 3 verify verify_cmd_check [of sh args] checked(1) show ?thesis by simp
  next
    case 4
    with assms have "(reconcile_cmd sh args, sh) = (oc, sh')" by (simp only: run_simps)
    then have "oc = reconcile_cmd sh args" "sh' = sh" by blast+
    with 4 reconcile_cmd_check [of sh args] checked(2) show ?thesis by simp
  next
    case 5
    with assms run_other [of cmd middleware text_of exec sh args] have "fst oc \<in> {Some 0, Some 2}" by force
    with 5 show ?thesis by (elim insertE) simp_all
  qed
qed

definition sample_shell :: "unit shell" where
  "sample_shell = \<lparr>sh_env = (\<lambda>k. if k = ''DATABASE_URL'' then ''postgres://sold'' else []),
     sh_world = [''postgres://sold'' \<mapsto> \<lparr>w_db = sold_db, w_keys = [], w_log = []\<rparr>], sh_schema = (\<lambda>_. None),
     sh_sees = (\<lambda>n s. s), sh_file = (\<lambda>_. None), sh_took = ''12ms'', sh_marshal = (\<lambda>_. True), sh_events = []\<rparr>"

text \<open>On the sample ledger the check runs, finds nothing and exits 0.\<close>

theorem exit_codes_witness:
  "fst (fst (run (\<lambda>ttl env h. h) (\<lambda>n. n) (\<lambda>sql s. (Inr (), s)) sample_shell [''verify'', ''--json''])) = Some 0"
proof -
  let ?oc = "verify_cmd sample_shell [''--json'']"
  have run: "run (\<lambda>ttl env h. h) (\<lambda>n. n) (\<lambda>sql s. (Inr (), s)) sample_shell (''verify'' # [''--json'']) = (?oc, sample_shell)"
    by (rule run_simps(3))
  have "reachable sold_db \<and> all_small sold_db" using reachable_sold_db all_small_sold by blast
  then have "fst ?oc \<noteq> Some 1"
    using exit_codes [OF run] by (simp add: sample_shell_def)
  moreover have "\<exists>r. ?oc = (Some (if OK r then 0 else 1), JsonReport r)"
  proof -
    obtain r where "Verify sold_db sold_db sold_db sold_db sold_db = (Inr (), r)"
      using Verify_sound [OF reachable_sold_db reachable_sold_db reachable_sold_db reachable_sold_db reachable_sold_db] all_small_sold by blast
    then show ?thesis
      by (simp add: verify_cmd_def verify_at_def verify_formal_def dsn_default_def sample_shell_def flag_name_def)
  qed
  ultimately show ?thesis by (auto simp: run split: if_splits)
qed

end
