(* ===== verification/Service.thy ===== *)
theory Service
  imports Api_Facts Operator Sample
begin

text \<open>
  The properties of the served ledger: what a client or an operator may rely on, whatever the requests. The
  sample requests run the sample ledger through the router and a key-replaying middleware built on the
  idempotency store.
\<close>

section \<open>A sample service\<close>

definition sample_env :: env where
  "sample_env = \<lparr>ev_now = noon, ev_post_now = noon, ev_pg_now = noon, ev_text = (\<lambda>_. []), ev_json_text = (\<lambda>_. []), ev_ping = True, ev_sees = (\<lambda>n s. s)\<rparr>"

text \<open>A middleware in the documented manner: the first request of a key runs, its response is kept for the next.\<close>

definition replaying :: "time \<Rightarrow> handler \<Rightarrow> handler" where
  "replaying now h r w =
     (let key = rq_header r IdempotencyHeader in
      case Begin default_ttl now key (w_keys w) of
        (Begun, ks) \<Rightarrow>
          (let (res, w') = h r (w\<lparr>w_keys := ks\<rparr>) in
           (res, w'\<lparr>w_keys := Complete key \<lparr>ie_fingerprint = [], ie_status = rs_status res, ie_header = rs_header res, ie_body = []\<rparr>
                      (w_keys w')\<rparr>))
      | (InFlight, ks) \<Rightarrow> (writeErrorCode 409 ''in_flight'' [], w\<lparr>w_keys := ks\<rparr>)
      | (Completed e, ks) \<Rightarrow> (\<lparr>rs_status = ie_status e, rs_header = ie_header e, rs_body = RawBody (ie_body e)\<rparr>, w\<lparr>w_keys := ks\<rparr>))"

lemma replaying_once: "runs_at_most_once (replaying now)"
  unfolding runs_at_most_once_def
proof (intro allI impI)
  fix h r w res w' assume run: "replaying now h r w = (res, w')"
  obtain b ks where b: "Begin default_ttl now (rq_header r IdempotencyHeader) (w_keys w) = (b, ks)" by fastforce
  obtain res1 w2 where h: "h r (w\<lparr>w_keys := ks\<rparr>) = (res1, w2)" by fastforce
  show "\<exists>w1 w2 res'. w_db w1 = w_db w \<and> w_log w1 = w_log w \<and> (w2 = w1 \<or> h r w1 = (res', w2))
        \<and> w_db w' = w_db w2 \<and> w_log w' = w_log w2"
  proof (cases b)
    case Begun
    with run b h have "w_db w' = w_db w2" "w_log w' = w_log w2" by (auto simp: replaying_def Let_def)
    with h show ?thesis by (intro exI [of _ "w\<lparr>w_keys := ks\<rparr>"] exI [of _ w2] exI [of _ res1]) simp
  next
    case InFlight
    with run b show ?thesis by (intro exI [of _ w]) (auto simp: replaying_def Let_def)
  next
    case (Completed e)
    with run b show ?thesis by (intro exI [of _ w]) (auto simp: replaying_def Let_def)
  qed
qed

definition sale_request :: request where
  "sale_request = \<lparr>rq_method = ''POST'', rq_segments = [''v1'', ''transfers''], rq_query = [],
     rq_header = (\<lambda>h. if h = IdempotencyHeader then ''k-1'' else if h = ''Authorization'' then ''Bearer t0k3n'' else []),
     rq_body = Some (transfer_json sale), rq_values = []\<rparr>"

definition opened_world :: world where
  "opened_world = \<lparr>w_db = opened_db, w_keys = [], w_log = []\<rparr>"

lemma transfer_of_sale_request:
  "transfer_of_request \<lparr>tq_reference = t_reference sale, tq_description = t_description sale, tq_posted_at = None,
     tq_postings = t_postings sale\<rparr> = sale"
  by (simp add: transfer_of_request_def sale_def)

lemma postTransfer_sale:
  assumes "rq_body r = Some (transfer_json sale)" "w_db w = opened_db"
  shows "postTransfer sample_env r w = (writeJSON 201 (TransferBody 1 posted_sale), w\<lparr>w_db := sold_db\<rparr>)"
  using assms
  by (simp add: postTransfer_def decode_def decode_transfer_json answer_def transfer_of_sale_request sample_env_def Post_sale)

section \<open>Error responses\<close>

text \<open>
  C27: Every sentinel of the ledger has its own status, a client error, and its own code, and its message is passed on. Any
  other error is answered 500 with a fixed code and text, so nothing of the database's message
  reaches the client; these are exactly the errors that are logged.
\<close>

theorem error_response:
  "writeError msg_of err =
     (if isInternal err then writeJSON 500 (ErrorBody ''internal'' ''internal error'')
      else writeJSON (fst (status_in statusOf err)) (ErrorBody (snd (status_in statusOf err)) (msg_of err)))
   \<and> (if isInternal err then err = ScanOutOfRange \<or> (\<exists>e. err = DbError e)
      else fst (status_in statusOf err) \<in> {400, 404, 409, 422}
        \<and> {e. \<not> isInternal e \<and> snd (status_in statusOf e) = snd (status_in statusOf err)} = {err})"
proof -
  have codes: "{e. \<not> isInternal e \<and> snd (status_in statusOf e) = snd (status_in statusOf err)} = {err}"
    if "\<not> isInternal err"
    using that status_code_inj by blast
  have status: "fst (status_in statusOf err) \<in> {400, 404, 409, 422}" if "\<not> isInternal err"
    using statusOf_statuses [OF status_in_sentinel [OF that]] by simp
  have hidden: "fst (status_in statusOf err) = 500 \<longleftrightarrow> isInternal err"
    using status status_in_internal [of err] by force
  show ?thesis
  proof (cases "isInternal err")
    case True
    then show ?thesis
      using isInternal_cases [of err] status_in_internal [of err] by (simp add: writeError_def)
  next
    case False
    then show ?thesis
      using codes status hidden by (simp add: writeError_def case_prod_unfold Let_def)
  qed
qed

section \<open>The served ledger is a ledger\<close>

text \<open>
  The service at work: requests, each with its own clocks, interleaved with turns of the housekeeping loop.
\<close>

inductive service_step :: "(env \<Rightarrow> handler \<Rightarrow> handler) \<Rightarrow> string \<Rightarrow> world \<Rightarrow> world \<Rightarrow> bool" for keyed token where
  request: "New_handler env token (keyed env) r w = (res, w') \<Longrightarrow> service_step keyed token w w'"
| tick: "service_step keyed token w (housekeep t w)"

lemma housekeep_steps: "ledger_step\<^sup>*\<^sup>* (w_db w) (w_db (housekeep t w))"
proof (cases t)
  case (HoldsTick now)
  have "ledger_step (w_db w) (snd (ExpireHolds New now (w_db w)))"
    by (rule step_expire) (rule prod.collapse [symmetric])
  with HoldsTick show ?thesis by (simp add: housekeep_def)
qed (simp add: housekeep_def)

lemma service_step_lawful:
  assumes "\<forall>env. runs_at_most_once (keyed env)" "service_step keyed token w w'"
  shows "ledger_step\<^sup>*\<^sup>* (w_db w) (w_db w')"
  using assms(2)
proof cases
  case (request env r res)
  from lawful.staysD [OF New_lawful [OF assms(1) [rule_format]] TrueI request] show ?thesis by (simp add: same_or_steps_def)
next
  case (tick t)
  with housekeep_steps show ?thesis by simp
qed

lemma service_stays_reachable:
  assumes "\<forall>env. runs_at_most_once (keyed env)" "reachable (w_db w)" "(service_step keyed token)\<^sup>*\<^sup>* w w'"
  shows "reachable (w_db w')"
  using assms(3,2)
proof (induction rule: rtranclp_induct)
  case (step w1 w2)
  with service_step_lawful [OF assms(1)] show ?case
    unfolding reachable_def by (meson rtranclp_trans)
qed

text \<open>What one event does to the world, and a process as the list of the events it acts on.\<close>

definition handled :: "(env \<Rightarrow> handler \<Rightarrow> handler) \<Rightarrow> string \<Rightarrow> event \<Rightarrow> world \<Rightarrow> world" where
  "handled keyed token e w =
     (case e of Request env r \<Rightarrow> snd (New_handler env token (keyed env) r w) | Tick t \<Rightarrow> housekeep t w | _ \<Rightarrow> w)"

lemma handled_steps: "(service_step keyed token)\<^sup>*\<^sup>* w (handled keyed token e w)"
  by (cases e) (auto simp: handled_def intro: service_step.intros prod.collapse [symmetric])

lemma fold_handled_steps: "(service_step keyed token)\<^sup>*\<^sup>* w (fold (handled keyed token) es w)"
proof (induction es arbitrary: w)
  case (Cons e es)
  with handled_steps [of keyed token w e] show ?case by (auto intro: rtranclp_trans)
qed simp

lemma serving_open:
  "Signal \<notin> set es \<Longrightarrow> ListenFailed \<notin> set es \<Longrightarrow>
     serving keyed token (es @ es') w = serving keyed token es' (fold (handled keyed token) es w)"
proof (induction es arbitrary: w)
  case (Cons e es)
  then show ?case by (cases e) (auto simp: handled_def)
qed simp

lemma serving_steps: "(service_step keyed token)\<^sup>*\<^sup>* w (snd (serving keyed token es w))"
proof -
  have shutting: "(service_step keyed token)\<^sup>*\<^sup>* w (snd (shutting_down keyed token es w))" for es w
  proof (induction es arbitrary: w)
    case (Cons e es)
    show ?case
    proof (cases e)
      case (Request env r)
      with handled_steps [of keyed token w e] Cons.IH show ?thesis by (simp add: handled_def) (rule rtranclp_trans)
    qed (use Cons.IH in simp_all)
  qed simp
  show ?thesis
  proof (induction es arbitrary: w)
    case (Cons e es)
    show ?case
    proof (cases "e = Signal \<or> e = ListenFailed")
      case True
      with shutting show ?thesis by auto
    next
      case False
      then have "serving keyed token (e # es) w = serving keyed token es (handled keyed token e w)"
        using serving_open [of "[e]" keyed token es w] by auto
      with handled_steps [of keyed token w e] Cons.IH show ?thesis by (metis rtranclp_trans)
    qed
  qed simp
qed

lemma serve_cmd_worlds:
  assumes "serve_cmd middleware sh args = (oc, sh')" "sh_world sh' dsn = Some w'"
  shows "\<exists>w ttl token. sh_world sh dsn = Some w
    \<and> (w' = w \<or> w' = snd (serving (middleware (NewIdempotencyStore ttl)) token (sh_events sh) w))"
proof (cases "sh_world sh dsn = Some w'")
  case False
  with assms show ?thesis
    by (auto simp: serve_cmd_def Let_def case_prod_unfold split: sum.splits if_splits option.splits) blast+
qed auto

text \<open>
  C13: No command takes a ledger out of its own state space. Whatever is asked of \<open>sumzero\<close>, a server with any requests, bodies
  and clocks and any housekeeping, with or without a token, and whatever the middleware does as long as it runs a handler
  at most once, every database that was reachable by the ledger's operations is reachable afterwards. Every
  invariant of the ledger holds behind the command.
\<close>

theorem commands_keep_ledgers:
  assumes "\<forall>ttl env. runs_at_most_once (middleware ttl env)"
    and "\<forall>dsn w. sh_world sh dsn = Some w \<longrightarrow> reachable (w_db w)"
    and "run middleware text_of exec sh args = (oc, sh')" "sh_world sh' dsn = Some w'"
  shows "reachable (w_db w')"
proof -
  have served: "reachable (w_db w')" if "serve_cmd middleware sh rest = (oc, sh')" for rest
  proof -
    from serve_cmd_worlds [OF that assms(4)] obtain w ttl token where w: "sh_world sh dsn = Some w"
      "w' = w \<or> w' = snd (serving (middleware (NewIdempotencyStore ttl)) token (sh_events sh) w)" by blast
    then show ?thesis
      using assms(1,2) service_stays_reachable [OF _ _ serving_steps] by blast
  qed
  show ?thesis
  proof (cases args)
    case Nil
    with assms show ?thesis by (auto simp: run_def)
  next
    case (Cons cmd rest)
    show ?thesis
    proof (cases "cmd = ''serve''")
      case True
      with assms(3) Cons served show ?thesis by (simp add: run_simps)
    next
      case False
      then have "sh_world sh' = sh_world sh"
        using assms(3) run_keeps_worlds [of cmd middleware text_of exec sh rest] by (simp add: Cons)
      with assms(2,4) show ?thesis by simp
    qed
  qed
qed

definition busy_shell :: "unit shell" where
  "busy_shell = sample_shell\<lparr>sh_world := [''postgres://sold'' \<mapsto> opened_world],
     sh_events := [Request sample_env sale_request, Tick (HoldsTick noon), Signal]\<rparr>"

theorem commands_keep_ledgers_witness:
  "reachable (w_db (handled (\<lambda>env. replaying (ev_now env)) ''t0k3n'' (Tick (HoldsTick noon))
     (handled (\<lambda>env. replaying (ev_now env)) ''t0k3n'' (Request sample_env sale_request) opened_world)))"
proof (rule commands_keep_ledgers [where middleware = "\<lambda>ttl env. replaying (ev_now env)" and sh = busy_shell
      and dsn = "''postgres://sold''"])
  show "\<forall>dsn w. sh_world busy_shell dsn = Some w \<longrightarrow> reachable (w_db w)"
    by (simp add: busy_shell_def opened_world_def reachable_opened_db)
  show "run (\<lambda>ttl env. replaying (ev_now env)) (\<lambda>n. n) (\<lambda>sql s. (Inr (), s)) busy_shell [''serve'', ''--token=t0k3n'']
      = ((None, ServerLog False), busy_shell\<lparr>sh_world := (sh_world busy_shell)(''postgres://sold'' := Some
          (handled (\<lambda>env. replaying (ev_now env)) ''t0k3n'' (Tick (HoldsTick noon))
            (handled (\<lambda>env. replaying (ev_now env)) ''t0k3n'' (Request sample_env sale_request) opened_world)))\<rparr>)"
    by (simp add: run_simps serve_cmd_def serve_formal_def serve_default_def dsn_default_def flag_name_def busy_shell_def
        sample_shell_def handled_def)
qed (simp_all add: replaying_once)

section \<open>Who may do what\<close>

lemma open_to_all:
  "list_all (\<lambda>rt. (\<exists>p ps. rt_path rt = Lit ''v1'' # p # ps) \<or> rt_handler rt = healthz \<or> rt_handler rt = ready env)
     (open_routes env token @ keyed_routes env keyed)"
  by (simp add: open_routes_def keyed_routes_def keyed_handlers_def)

lemma probes_answer:
  "healthz r w = (res, w') \<Longrightarrow> w' = w \<and> (\<exists>t. rs_body res = TextBody t)"
  "ready env r w = (res, w') \<Longrightarrow> w' = w \<and> (\<exists>t. rs_body res = StatusBody t)"
  by (auto simp: healthz_def ready_def writeJSON_def)

text \<open>
  C25: With a token configured, a request whose \<open>Authorization\<close> header is not exactly \<open>Bearer\<close> and the
  token changes nothing. Under \<open>/v1/\<close> it is answered 401 whatever else it says; elsewhere it can only reach the two
  probes or a plain-text 404 or 405.
\<close>

theorem token_guards_v1:
  assumes "token \<noteq> []" "rq_header r ''Authorization'' \<noteq> ''Bearer '' @ token"
    and "New_handler env token keyed r w = (res, w')"
  shows "w' = w \<and> (if prefix ''/v1/'' (URL_Path r)
      then rs_status res = 401 \<and> rs_body res = ErrorBody ''unauthorized'' ''missing or invalid bearer token''
      else (\<exists>t. rs_body res = TextBody t) \<or> (\<exists>t. rs_body res = StatusBody t))"
proof (cases "prefix ''/v1/'' (URL_Path r)")
  case True
  have "bytes_of (rq_header r ''Authorization'') \<noteq> bytes_of (''Bearer '' @ token)"
    using assms(2) bytes_of_inj by blast
  with True assms(1,3) show ?thesis
    by (auto simp: New_handler_def requireBearer_def Let_def ConstantTimeCompare_eq writeErrorCode_def writeJSON_def)
next
  case False
  with assms(1,3) have "ServeMux (open_routes env token @ keyed_routes env keyed) r w = (res, w')"
    by (simp add: New_handler_def requireBearer_def Let_def)
  then show ?thesis
  proof (cases rule: ServeMux_cases)
    case (routed rt vs)
    have "\<not> (\<exists>p ps. rt_path rt = Lit ''v1'' # p # ps)"
      using routed(3) False v1_prefix by auto
    with routed(1) open_to_all [of env token keyed] have "rt_handler rt = healthz \<or> rt_handler rt = ready env"
      by (auto simp only: list_all_iff)
    with routed(4) False probes_answer show ?thesis by (metis (full_types))
  next
    case refused
    with False show ?thesis by simp
  qed
qed

theorem token_guards_v1_witness:
  "snd (New_handler sample_env ''secret'' (replaying noon) sale_request opened_world) = opened_world
    \<and> rs_status (fst (New_handler sample_env ''secret'' (replaying noon) sale_request opened_world)) = 401"
proof -
  have "''secret'' \<noteq> []" "rq_header sale_request ''Authorization'' \<noteq> ''Bearer '' @ ''secret''"
    by (simp_all add: sale_request_def IdempotencyHeader_def)
  from token_guards_v1 [OF this prod.collapse [symmetric], of sample_env "replaying noon" opened_world]
  show ?thesis by (simp add: URL_Path_def sale_request_def)
qed

text \<open>
  C26: No request without an idempotency key moves money: transfers, postings, holds and the key table stay as they are, for
  every route and whatever the middleware. Opening and archiving accounts is all such a request can do.
\<close>

theorem unkeyed_moves_no_money:
  assumes "rq_header r IdempotencyHeader = []" "New_handler env token keyed r w = (res, w')"
  shows "transfers (w_db w') = transfers (w_db w) \<and> postings (w_db w') = postings (w_db w)
    \<and> holds (w_db w') = holds (w_db w) \<and> w_keys w' = w_keys w"
  using unkeyed.staysD [OF New_unkeyed assms] by (simp add: money_kept_def)

definition keyless_request :: request where
  "keyless_request = sale_request\<lparr>rq_header := (rq_header sale_request)(IdempotencyHeader := [])\<rparr>"

theorem unkeyed_moves_no_money_witness:
  "transfers (w_db (snd (New_handler sample_env ''t0k3n'' (replaying noon) keyless_request opened_world))) = []"
proof -
  have "rq_header keyless_request IdempotencyHeader = []" by (simp add: keyless_request_def)
  from unkeyed_moves_no_money [OF this prod.collapse [symmetric], of sample_env "''t0k3n''" "replaying noon" opened_world]
  show ?thesis by (simp add: opened_world_def)
qed

section \<open>Scoped keys\<close>

lemma first_separator:
  "x \<notin> set a \<Longrightarrow> x \<notin> set b \<Longrightarrow> a @ x # c = b @ x # d \<Longrightarrow> a = b \<and> c = d"
proof (induction a arbitrary: b)
  case Nil
  then show ?case by (cases b) auto
next
  case (Cons y a)
  then show ?case by (cases b) auto
qed

text \<open>
  The key the middleware stores under tells requests apart: for paths without a space, two requests
  with the same scoped key have the same method, path and \<open>Idempotency-Key\<close>.
\<close>

lemma scoped_key_unique:
  assumes "scoped_key r = scoped_key r'"
    and "CHR '' '' \<notin> set (rq_method r)" "CHR '' '' \<notin> set (rq_method r')"
    and "CHR '' '' \<notin> set (URL_Path r)" "CHR '' '' \<notin> set (URL_Path r')"
  shows "rq_method r = rq_method r' \<and> URL_Path r = URL_Path r'
    \<and> rq_header r IdempotencyHeader = rq_header r' IdempotencyHeader"
proof -
  have "rq_method r @ CHR '' '' # (URL_Path r @ CHR '' '' # rq_header r IdempotencyHeader)
      = rq_method r' @ CHR '' '' # (URL_Path r' @ CHR '' '' # rq_header r' IdempotencyHeader)"
    using assms(1) by (simp add: scoped_key_def)
  from first_separator [OF assms(2,3) this] have "rq_method r = rq_method r'"
    and "URL_Path r @ CHR '' '' # rq_header r IdempotencyHeader = URL_Path r' @ CHR '' '' # rq_header r' IdempotencyHeader"
    by auto
  with first_separator [OF assms(4,5) this(2)] show ?thesis by simp
qed

lemma scoped_key_unique_sample:
  "rq_header sale_request IdempotencyHeader
     = rq_header (sale_request\<lparr>rq_body := None\<rparr>) IdempotencyHeader"
  using scoped_key_unique [of sale_request "sale_request\<lparr>rq_body := None\<rparr>"]
  by (simp add: scoped_key_def URL_Path_def sale_request_def)

text \<open>
  With a space and an encoded slash in a hold's reference, two requests to different routes share a key: the
  capture of \<open>a\<close> with key \<open>b/release k\<close>, and the release of \<open>a/capture b\<close> with key \<open>k\<close>.
\<close>

definition hold_request :: "string list \<Rightarrow> string \<Rightarrow> request" where
  "hold_request path key = \<lparr>rq_method = ''POST'', rq_segments = path, rq_query = [],
     rq_header = (\<lambda>h. if h = IdempotencyHeader then key else []), rq_body = None, rq_values = []\<rparr>"

lemma scoped_key_collision:
  defines "capture \<equiv> hold_request [''v1'', ''holds'', ''a'', ''capture''] ''b/release k''"
    and "release \<equiv> hold_request [''v1'', ''holds'', ''a/capture b'', ''release''] ''k''"
  shows "scoped_key capture = scoped_key release \<and> URL_Path capture \<noteq> URL_Path release
    \<and> path_match [Lit ''v1'', Lit ''holds'', Wild ''reference'', Lit ''capture''] (rq_segments capture) \<noteq> None
    \<and> path_match [Lit ''v1'', Lit ''holds'', Wild ''reference'', Lit ''release''] (rq_segments release) \<noteq> None"
  by (simp add: capture_def release_def hold_request_def scoped_key_def URL_Path_def)

section \<open>Opening an account takes no key\<close>

definition account_json :: "account \<Rightarrow> json" where
  "account_json a = JObject [(''id'', JString (a_id a)), (''type'', JString (a_type a)), (''currency'', JString (a_currency a)),
     (''allow_negative'', JBool (a_allow_negative a))]"

definition open_request :: request where
  "open_request = \<lparr>rq_method = ''POST'', rq_segments = [''v1'', ''accounts''], rq_query = [], rq_header = (\<lambda>_. []),
     rq_body = Some (account_json cash), rq_values = []\<rparr>"

lemma createAccount_cash:
  assumes "rq_body r = Some (account_json cash)" "w_db w = empty_db"
  shows "createAccount env r w = (writeJSON 201 (AccountBody cash), w\<lparr>w_db := opened cash empty_db\<rparr>)"
  using assms open_cash
  by (simp add: createAccount_def decode_def decode_struct_def account_json_def ascii_lower_def accountRequest_fields_def
      accountRequest_zero_def decode_string_def decode_bool_ptr_def answer_def Let_def cash_def)

lemma account_opened_without_key:
  "rq_header open_request IdempotencyHeader = []
    \<and> accounts (w_db (snd (New_handler sample_env [] keyed open_request \<lparr>w_db = empty_db, w_keys = [], w_log = []\<rparr>))) = [cash]"
proof -
  let ?w = "\<lparr>w_db = empty_db, w_keys = [], w_log = []\<rparr>" and ?r = "open_request\<lparr>rq_values := []\<rparr>"
  have "New_handler sample_env [] keyed open_request ?w = createAccount sample_env ?r ?w"
    by (simp add: New_handler_def Let_def ServeMux_def open_routes_def serves_def open_request_def)
  also have "\<dots> = (writeJSON 201 (AccountBody cash), ?w\<lparr>w_db := opened cash empty_db\<rparr>)"
    by (rule createAccount_cash) (simp_all add: open_request_def)
  finally show ?thesis
    by (simp add: open_request_def) (simp add: empty_db_def cash_def)
qed

section \<open>A route that does not exist\<close>

text \<open>It is refused by \<open>ServeMux\<close> itself, in plain text and not as an \<open>errorBody\<close>.\<close>

lemma unknown_route_is_plain_text:
  "rs_body (fst (New_handler sample_env [] keyed (open_request\<lparr>rq_segments := [''v1'', ''nothing'']\<rparr>) w))
     = TextBody (''404 page not found'' @ [CHR 0x0A])"
  by (simp add: New_handler_def Let_def ServeMux_def open_routes_def keyed_routes_def keyed_handlers_def serves_def
      allowed_methods_def open_request_def text_error_def)

section \<open>A posted transfer is served\<close>

text \<open>
  C28: When \<open>POST /v1/transfers\<close> answers 201, its body is the transfer as stored: from then on
  \<open>GET /v1/transfers/{reference}\<close> with that reference answers 200 with the same body, and the reference, description and
  postings are those of the request.
\<close>

theorem posted_transfer_is_served:
  assumes "reachable (w_db w)" "postTransfer env r w = (res, w')" "rs_status res = 201"
    and "PathValue r' ''reference'' = t_reference (case rs_body res of TransferBody _ t \<Rightarrow> t)"
  shows "\<exists>req tid t. Option.bind (rq_body r) (\<lambda>j. decode_struct transferRequest_fields j transferRequest_zero) = Some req
    \<and> rs_body res = TransferBody tid t \<and> t_reference t = tq_reference req \<and> t_description t = tq_description req
    \<and> t_postings t = tq_postings req \<and> getTransfer env r' w' = (writeJSON 200 (TransferBody tid t), w')"
proof -
  from assms(2,3) obtain req where req: "Option.bind (rq_body r) (\<lambda>j. decode_struct transferRequest_fields j transferRequest_zero) = Some req"
    and run: "answer env (Post New (ev_post_now env) (transfer_of_request req)) (\<lambda>(tid, t). writeJSON 201 (TransferBody tid t)) w = (res, w')"
    by (auto simp: postTransfer_def decode_def badRequest_def writeErrorCode_def writeJSON_def split: option.splits)
  from run assms(3) obtain tid t where v: "Post New (ev_post_now env) (transfer_of_request req) (w_db w) = (Inr (tid, t), w_db w')"
    and body: "rs_body res = TransferBody tid t"
    by (cases rule: answer_cases) (auto simp: writeJSON_def writeError_not_created)
  from Post_success [OF v] have val: "Validate (transfer_of_request req) = None"
    and post: "post (ev_post_now env) (transfer_of_request req) 0 (w_db w) = (Inr (tid, t), w_db w')" by auto
  have wf: "wf_db (w_db w)" using assms(1) by (rule reachable_wf)
  have t: "t = (transfer_of_request req)\<lparr>t_posted_at := resolve_posted_at (ev_post_now env) (transfer_of_request req)\<rparr>"
    using post_success [OF post wf_keys_ok [OF wf]] by (elim conjE)
  have "PathValue r' ''reference'' = t_reference (transfer_of_request req)"
    using assms(4) body t by simp
  then have "getTransfer env r' w' = (writeJSON 200 (TransferBody tid t), w')"
    using read_back [OF wf val post] by (simp add: getTransfer_def answer_def)
  with req body t show ?thesis by (simp add: transfer_of_request_def)
qed

theorem posted_transfer_is_served_witness:
  "\<exists>req tid t. Option.bind (rq_body sale_request) (\<lambda>j. decode_struct transferRequest_fields j transferRequest_zero) = Some req
    \<and> rs_body (writeJSON 201 (TransferBody 1 posted_sale)) = TransferBody tid t \<and> t_reference t = tq_reference req
    \<and> t_description t = tq_description req \<and> t_postings t = tq_postings req
    \<and> getTransfer sample_env (sale_request\<lparr>rq_values := [(''reference'', ''sale-1'')]\<rparr>) (opened_world\<lparr>w_db := sold_db\<rparr>)
        = (writeJSON 200 (TransferBody tid t), opened_world\<lparr>w_db := sold_db\<rparr>)"
proof (rule posted_transfer_is_served)
  show "reachable (w_db opened_world)" by (simp add: opened_world_def reachable_opened_db)
  show "postTransfer sample_env sale_request opened_world = (writeJSON 201 (TransferBody 1 posted_sale), opened_world\<lparr>w_db := sold_db\<rparr>)"
    by (rule postTransfer_sale) (simp_all add: sale_request_def opened_world_def)
qed (simp_all add: writeJSON_def PathValue_def posted_sale_def sale_def)

section \<open>The limit parameter\<close>

lemma parse_positive_digits:
  "n \<le> 1000000 \<Longrightarrow> parse_positive n s = Some k \<longleftrightarrow> parse_digits n s = Some k \<and> 0 < k \<and> k \<le> 1000000"
proof (induction s arbitrary: n)
  case (Cons c s)
  show ?case
  proof (cases "1000000 < n * 10 + digit_val c")
    case True
    then show ?thesis using parse_digits_grows [of "n * 10 + digit_val c" s k] by auto
  next
    case False
    with Cons.IH [of "n * 10 + digit_val c"] show ?thesis by simp
  qed
qed auto

text \<open>
  \<open>parsePositiveInt\<close> accepts exactly the decimal numbers from 1 to 1,000,000, leading zeros included: giving up at
  the first prefix that is too large loses nothing.
\<close>

lemma parsePositiveInt_range:
  "parsePositiveInt s = Some n \<longleftrightarrow> parse_digits 0 s = Some n \<and> 1 \<le> n \<and> n \<le> 1000000"
  using parse_positive_digits [of 0 s n] by (auto simp: parsePositiveInt_def)

end
