(* ===== verification/Lock_Order.thy ===== *)
theory Lock_Order
  imports Well_Formed Sample "HOL-Library.Product_Lexorder"
begin

text \<open>
  The row and advisory locks the ledger's transactions take, and the order they take them in: the account rows of a
  transfer by id (\<open>lockAccounts\<close> of \<open>src/ledger/store.go\<close>), then \<open>chainLockKey\<close>; the single row of a hold or an account elsewhere;
  in \<open>Capture\<close> (\<open>src/ledger/hold.go\<close>) the hold, the held account, then those of the transfer; in \<open>ExpireHolds\<close> the due holds, in the
  order the update finds them, which is an argument of the call. Two inserts of the same key wait for each other too: \<open>NewAccount\<close> and
  \<open>NewHold\<close> stand for the entry of a new row in its unique index. Locks are held until the transaction
  ends. Transactions that take locks in ascending order never wait in a circle, whatever their
  interleaving; a capture that starts in the middle can. Rows written under \<open>chainLockKey\<close> need no place in the
  order.
\<close>

section \<open>Locks\<close>

datatype lock = HoldRow int | AccountRow string | ChainLock | NewAccount string | NewHold string

definition lock_key :: "lock \<Rightarrow> nat \<times> int \<times> string" where
  "lock_key l = (case l of HoldRow i \<Rightarrow> (0, i, []) | AccountRow a \<Rightarrow> (1, 0, a) | ChainLock \<Rightarrow> (2, 0, [])
     | NewAccount a \<Rightarrow> (3, 0, a) | NewHold r \<Rightarrow> (4, 0, r))"

lemma lock_key_inj: "lock_key l = lock_key m \<Longrightarrow> l = m"
  by (cases l; cases m) (simp_all add: lock_key_def)

instantiation lock :: linorder
begin

definition less_eq_lock :: "lock \<Rightarrow> lock \<Rightarrow> bool" where
  "less_eq_lock l m \<longleftrightarrow> lock_key l \<le> lock_key m"

definition less_lock :: "lock \<Rightarrow> lock \<Rightarrow> bool" where
  "less_lock l m \<longleftrightarrow> lock_key l < lock_key m"

instance
  by standard (auto simp: less_eq_lock_def less_lock_def less_le_not_le lock_key_inj dest: order.trans)

end

lemma lock_less_simps [simp]:
  "AccountRow a < AccountRow b \<longleftrightarrow> a < b" "HoldRow i < HoldRow j \<longleftrightarrow> i < j" "AccountRow a < ChainLock"
  "HoldRow i < AccountRow a" "HoldRow i < ChainLock" "AccountRow a < NewHold r"
  by (simp_all add: less_lock_def lock_key_def)

section \<open>What each operation locks\<close>

text \<open>The calls of the ledger that lock, with what decides their locks.\<close>

datatype call =
    CreateCall string
  | ArchiveCall string
  | PostCall transfer
  | ReverseCall string string string  \<comment> \<open>the reference of the original, the new reference, the description\<close>
  | HoldCall string string  \<comment> \<open>the account, the reference\<close>
  | CaptureCall string transfer
  | ReleaseCall string
  | ExpireCall "int list"  \<comment> \<open>the due holds, in the order of the scan\<close>

definition account_locks :: "db \<Rightarrow> transfer \<Rightarrow> lock list" where
  "account_locks s t = map (\<lambda>a. AccountRow (a_id a))
     (sort_key a_id (filter (\<lambda>a. a_id a \<in> set (collect_ids (t_postings t) [])) (accounts s)))"

definition capture_locks :: "db \<Rightarrow> hold \<Rightarrow> transfer \<Rightarrow> lock list" where
  "capture_locks s h t = HoldRow (h_id h) # AccountRow (h_account h)
     # filter (\<lambda>l. l \<noteq> AccountRow (h_account h)) (account_locks s t) @ [ChainLock]"

definition locks_of :: "db \<Rightarrow> call \<Rightarrow> lock list" where
  "locks_of s c =
     (case c of
        CreateCall acc \<Rightarrow> [NewAccount acc]
      | ArchiveCall acc \<Rightarrow> [AccountRow acc]
      | PostCall t \<Rightarrow> account_locks s t @ [ChainLock]
      | ReverseCall reference newReference description \<Rightarrow>
          (case find_row tr_reference reference (transfers s) of
             None \<Rightarrow> []
           | Some row \<Rightarrow> account_locks s (reversal_of reference newReference description (transfer_of_row s row) (tr_id row)) @ [ChainLock])
      | HoldCall acc reference \<Rightarrow> [AccountRow acc, NewHold reference]
      | CaptureCall reference t \<Rightarrow>
          (case find_row h_reference reference (holds s) of None \<Rightarrow> [] | Some h \<Rightarrow> capture_locks s h t)
      | ReleaseCall reference \<Rightarrow>
          (case find_row h_reference reference (holds s) of None \<Rightarrow> [] | Some h \<Rightarrow> [HoldRow (h_id h)])
      | ExpireCall due \<Rightarrow> map HoldRow due)"

text \<open>The model of \<open>lockAccounts\<close> reads the accounts in this order.\<close>

lemma lockAccounts_order: "lockAccounts t s = (Inr accs, s') \<Longrightarrow> map (\<lambda>a. AccountRow (a_id a)) accs = account_locks s t"
  by (auto simp: lockAccounts_def account_locks_def)

section \<open>Transactions that wait for each other\<close>

record transaction =
  tx_held :: "lock list"
  tx_wants :: "lock list"

text \<open>A call in its own transaction; a call that fails stops after some of its locks.\<close>

definition begin_call :: "db \<Rightarrow> call \<times> nat \<Rightarrow> transaction" where
  "begin_call s = (\<lambda>(c, k). \<lparr>tx_held = [], tx_wants = take k (locks_of s c)\<rparr>)"

inductive lock_step :: "transaction list \<Rightarrow> transaction list \<Rightarrow> bool" where
  acquire: "i < length ts \<Longrightarrow> tx_wants (ts ! i) = l # ls \<Longrightarrow>
     (\<forall>j < length ts. j \<noteq> i \<longrightarrow> l \<notin> set (tx_held (ts ! j))) \<Longrightarrow>
     lock_step ts (ts[i := \<lparr>tx_held = l # tx_held (ts ! i), tx_wants = ls\<rparr>])"
| commit: "i < length ts \<Longrightarrow> tx_wants (ts ! i) = [] \<Longrightarrow> tx_held (ts ! i) \<noteq> [] \<Longrightarrow>
     lock_step ts (ts[i := \<lparr>tx_held = [], tx_wants = []\<rparr>])"

inductive_cases lock_step_cases: "lock_step ts ts'"

definition finished :: "transaction list \<Rightarrow> bool" where
  "finished ts \<longleftrightarrow> (\<forall>t \<in> set ts. tx_held t = [] \<and> tx_wants t = [])"

definition deadlocked :: "transaction list \<Rightarrow> bool" where
  "deadlocked ts \<longleftrightarrow> \<not> finished ts \<and> (\<nexists>ts'. lock_step ts ts')"

text \<open>Two transactions.\<close>

lemma acquire_first:
  assumes "l \<notin> set (tx_held u)"
  shows "lock_step [\<lparr>tx_held = h, tx_wants = l # ls\<rparr>, u] [\<lparr>tx_held = l # h, tx_wants = ls\<rparr>, u]"
  using acquire [of 0 "[\<lparr>tx_held = h, tx_wants = l # ls\<rparr>, u]" l ls] assms by (simp add: All_less_Suc2)

lemma acquire_second:
  assumes "l \<notin> set (tx_held t)"
  shows "lock_step [t, \<lparr>tx_held = h, tx_wants = l # ls\<rparr>] [t, \<lparr>tx_held = l # h, tx_wants = ls\<rparr>]"
  using acquire [of 1 "[t, \<lparr>tx_held = h, tx_wants = l # ls\<rparr>]" l ls] assms by (simp add: All_less_Suc)

lemma crossed:
  assumes "tx_wants t = l # ls" "tx_wants u = m # ms" "l \<in> set (tx_held u)" "m \<in> set (tx_held t)"
  shows "deadlocked [t, u]"
  using assms by (auto simp: deadlocked_def finished_def less_Suc_eq nth_Cons All_less_Suc elim!: lock_step_cases)

section \<open>Exclusion\<close>

text \<open>
  No lock has two holders. So of two calls that share a lock one runs behind the other from there on: all posts and captures share
  \<open>ChainLock\<close>, and whatever reads or moves the balance of an account, or places a hold on it, shares its row.
\<close>

definition exclusive :: "transaction list \<Rightarrow> bool" where
  "exclusive ts \<longleftrightarrow> (\<forall>i < length ts. \<forall>j < length ts. i \<noteq> j \<longrightarrow> set (tx_held (ts ! i)) \<inter> set (tx_held (ts ! j)) = {})"

lemma step_exclusive: "lock_step ts ts' \<Longrightarrow> exclusive ts \<Longrightarrow> exclusive ts'"
  by (induction rule: lock_step.induct) (auto simp: exclusive_def nth_list_update)

interpretation excluding: step_invariant lock_step exclusive
  by unfold_locales (rule step_exclusive)

lemma never_shared:
  assumes "lock_step\<^sup>*\<^sup>* (map (begin_call s) calls) ts"
  shows "exclusive ts"
  by (rule excluding.reached_inv [OF assms]) (simp add: exclusive_def begin_call_def case_prod_unfold)

lemma posts_conflict:
  "ChainLock \<in> set (locks_of s (PostCall t))"
  "find_row h_reference ref (holds s) = Some h \<Longrightarrow> ChainLock \<in> set (locks_of s (CaptureCall ref t))"
  by (simp_all add: locks_of_def capture_locks_def)

lemma account_conflict:
  assumes "a \<in> set (accounts s)" "a_id a \<in> p_account ` set (t_postings t)" "find_row h_reference ref (holds s) = Some h"
  shows "AccountRow (a_id a) \<in> set (locks_of s (PostCall t)) \<inter> set (locks_of s (CaptureCall ref t))
    \<inter> set (locks_of s (HoldCall (a_id a) newRef)) \<inter> set (locks_of s (ArchiveCall (a_id a)))"
  using assms by (auto simp: locks_of_def account_locks_def capture_locks_def)

section \<open>Ascending transactions\<close>

definition ascending :: "transaction \<Rightarrow> bool" where
  "ascending t \<longleftrightarrow> sorted_wrt (<) (tx_wants t) \<and> (\<forall>l \<in> set (tx_held t). \<forall>m \<in> set (tx_wants t). l < m)"

definition all_ascending :: "transaction list \<Rightarrow> bool" where
  "all_ascending ts \<longleftrightarrow> (\<forall>t \<in> set ts. ascending t)"

lemma step_ascending: "lock_step ts ts' \<Longrightarrow> all_ascending ts \<Longrightarrow> all_ascending ts'"
proof (induction rule: lock_step.induct)
  case (acquire i ts l ls)
  then have "ascending (ts ! i)" by (simp add: all_ascending_def)
  with acquire(2) have "ascending \<lparr>tx_held = l # tx_held (ts ! i), tx_wants = ls\<rparr>"
    by (auto simp: ascending_def)
  with acquire show ?case
    by (auto simp: all_ascending_def dest!: set_update_subset_insert [THEN subsetD])
next
  case (commit i ts)
  then show ?case
    by (auto simp: all_ascending_def ascending_def dest!: set_update_subset_insert [THEN subsetD])
qed

interpretation locking: step_invariant lock_step all_ascending
  by unfold_locales (rule step_ascending)

text \<open>
  Of the transactions that still want a lock, take one that wants the highest. Whoever holds that lock
  wants a higher one, or nothing.
\<close>

lemma ascending_progress:
  assumes "all_ascending ts" "\<not> finished ts"
  shows "\<exists>ts'. lock_step ts ts'"
proof (cases "\<exists>i < length ts. tx_wants (ts ! i) = [] \<and> tx_held (ts ! i) \<noteq> []")
  case True
  then show ?thesis using commit by blast
next
  case False
  define wants where "wants = {i. i < length ts \<and> tx_wants (ts ! i) \<noteq> []}"
  from assms(2) obtain i0 where "i0 < length ts" "\<not> (tx_held (ts ! i0) = [] \<and> tx_wants (ts ! i0) = [])"
    by (auto simp: finished_def in_set_conv_nth)
  with False have "i0 \<in> wants" by (auto simp: wants_def)
  then have "wants \<noteq> {}" by auto
  moreover have "finite wants" by (simp add: wants_def)
  ultimately obtain i where i: "i \<in> wants" and top: "\<And>j. j \<in> wants \<Longrightarrow> hd (tx_wants (ts ! j)) \<le> hd (tx_wants (ts ! i))"
    using finite_has_maximal [of "(\<lambda>i. hd (tx_wants (ts ! i))) ` wants"] by (force simp: not_less)
  from i obtain l ls where l: "i < length ts" "tx_wants (ts ! i) = l # ls"
    by (cases "tx_wants (ts ! i)") (auto simp: wants_def)
  have "l \<notin> set (tx_held (ts ! j))" if j: "j < length ts" "j \<noteq> i" for j
  proof
    assume held: "l \<in> set (tx_held (ts ! j))"
    with False j have "tx_wants (ts ! j) \<noteq> []" by auto
    then have "j \<in> wants" "hd (tx_wants (ts ! j)) \<in> set (tx_wants (ts ! j))" using j by (simp_all add: wants_def)
    moreover have "ascending (ts ! j)" using assms(1) j by (simp add: all_ascending_def)
    ultimately have "l < hd (tx_wants (ts ! j))" using held by (simp add: ascending_def)
    with top [OF \<open>j \<in> wants\<close>] l show False by simp
  qed
  with acquire [OF l] show ?thesis by blast
qed

section \<open>Every run ends\<close>

definition work_of :: "transaction \<Rightarrow> nat" where
  "work_of t = 2 * length (tx_wants t) + (if tx_held t = [] \<and> tx_wants t = [] then 0 else 1)"

definition work_left :: "transaction list \<Rightarrow> nat" where
  "work_left ts = sum_list (map work_of ts)"

lemma work_left_update:
  "i < length ts \<Longrightarrow> work_left (ts[i := t]) + work_of (ts ! i) = work_left ts + work_of t"
  unfolding work_left_def by (induction ts arbitrary: i) (auto split: nat.split)

lemma step_works: "lock_step ts ts' \<Longrightarrow> work_left ts' < work_left ts"
proof (induction rule: lock_step.induct)
  case (acquire i ts l ls)
  then show ?case
    using work_left_update [OF acquire(1), of "\<lparr>tx_held = l # tx_held (ts ! i), tx_wants = ls\<rparr>"] by (simp add: work_of_def)
next
  case (commit i ts)
  then show ?case
    using work_left_update [OF commit(1), of "\<lparr>tx_held = [], tx_wants = []\<rparr>"] by (simp add: work_of_def)
qed

lemma run_length: "(lock_step ^^ n) ts ts' \<Longrightarrow> n + work_left ts' \<le> work_left ts"
proof (induction n arbitrary: ts')
  case (Suc n)
  then obtain ts1 where "(lock_step ^^ n) ts ts1" "lock_step ts1 ts'" by auto
  with Suc.IH step_works show ?case by fastforce
qed simp

section \<open>The ledger's calls\<close>

text \<open>
  All calls but captures and expiries; a capture when no account of its transfer sorts before the held one; an expiry that
  finds the due holds by ascending id.
\<close>

definition ordered_call :: "db \<Rightarrow> call \<Rightarrow> bool" where
  "ordered_call s c \<longleftrightarrow>
     (case c of
        CaptureCall reference t \<Rightarrow>
          (case find_row h_reference reference (holds s) of
             None \<Rightarrow> True
           | Some h \<Rightarrow> (\<forall>l \<in> set (account_locks s t). AccountRow (h_account h) \<le> l))
      | ExpireCall due \<Rightarrow> sorted_wrt (<) due
      | _ \<Rightarrow> True)"

lemma account_locks_ascending:
  assumes "distinct (map a_id (accounts s))"
  shows "sorted_wrt (<) (account_locks s t)"
proof -
  let ?rows = "sort_key a_id (filter (\<lambda>a. a_id a \<in> set (collect_ids (t_postings t) [])) (accounts s))"
  have "distinct (map a_id ?rows)"
    using assms by (simp add: distinct_map inj_on_def)
  then have "sorted_wrt (<) (map a_id ?rows)"
    using sorted_sort_key [of a_id] by (simp add: strict_sorted_iff)
  then show ?thesis by (simp add: account_locks_def sorted_wrt_map)
qed

lemma account_locks_rows: "l \<in> set (account_locks s t) \<Longrightarrow> \<exists>a. l = AccountRow a"
  by (auto simp: account_locks_def)

lemma locks_of_ascending:
  assumes "distinct (map a_id (accounts s))" "ordered_call s c"
  shows "sorted_wrt (<) (locks_of s c)"
proof -
  note up = account_locks_ascending [OF assms(1)]
  have chain: "l < ChainLock" if "l \<in> set (account_locks s t)" for l t
    using account_locks_rows [OF that] by auto
  have posts: "sorted_wrt (<) (account_locks s t @ [ChainLock])" for t
    using up chain by (simp add: sorted_wrt_append)
  show ?thesis
  proof (cases c)
    case (CaptureCall ref t)
    show ?thesis
    proof (cases "find_row h_reference ref (holds s)")
      case (Some h)
      let ?rest = "filter (\<lambda>l. l \<noteq> AccountRow (h_account h)) (account_locks s t)"
      have "\<forall>l \<in> set ?rest. HoldRow (h_id h) < l" using account_locks_rows by fastforce
      moreover have "\<forall>l \<in> set ?rest. AccountRow (h_account h) < l"
        using assms(2) CaptureCall Some by (auto simp: ordered_call_def less_le)
      ultimately show ?thesis
        using CaptureCall Some sorted_wrt_filter [OF up] chain by (auto simp: locks_of_def capture_locks_def sorted_wrt_append)
    qed (simp add: locks_of_def CaptureCall)
  next
    case (ExpireCall due)
    with assms(2) show ?thesis by (simp add: locks_of_def ordered_call_def sorted_wrt_map)
  qed (use posts in \<open>simp_all add: locks_of_def split: option.split\<close>)
qed

lemma begin_ascending:
  assumes "distinct (map a_id (accounts s))" "\<forall>(c, k) \<in> set calls. ordered_call s c"
  shows "all_ascending (map (begin_call s) calls)"
  using assms(2) locks_of_ascending [OF assms(1)]
  by (auto simp: all_ascending_def ascending_def begin_call_def sorted_wrt_take)

text \<open>
  C16: Any number of calls, whether they create or archive accounts, post, reverse, hold or release, expire holds in the order of their ids or
  capture holds whose account sorts first, run concurrently under the locks of the code without ever blocking each other for good: however their steps interleave and wherever each
  of them stops, a transaction that is not finished leaves some step to take, and the number of
  steps is bounded, so all of them end.
\<close>

theorem ordered_calls_never_deadlock:
  assumes "reachable s" "\<forall>(c, k) \<in> set calls. ordered_call s c"
    and "(lock_step ^^ n) (map (begin_call s) calls) ts"
  shows "\<not> deadlocked ts \<and> n \<le> work_left (map (begin_call s) calls)"
proof
  have "distinct (map a_id (accounts s))"
    using wf_keys_ok [OF reachable_wf [OF assms(1)]] by (simp add: keys_ok_def)
  then have "all_ascending (map (begin_call s) calls)" using assms(2) by (rule begin_ascending)
  moreover have "lock_step\<^sup>*\<^sup>* (map (begin_call s) calls) ts" using assms(3) by (rule relpowp_imp_rtranclp)
  ultimately have "all_ascending ts" by (rule locking.reached_inv [rotated])
  then show "\<not> deadlocked ts" using ascending_progress by (auto simp: deadlocked_def)
  show "n \<le> work_left (map (begin_call s) calls)" using run_length [OF assms(3)] by simp
qed

lemma refund_locks: "account_locks held_db refund = [AccountRow ''cash'', AccountRow ''sales'']"
  "account_locks held_db sale = [AccountRow ''cash'', AccountRow ''sales'']"
  by (simp_all add: account_locks_def refund_def sale_def leg_def)

theorem ordered_calls_never_deadlock_witness:
  "\<not> deadlocked [\<lparr>tx_held = [AccountRow ''cash''], tx_wants = [AccountRow ''sales'', ChainLock]\<rparr>,
                  \<lparr>tx_held = [], tx_wants = [AccountRow ''cash'', AccountRow ''sales'', ChainLock]\<rparr>]"
proof -
  let ?calls = "[(PostCall sale, 9), (PostCall refund, 9)]"
  have start: "map (begin_call held_db) ?calls =
      [\<lparr>tx_held = [], tx_wants = [AccountRow ''cash'', AccountRow ''sales'', ChainLock]\<rparr>,
       \<lparr>tx_held = [], tx_wants = [AccountRow ''cash'', AccountRow ''sales'', ChainLock]\<rparr>]"
    by (simp add: begin_call_def locks_of_def refund_locks)
  have "lock_step (map (begin_call held_db) ?calls)
      [\<lparr>tx_held = [AccountRow ''cash''], tx_wants = [AccountRow ''sales'', ChainLock]\<rparr>,
       \<lparr>tx_held = [], tx_wants = [AccountRow ''cash'', AccountRow ''sales'', ChainLock]\<rparr>]"
    unfolding start by (rule acquire_first) simp
  then have "(lock_step ^^ 1) (map (begin_call held_db) ?calls)
      [\<lparr>tx_held = [AccountRow ''cash''], tx_wants = [AccountRow ''sales'', ChainLock]\<rparr>,
       \<lparr>tx_held = [], tx_wants = [AccountRow ''cash'', AccountRow ''sales'', ChainLock]\<rparr>]" by (simp only: relpowp_1)
  from ordered_calls_never_deadlock [OF reachable_held_db _ this] show ?thesis
    by (simp add: ordered_call_def)
qed

text \<open>
  C20: A capture of a hold on an account that does not sort first can deadlock with a post over the same accounts:
  each holds the row the other wants.
\<close>

theorem capture_can_deadlock:
  "\<exists>ts. lock_step\<^sup>*\<^sup>* (map (begin_call held_db) [(CaptureCall ''hold-1'' refund, 9), (PostCall sale, 9)]) ts \<and> deadlocked ts"
proof -
  let ?tx = "\<lambda>h w. \<lparr>tx_held = h, tx_wants = w\<rparr>" and ?hold = "HoldRow 1"
  let ?cash = "AccountRow ''cash''" and ?sales = "AccountRow ''sales''"
  have start: "map (begin_call held_db) [(CaptureCall ''hold-1'' refund, 9), (PostCall sale, 9)]
      = [?tx [] [?hold, ?sales, ?cash, ChainLock], ?tx [] [?cash, ?sales, ChainLock]]"
    by (simp add: begin_call_def locks_of_def capture_locks_def refund_locks) (simp add: placed_hold_def capture_locks_def refund_locks)
  have "lock_step [?tx [] [?hold, ?sales, ?cash, ChainLock], ?tx [] [?cash, ?sales, ChainLock]]
      [?tx [?hold] [?sales, ?cash, ChainLock], ?tx [] [?cash, ?sales, ChainLock]]"
    by (rule acquire_first) simp
  moreover have "lock_step [?tx [?hold] [?sales, ?cash, ChainLock], ?tx [] [?cash, ?sales, ChainLock]]
      [?tx [?sales, ?hold] [?cash, ChainLock], ?tx [] [?cash, ?sales, ChainLock]]"
    by (rule acquire_first) simp
  moreover have "lock_step [?tx [?sales, ?hold] [?cash, ChainLock], ?tx [] [?cash, ?sales, ChainLock]]
      [?tx [?sales, ?hold] [?cash, ChainLock], ?tx [?cash] [?sales, ChainLock]]"
    by (rule acquire_second) simp
  moreover have "deadlocked [?tx [?sales, ?hold] [?cash, ChainLock], ?tx [?cash] [?sales, ChainLock]]"
    by (rule crossed [where l = ?cash and m = ?sales]) simp_all
  ultimately show ?thesis unfolding start by (meson converse_rtranclp_into_rtranclp rtranclp.rtrancl_refl)
qed

end
