(* ===== verification/Isolation.thy ===== *)
theory Isolation
  imports Lock_Order Acceptance
begin

text \<open>
  What a lock is for. While a transaction of \<open>store.go\<close> or \<open>hold.go\<close> holds a lock, the calls
  other connections commit meanwhile leave what the lock protects as it was: the rows and balances of locked accounts, with held sums that
  can only fall, the whole journal under \<open>chainLockKey\<close>, and locked holds.
\<close>

section \<open>Calls and their effects\<close>

text \<open>The steps of \<open>ledger_step\<close>, each with the call that takes it.\<close>

inductive call_step :: "call \<Rightarrow> db \<Rightarrow> db \<Rightarrow> bool" where
  create: "CreateAccount New a s = (r, s') \<Longrightarrow> call_step (CreateCall (a_id a)) s s'"
| archive: "Archive New acc s = (r, s') \<Longrightarrow> call_step (ArchiveCall acc) s s'"
| posting: "Post New now t s = (r, s') \<Longrightarrow> call_step (PostCall t) s s'"
| reverse: "Reverse New now ref newRef desc s = (r, s') \<Longrightarrow> call_step (ReverseCall ref newRef desc) s s'"
| hold: "Hold New pg_now req s = (r, s') \<Longrightarrow> call_step (HoldCall (hr_account req) (hr_reference req)) s s'"
| capture: "Capture New now post_now pg_now ref t s = (r, s') \<Longrightarrow> call_step (CaptureCall ref t) s s'"
| release: "Release New pg_now ref s = (r, s') \<Longrightarrow> call_step (ReleaseCall ref) s s'"
| expire: "ExpireHolds New pg_now s = (r, s') \<Longrightarrow>
    set due = h_id ` {h \<in> set (holds s). h_status h = HoldActive \<and> (case h_expires_at h of None \<Rightarrow> False | Some e \<Rightarrow> e \<le> pg_now)} \<Longrightarrow>
    call_step (ExpireCall due) s s'"

inductive_cases call_stepE: "call_step c s s'"

lemma ledger_step_call: "ledger_step s s' \<longleftrightarrow> (\<exists>c. call_step c s s')"
proof
  assume "ledger_step s s'"
  then show "\<exists>c. call_step c s s'"
  proof cases
    case (step_expire pg_now r)
    obtain due where "set due = h_id ` {h \<in> set (holds s). h_status h = HoldActive \<and> (case h_expires_at h of None \<Rightarrow> False | Some e \<Rightarrow> e \<le> pg_now)}"
      using finite_list [of "h_id ` {h \<in> set (holds s). h_status h = HoldActive \<and> (case h_expires_at h of None \<Rightarrow> False | Some e \<Rightarrow> e \<le> pg_now)}"]
      by auto
    with step_expire show ?thesis by (blast intro: expire)
  qed (blast intro: call_step.intros)+
qed (auto elim!: call_stepE intro: ledger_step.intros)

text \<open>What a transaction that holds the locks \<open>L\<close> may rely on.\<close>

definition undisturbed :: "lock set \<Rightarrow> db \<Rightarrow> db \<Rightarrow> bool" where
  "undisturbed L s s' \<longleftrightarrow>
     (\<forall>A. AccountRow ` A \<subseteq> L \<longrightarrow> A \<subseteq> a_id ` set (accounts s) \<longrightarrow>
        filter (\<lambda>a. a_id a \<in> A) (accounts s') = filter (\<lambda>a. a_id a \<in> A) (accounts s))
     \<and> (\<forall>acc. AccountRow acc \<in> L \<longrightarrow> balance_of s' acc = balance_of s acc \<and> (\<forall>ex. held_sum s' acc ex \<le> held_sum s acc ex))
     \<and> (ChainLock \<in> L \<longrightarrow> transfers s' = transfers s \<and> postings s' = postings s \<and> (\<forall>acc. balance_of s' acc = balance_of s acc))
     \<and> (\<forall>h \<in> set (holds s). HoldRow (h_id h) \<in> L \<longrightarrow> h \<in> set (holds s'))"

lemma undisturbed_same_data: "data_of s' = data_of s \<Longrightarrow> undisturbed L s s'"
  by (auto simp: undisturbed_def data_of_def balance_of_def held_sum_def)

lemma undisturbed_trans:
  assumes "undisturbed L s s1" "undisturbed L s1 s2"
  shows "undisturbed L s s2"
proof -
  have "A \<subseteq> a_id ` set (accounts s1)" if A: "AccountRow ` A \<subseteq> L" "A \<subseteq> a_id ` set (accounts s)" for A
  proof
    fix acc assume "acc \<in> A"
    with A(2) have "acc \<in> a_id ` set (filter (\<lambda>a. a_id a \<in> A) (accounts s))" by auto
    moreover have "filter (\<lambda>a. a_id a \<in> A) (accounts s1) = filter (\<lambda>a. a_id a \<in> A) (accounts s)"
      using assms(1) A by (simp add: undisturbed_def)
    ultimately have "acc \<in> a_id ` set (filter (\<lambda>a. a_id a \<in> A) (accounts s1))" by simp
    then show "acc \<in> a_id ` set (accounts s1)" by auto
  qed
  note kept = this
  note U = assms [unfolded undisturbed_def]
  show ?thesis
    unfolding undisturbed_def
  proof (intro conjI allI impI ballI)
    fix A assume A: "AccountRow ` A \<subseteq> L" "A \<subseteq> a_id ` set (accounts s)"
    with U kept [OF A] show "filter (\<lambda>a. a_id a \<in> A) (accounts s2) = filter (\<lambda>a. a_id a \<in> A) (accounts s)" by simp
  next
    fix acc ex assume "AccountRow acc \<in> L"
    with U have "held_sum s2 acc ex \<le> held_sum s1 acc ex" "held_sum s1 acc ex \<le> held_sum s acc ex" by simp_all
    then show "held_sum s2 acc ex \<le> held_sum s acc ex" by (rule order.trans)
  qed (use U in simp_all)
qed

section \<open>Each way to commit\<close>

lemma undisturbed_opened:
  assumes "CreateAccount New a s = (Inr (), opened a s)"
  shows "undisturbed L s (opened a s)"
proof -
  note C = CreateAccount_success [OF assms]
  have "bal_of (balances (opened a s)) acc = bal_of (balances s) acc" for acc
    using C by (cases "find_row ba_account_id acc (balances s)")
      (auto simp: bal_of_def find_row_append dest: find_row_SomeD)
  then have "balance_of (opened a s) acc = balance_of s acc" for acc by (simp add: int64_eq_iff del: opened_simps(2))
  with C show ?thesis by (auto simp: undisturbed_def held_sum_def filter_empty_conv)
qed

lemma undisturbed_archived:
  assumes "AccountRow acc \<notin> L"
  shows "undisturbed L s (archived acc s)"
proof -
  have "filter (\<lambda>a. a_id a \<in> A) (update_rows (\<lambda>a. a_id a = acc) (\<lambda>a. a\<lparr>a_archived := True\<rparr>) as)
      = filter (\<lambda>a. a_id a \<in> A) as" if "acc \<notin> A" for A as
    using that by (induction as) (auto simp: update_rows_def)
  moreover have "acc \<notin> A" if "AccountRow ` A \<subseteq> L" for A using that assms by blast
  ultimately show ?thesis by (auto simp: undisturbed_def balance_of_def held_sum_def)
qed

lemma held_sum_close:
  assumes "\<And>h. h \<in> set (holds s) \<Longrightarrow> 0 < sint (m_amount (h_amount h))" "st \<noteq> HoldActive"
  shows "held_sum (closed q st now f s) acc ex \<le> held_sum s acc ex"
  unfolding held_sum_closed [OF assms(2)] unfolding held_sum_def
  using assms(1) by (intro sum_list_filter_mono) auto

lemma undisturbed_closed:
  assumes "\<And>h. h \<in> set (holds s) \<Longrightarrow> 0 < sint (m_amount (h_amount h))" "st \<noteq> HoldActive"
    and free: "\<And>h. h \<in> set (holds s) \<Longrightarrow> q h \<Longrightarrow> HoldRow (h_id h) \<notin> L"
  shows "undisturbed L s (closed q st now f s)"
proof -
  have "h \<in> set (holds (closed q st now f s))" if "h \<in> set (holds s)" "HoldRow (h_id h) \<in> L" for h
    using that free [of h] by (force simp: update_rows_def)
  with held_sum_close [of s st q now f, OF assms(1,2)] show ?thesis
    by (simp add: undisturbed_def balance_of_def del: closed_simps(9))
qed

lemma undisturbed_held:
  assumes run: "hold_body pg_now req s = (Inr h, s')" and free: "AccountRow (hr_account req) \<notin> L"
  shows "undisturbed L s s'"
proof -
  have s': "s' = s\<lparr>seq_holds := seq_holds s + 1, holds := holds s @ [h]\<rparr>" and h: "h_account h = hr_account req"
    using hold_body_success [OF run] by auto
  have "held_sum s' acc ex = held_sum s acc ex" if "AccountRow acc \<in> L" for acc ex
    using that free h unfolding s' held_sum_snoc by auto
  then show ?thesis by (auto simp: undisturbed_def s' balance_of_def)
qed

lemma undisturbed_posted:
  assumes wf: "wf_db s" and run: "post now t0 ex s = (Inr (tid, t), s')"
    and free: "set (account_locks s t0 @ [ChainLock]) \<inter> L = {}"
  shows "undisturbed L s s'"
proof -
  from post_success [OF run wf_keys_ok [OF wf]] obtain bs where s': "s' = post_state s tid t bs" by auto
  note F = post_fields [OF run wf_keys_ok [OF wf]]
  have untouched: "delta_of (t_postings t) acc = 0" if "AccountRow acc \<in> L" for acc
  proof (rule delta_untouched)
    show "acc \<notin> p_account ` set (t_postings t)"
    proof
      assume "acc \<in> p_account ` set (t_postings t)"
      then obtain p where p: "p \<in> set (t_postings t)" "acc = p_account p" by auto
      with F(1) obtain a where "find_row a_id acc (accounts s) = Some a" unfolding post_checked_def by blast
      then have "acc \<in> a_id ` set (accounts s)" by (auto dest!: find_row_SomeD)
      with \<open>acc \<in> p_account ` set (t_postings t)\<close> have "AccountRow acc \<in> set (account_locks s t0)"
        by (auto simp: account_locks_def F(3) intro!: rev_image_eqI)
      with that free show False by auto
    qed
  qed
  have "ChainLock \<notin> L" using free by auto
  moreover have "balance_of s' acc = balance_of s acc" if "AccountRow acc \<in> L" for acc
    using balance_after_post [OF wf run] untouched [OF that] by simp
  ultimately show ?thesis by (auto simp: undisturbed_def s' held_sum_def)
qed

lemma undisturbed_captured:
  assumes wf: "wf_db s" and val: "Validate t0 = None" and run: "capture_body now post_now pg_now ref t0 s = (Inr x, s')"
    and free: "set (locks_of s (CaptureCall ref t0)) \<inter> L = {}"
  shows "undisturbed L s s'"
proof -
  obtain tid t where x: "x = (tid, t)" by fastforce
  show ?thesis
  proof (rule capture_body_success [OF run [unfolded x]])
    fix h a s1
    assume h: "find_row h_reference ref (holds s) = Some h" and post: "post post_now t0 (h_id h) s = (Inr (tid, t), s1)"
      and s': "s' = closed (\<lambda>h'. h_id h' = h_id h) HoldCaptured pg_now (\<lambda>_. Some tid) s1"
    have locks: "set (locks_of s (CaptureCall ref t0)) = insert (HoldRow (h_id h)) (insert (AccountRow (h_account h)) (set (account_locks s t0 @ [ChainLock])))"
      by (auto simp: locks_of_def capture_locks_def h)
    have "undisturbed L s s1" using free locks by (intro undisturbed_posted [OF wf post]) auto
    moreover have "undisturbed L s1 s'"
      unfolding s' using wf_hold_amounts [OF wf_posted_state [OF wf val post]] free locks by (intro undisturbed_closed) auto
    ultimately show ?thesis by (rule undisturbed_trans)
  qed
qed

section \<open>What a lock protects\<close>

lemma reversed_post:
  assumes "Reverse New now ref newRef desc s = (r, s')" "s' \<noteq> s"
  shows "\<exists>row. find_row tr_reference ref (transfers s) = Some row
    \<and> Post New now (reversal_of ref newRef desc (transfer_of_row s row) (tr_id row)) s = (r, s')"
proof -
  from assms obtain t tid s1 where read: "TransferByReference New ref s = (Inr (t, tid), s1)"
    and p: "Post New now (reversal_of ref newRef desc t tid) s1 = (r, s')"
    by (auto simp: Reverse_def and_then_def split: prod.splits sum.splits if_splits dest: TransferByReference_New)
  from read have "s1 = s" "\<exists>row. find_row tr_reference ref (transfers s) = Some row \<and> t = transfer_of_row s row \<and> tid = tr_id row"
    by (auto simp: TransferByReference_def)
  with p show ?thesis by blast
qed

lemma undisturbed_undone: "undisturbed L s (rollback s s1)"
  by (rule undisturbed_same_data) simp

lemma undisturbed_hold_closed:
  assumes "wf_db s" "st \<noteq> HoldActive" "\<And>h. h \<in> set (holds s) \<Longrightarrow> q h \<Longrightarrow> HoldRow (h_id h) \<notin> L"
  shows "undisturbed L s (closed q st now f s)"
  using assms(2,3) wf_hold_amounts [OF assms(1)] by (intro undisturbed_closed) simp_all

lemma undisturbed_Post:
  assumes wf: "wf_db s" and run: "Post New now t s = (r, s1)" and free: "set (account_locks s t @ [ChainLock]) \<inter> L = {}"
  shows "undisturbed L s s1"
  using Post_cases [OF run]
proof (elim disjE exE conjE)
  fix x assume "post now t 0 s = (Inr x, s1)"
  with undisturbed_posted [OF wf _ free] show ?thesis by (cases x) simp
qed (simp add: undisturbed_undone)

lemma undisturbed_Reverse:
  assumes wf: "wf_db s" and run: "Reverse New now ref newRef desc s = (r, s')"
    and free: "set (locks_of s (ReverseCall ref newRef desc)) \<inter> L = {}"
  shows "undisturbed L s s'"
proof (cases "s' = s")
  case False
  from reversed_post [OF run False] obtain row where row: "find_row tr_reference ref (transfers s) = Some row"
    and p: "Post New now (reversal_of ref newRef desc (transfer_of_row s row) (tr_id row)) s = (r, s')" by blast
  from free row show ?thesis by (intro undisturbed_Post [OF wf p]) (simp add: locks_of_def)
qed (simp add: undisturbed_same_data)

lemma undisturbed_Capture:
  assumes wf: "wf_db s" and run: "Capture New now post_now pg_now ref t s = (r, s')"
    and free: "set (locks_of s (CaptureCall ref t)) \<inter> L = {}"
  shows "undisturbed L s s'"
  using Capture_cases [OF run wf_clean [OF wf]]
proof (elim disjE exE conjE)
  fix x assume "Validate t = None" "capture_body now post_now pg_now ref t s = (Inr x, s')"
  then show ?thesis using free by (rule undisturbed_captured [OF wf])
next
  fix s1 h assume h: "find_row h_reference ref (holds s) = Some h"
    and s': "s' = closed (\<lambda>h'. h_id h' = h_id h \<and> h_status h' = HoldActive) HoldExpired pg_now (\<lambda>x. x) (rollback s s1)"
  have "undisturbed L (rollback s s1) s'"
    unfolding s' using wf_hold_amounts [OF wf] free h by (intro undisturbed_closed) (auto simp: locks_of_def capture_locks_def)
  with undisturbed_undone show ?thesis by (rule undisturbed_trans)
qed (simp add: undisturbed_undone)

lemma undisturbed_Release:
  assumes wf: "wf_db s" and run: "Release New pg_now ref s = (r, s')" and free: "set (locks_of s (ReleaseCall ref)) \<inter> L = {}"
  shows "undisturbed L s s'"
  using Release_cases [OF run]
proof (elim disjE exE conjE)
  fix h assume h: "find_row h_reference ref (holds s) = Some h"
    and s': "s' = closed (\<lambda>h'. h_id h' = h_id h) HoldReleased pg_now (\<lambda>x. x) s"
  show ?thesis
    unfolding s' using free h by (intro undisturbed_hold_closed [OF wf]) (auto simp: locks_of_def)
qed (simp add: undisturbed_undone)

lemma undisturbed_ExpireHolds:
  assumes wf: "wf_db s" and run: "ExpireHolds New pg_now s = (r, s')"
    and free: "\<And>h. h \<in> set (holds s) \<Longrightarrow> h_status h = HoldActive \<Longrightarrow> (case h_expires_at h of None \<Rightarrow> False | Some e \<Rightarrow> e \<le> pg_now) \<Longrightarrow> HoldRow (h_id h) \<notin> L"
  shows "undisturbed L s s'"
  using ExpireHolds_cases [OF run]
proof (elim disjE exE conjE)
  assume s': "s' = closed (\<lambda>h. h_status h = HoldActive \<and> (case h_expires_at h of None \<Rightarrow> False | Some e \<Rightarrow> e \<le> pg_now))
    HoldExpired pg_now (\<lambda>x. x) s"
  show ?thesis unfolding s' by (rule undisturbed_hold_closed [OF wf]) (use free in auto)
qed (simp add: undisturbed_undone)

lemma call_undisturbed:
  assumes wf: "wf_db s" and step: "call_step c s s'" and free: "set (locks_of s c) \<inter> L = {}"
  shows "undisturbed L s s'"
  using step
proof cases
  case (create a r)
  from CreateAccount_cases [OF create(2)] undisturbed_undone undisturbed_opened create(2) show ?thesis by auto
next
  case (archive acc r)
  with free have "AccountRow acc \<notin> L" by (simp add: locks_of_def)
  with Archive_cases [OF archive(2)] undisturbed_undone undisturbed_archived show ?thesis by auto
next
  case (posting now t r)
  with free show ?thesis by (intro undisturbed_Post [OF wf posting(2)]) (simp add: locks_of_def)
next
  case (reverse now ref newRef desc r)
  from undisturbed_Reverse [OF wf reverse(2) free [unfolded reverse(1)]] show ?thesis .
next
  case (hold pg_now req r)
  with free have "AccountRow (hr_account req) \<notin> L" by (simp add: locks_of_def)
  with Hold_cases [OF hold(2)] undisturbed_undone undisturbed_held show ?thesis by blast
next
  case (capture now post_now pg_now ref t r)
  from undisturbed_Capture [OF wf capture(2) free [unfolded capture(1)]] show ?thesis .
next
  case (release pg_now ref r)
  from undisturbed_Release [OF wf release(2) free [unfolded release(1)]] show ?thesis .
next
  case (expire pg_now r due)
  have "HoldRow i \<notin> L" if "i \<in> set due" for i using free that expire(1) by (auto simp: locks_of_def)
  then show ?thesis by (intro undisturbed_ExpireHolds [OF wf expire(2)]) (auto simp: expire(3))
qed

section \<open>While a lock is held\<close>

text \<open>
  What can happen while a transaction holds the locks \<open>L\<close>: other calls commit, in any number and order, as long as
  the locks they take are not in \<open>L\<close>, and calls fail without a trace.
\<close>

inductive others :: "lock set \<Rightarrow> db \<Rightarrow> db \<Rightarrow> bool" for L where
  idle: "others L s s"
| commits: "others L s s1 \<Longrightarrow> call_step c s1 s2 \<Longrightarrow> set (locks_of s1 c) \<inter> L = {} \<Longrightarrow> others L s s2"
| fails: "others L s s1 \<Longrightarrow> call_step c s1 s2 \<Longrightarrow> data_of s2 = data_of s1 \<Longrightarrow> others L s s2"

lemma others_steps: "others L s s' \<Longrightarrow> ledger_step\<^sup>*\<^sup>* s s'"
  by (induction rule: others.induct) (auto simp: ledger_step_call intro: rtranclp.rtrancl_into_rtrancl)

lemma others_reachable: "others L s s' \<Longrightarrow> reachable s \<Longrightarrow> reachable s'"
  using others_steps unfolding reachable_def by (metis rtranclp_trans)

lemma others_undisturbed: "others L s s' \<Longrightarrow> reachable s \<Longrightarrow> undisturbed L s s'"
proof (induction rule: others.induct)
  case (commits s s1 c s2)
  then have "undisturbed L s1 s2"
    by (intro call_undisturbed reachable_wf others_reachable [OF commits(1)])
  from undisturbed_trans [OF commits(4) [OF commits(5)] this] show ?case .
next
  case (fails s s1 c s2)
  from undisturbed_trans [OF fails(4) [OF fails(5)] undisturbed_same_data [OF fails(3)]] show ?case .
qed (rule undisturbed_same_data, rule refl)

lemma find_row_of_filter: "find_row key k rows = find_row key k (filter (\<lambda>r. key r = k) rows)"
  by (induction rows) auto

text \<open>
  C17: What a lock protects. While a transaction of a reachable ledger holds locks, whatever calls commit beside it under locks
  of their own: the rows of its locked accounts stay as they are, their balances too, and what is held on them can only fall; with
  \<open>chainLockKey\<close>, no transfer, posting or balance changes at all; and its locked holds stay as they are.
\<close>

theorem locks_protect:
  assumes "reachable s" "others L s s'"
  shows "(\<forall>acc. AccountRow acc \<in> L \<longrightarrow> acc \<in> a_id ` set (accounts s) \<longrightarrow> find_row a_id acc (accounts s') = find_row a_id acc (accounts s))
    \<and> (\<forall>acc. AccountRow acc \<in> L \<longrightarrow> balance_of s' acc = balance_of s acc \<and> (\<forall>ex. held_sum s' acc ex \<le> held_sum s acc ex))
    \<and> (ChainLock \<in> L \<longrightarrow> transfers s' = transfers s \<and> postings s' = postings s \<and> (\<forall>acc. balance_of s' acc = balance_of s acc))
    \<and> (\<forall>h \<in> set (holds s). HoldRow (h_id h) \<in> L \<longrightarrow> h \<in> set (holds s'))"
proof -
  note U = others_undisturbed [OF assms(2,1), unfolded undisturbed_def]
  have "find_row a_id acc (accounts s') = find_row a_id acc (accounts s)"
    if "AccountRow acc \<in> L" "acc \<in> a_id ` set (accounts s)" for acc
  proof -
    have "filter (\<lambda>a. a_id a = acc) (accounts s') = filter (\<lambda>a. a_id a = acc) (accounts s)"
      using U [THEN conjunct1, rule_format, of "{acc}"] that by simp
    then show ?thesis by (metis find_row_of_filter)
  qed
  with U show ?thesis by blast
qed

theorem locks_protect_witness:
  "find_row a_id ''cash'' (accounts held_db) = find_row a_id ''cash'' (accounts sold_db) \<and> postings held_db = postings sold_db"
proof -
  have "call_step (HoldCall (hr_account earmark) (hr_reference earmark)) sold_db held_db" by (rule hold) (rule Hold_sold)
  with idle have "others {AccountRow ''cash'', ChainLock} sold_db held_db"
    by (rule commits) (simp add: locks_of_def earmark_def)
  from locks_protect [OF reachable_sold_db this] show ?thesis by simp
qed

end
