(* ===== verification/Waiting.thy ===== *)
theory Waiting
  imports Isolation
begin

text \<open>
  Why one call may be read as one step. A call of \<open>store.go\<close> or \<open>hold.go\<close> reads and waits for locks by turns, and other calls commit
  in between: \<open>post\<close> before each account row and before \<open>chainLockKey\<close>, \<open>Capture\<close> also before its hold and the held
  account, \<open>Reverse\<close> between its two transactions. Each does what it would do if it ran at once at the last moment.
  The end shows that a post may be sent again.
\<close>

section \<open>Waiting for rows\<close>

lemma others_mono: "others L s s' \<Longrightarrow> K \<subseteq> L \<Longrightarrow> others K s s'"
proof (induction rule: others.induct)
  case (commits s s1 c s2)
  then have "others K s s1" "set (locks_of s1 c) \<inter> K = {}" by auto
  with commits(2) show ?case by (blast intro: others.commits)
qed (auto intro: others.intros)

lemma others_trans: "others L s1 s2 \<Longrightarrow> others L s s1 \<Longrightarrow> others L s s2"
  by (induction rule: others.induct) (auto intro: others.intros)

lemma locked_account_stays:
  assumes "others L s s'" "reachable s" "AccountRow (a_id a) \<in> L" "a \<in> set (accounts s)"
  shows "a \<in> set (accounts s')"
proof -
  have "filter (\<lambda>b. a_id b \<in> {a_id a}) (accounts s') = filter (\<lambda>b. a_id b \<in> {a_id a}) (accounts s)"
    using others_undisturbed [OF assms(1,2), unfolded undisturbed_def, THEN conjunct1, rule_format, of "{a_id a}"] assms(3,4) by simp
  moreover have "a \<in> set (filter (\<lambda>b. a_id b \<in> {a_id a}) (accounts s))" using assms(4) by simp
  ultimately have "a \<in> set (filter (\<lambda>b. a_id b \<in> {a_id a}) (accounts s'))" by (simp only:)
  then show ?thesis by simp
qed

text \<open>
  \<open>SELECT ... FOR UPDATE\<close> over several rows, under the locks \<open>L\<close>: the rows were found at the start; each is read when its lock
  is granted, after whatever has committed meanwhile, and stays locked.
\<close>

inductive lock_rows :: "lock set \<Rightarrow> string list \<Rightarrow> db \<Rightarrow> account list \<Rightarrow> db \<Rightarrow> bool" where
  none: "lock_rows L [] s [] s"
| grant: "others L s s1 \<Longrightarrow> find_row a_id acc (accounts s1) = Some a \<Longrightarrow>
    lock_rows (insert (AccountRow acc) L) accs s1 as s' \<Longrightarrow> lock_rows L (acc # accs) s (a # as) s'"

lemma lock_rows_read:
  assumes "lock_rows L ids s accs s'" "reachable s"
  shows "others L s s' \<and> map a_id accs = ids \<and> set accs \<subseteq> set (accounts s')"
  using assms
proof (induction rule: lock_rows.induct)
  case (none L s)
  show ?case by (simp add: idle)
next
  case (grant L s s1 acc a ids accs s')
  have s1: "reachable s1" using others_reachable [OF grant(1,5)] .
  note IH = grant(4) [OF s1]
  have a: "a \<in> set (accounts s1)" "a_id a = acc" using find_row_SomeD [OF grant(2)] by auto
  then have "a \<in> set (accounts s')" using locked_account_stays [OF _ s1 _ a(1)] IH by auto
  moreover have "others L s s'" using IH others_mono [of "insert (AccountRow acc) L" s1 s' L] others_trans [OF _ grant(1)] by blast
  ultimately show ?case using IH a(2) by simp
qed

lemma rows_by_key:
  assumes "sorted_wrt (<) (map a_id xs)" "sorted_wrt (<) (map a_id ys)" "set xs = set ys" "inj_on a_id (set xs)"
  shows "xs = ys"
proof -
  have "map a_id xs = map a_id ys"
    using assms(1-3) by (intro sorted_distinct_set_unique) (simp_all add: strict_sorted_iff)
  then show ?thesis by (rule map_inj_on) (use assms(3,4) in simp)
qed

text \<open>The rows that were read are those the whole statement would read at the end.\<close>

lemma locked_accounts:
  assumes "reachable s" "lockAccounts t s = (Inr accs0, s)" "lock_rows L (map a_id accs0) s accs s1"
    and "others (L \<union> set (account_locks s t)) s1 s'" "p_account ` set (t_postings t) \<subseteq> a_id ` set (accounts s)"
  shows "lockAccounts t s' = (Inr accs, s')"
proof -
  let ?P = "p_account ` set (t_postings t)" and ?at = "\<lambda>s. sort_key a_id (filter (\<lambda>a. a_id a \<in> p_account ` set (t_postings t)) (accounts s))"
  note R = lock_rows_read [OF assms(3,1)]
  have s1: "reachable s1" and s': "reachable s'"
    using R others_reachable assms(1) others_reachable [OF assms(4)] by blast+
  have accs0: "accs0 = ?at s" using assms(2) by (auto simp: lockAccounts_def)
  have keys: "distinct (map a_id (accounts r))" if "reachable r" for r
    using wf_keys_ok [OF reachable_wf [OF that]] by (simp add: keys_ok_def)
  have sorted: "sorted_wrt (<) (map a_id (?at r))" if "reachable r" for r
    using account_locks_ascending [OF keys [OF that], of t] by (simp add: account_locks_def sorted_wrt_map)
  have ids: "a_id ` set accs = ?P"
  proof -
    have "a_id ` set accs = a_id ` set accs0" using R by (metis list.set_map)
    also have "\<dots> = a_id ` set (accounts s) \<inter> ?P" by (auto simp: accs0)
    also have "\<dots> = ?P" using assms(5) by blast
    finally show ?thesis .
  qed
  have stay: "set accs \<subseteq> set (accounts s')"
  proof
    fix a assume a: "a \<in> set accs"
    then have "a_id a \<in> set (map a_id accs)" by simp
    with R have "a_id a \<in> set (map a_id accs0)" by (simp only:)
    then have "AccountRow (a_id a) \<in> AccountRow ` set (map a_id accs0)" by (rule imageI)
    moreover have "a \<in> set (accounts s1)" using a R by blast
    moreover have "AccountRow ` set (map a_id accs0) = set (account_locks s t)" by (simp add: accs0 account_locks_def image_image)
    ultimately show "a \<in> set (accounts s')" by (intro locked_account_stays [OF assms(4) s1]) auto
  qed
  have inj: "inj_on a_id (set (accounts s'))" using keys [OF s'] by (simp add: distinct_map)
  have "set (?at s') = set accs"
  proof (intro equalityI subsetI)
    fix b assume "b \<in> set (?at s')"
    then have b: "b \<in> set (accounts s')" "a_id b \<in> a_id ` set accs" by (simp_all add: ids)
    then obtain a where "a \<in> set accs" "a_id a = a_id b" by auto
    with b stay inj show "b \<in> set accs" by (auto dest: inj_onD)
  qed (use stay ids in auto)
  then have "?at s' = accs"
    using R sorted [OF assms(1)] sorted [OF s'] inj stay accs0 by (intro rows_by_key) (auto intro: inj_on_subset)
  then show ?thesis
    using wf_clean [OF reachable_wf [OF s']] by (simp add: lockAccounts_def)
qed

text \<open>\<open>post\<close> after \<open>lockAccounts\<close>.\<close>

definition post_locked :: "time \<Rightarrow> transfer \<Rightarrow> int \<Rightarrow> account list \<Rightarrow> (int \<times> transfer) run" where
  "post_locked now t0 excludeHold accs =
     (let postedAt = resolve_posted_at now t0; t = t0\<lparr>t_posted_at := postedAt\<rparr> in
      and_then (of_result (check_accounts accs (t_postings t))) (\<lambda>_.
      and_then (select (\<lambda>s. ())) (\<lambda>_.
      and_then (select newest_hash) (\<lambda>prev.
      and_then (map_error (insert_error t)
                 (sql (insert_transfer t postedAt prev (chainDigest prev t postedAt)))) (\<lambda>tid.
      and_then (for_each (\<lambda>p. sql (insert_posting tid p)) (t_postings t)) (\<lambda>_.
      and_then (applyBalances t) (\<lambda>_.
      and_then (for_each (guard_account excludeHold) accs) (\<lambda>_.
      ret (tid, t)))))))))"

lemma post_halves: "post now t0 ex = and_then (lockAccounts t0) (post_locked now t0 ex)"
  unfolding post_def post_locked_def [abs_def] lockAccounts_def Let_def by simp

section \<open>Waiting calls\<close>

lemma post_waits:
  assumes "reachable s" "lockAccounts t0 s = (Inr accs0, s)" "lock_rows L (map a_id accs0) s accs s1"
    and "others (L \<union> set (account_locks s t0)) s1 s'"
  shows "post_locked now t0 ex accs s' = post now t0 ex s'
    \<or> (\<exists>e e'. (\<forall>r. post_locked now t0 ex accs r = (Inl e, r)) \<and> post now t0 ex s = (Inl e', s))"
proof (cases "p_account ` set (t_postings t0) \<subseteq> a_id ` set (accounts s)")
  case True
  from locked_accounts [OF assms True] show ?thesis by (simp add: post_halves and_then_run_Inr)
next
  case False
  then obtain p where p: "p \<in> set (t_postings t0)" "p_account p \<notin> a_id ` set (accounts s)" by auto
  have refuse: "\<exists>e. \<forall>r. post_locked now t0 ex as r = (Inl e, r)" if "a_id ` set as \<subseteq> a_id ` set (accounts s)" for as
  proof -
    have "find_row a_id (p_account p) as = None" using p(2) that by (auto simp: find_row_None_iff)
    then have "check_accounts as (t_postings t0) \<noteq> Inr ()" using p(1) by (force simp: check_accounts_Inr_iff)
    then obtain e where e: "check_accounts as (t_postings t0) = Inl e" by (cases "check_accounts as (t_postings t0)") auto
    then show ?thesis by (intro exI [of _ e]) (simp add: post_locked_def Let_def and_then_run_Inl)
  qed
  have "a_id ` set accs0 \<subseteq> a_id ` set (accounts s)" using assms(2) by (auto simp: lockAccounts_def)
  moreover have "a_id ` set accs = a_id ` set accs0" using lock_rows_read [OF assms(3,1)] by (metis list.set_map)
  ultimately obtain e e' where "\<forall>r. post_locked now t0 ex accs r = (Inl e, r)" "\<forall>r. post_locked now t0 ex accs0 r = (Inl e', r)"
    using refuse [of accs] refuse [of accs0] by auto
  then show ?thesis using assms(2) by (auto simp: post_halves and_then_run_Inr)
qed

text \<open>
  C18: Waiting for locks costs nothing but time. A post finds its accounts at one moment, reads each when its row lock is granted, takes
  \<open>chainLockKey\<close> and does the rest; between any two of these other calls commit, as far as the locks granted so far let them.
  The outcome is that of the whole \<open>post\<close> run at once at the last moment, or a refusal that changes nothing, as the whole
  \<open>post\<close> would have been refused at the first: a posting names an account that did not exist.
\<close>

theorem post_after_wait:
  assumes "reachable s" "lockAccounts t0 s = (Inr accs0, s)" "lock_rows {} (map a_id accs0) s accs s1"
    and "others (set (account_locks s t0)) s1 s'"
  shows "post_locked now t0 ex accs s' = post now t0 ex s'
    \<or> (\<exists>e e'. post_locked now t0 ex accs s' = (Inl e, s') \<and> post now t0 ex s = (Inl e', s))"
  using post_waits [OF assms(1-3), of s'] assms(4) by fastforce

theorem post_after_wait_witness:
  "post_locked noon refund 0 [cash, sales] (snd (Release New noon ''hold-1'' held_db)) = post noon refund 0 (snd (Release New noon ''hold-1'' held_db))
    \<or> (\<exists>e e'. post_locked noon refund 0 [cash, sales] (snd (Release New noon ''hold-1'' held_db)) = (Inl e, snd (Release New noon ''hold-1'' held_db))
          \<and> post noon refund 0 held_db = (Inl e', held_db))"
proof (rule post_after_wait [OF reachable_held_db])
  show "lockAccounts refund held_db = (Inr [cash, sales], held_db)"
    by (rule lock_sample) (simp_all add: refund_def leg_def insert_commute)
  show "lock_rows {} (map a_id [cash, sales]) held_db [cash, sales] held_db"
    by (auto simp: cash_def sales_def find_row_append intro!: lock_rows.intros idle)
  have "call_step (ReleaseCall ''hold-1'') held_db (snd (Release New noon ''hold-1'' held_db))"
    by (rule release) (rule prod.collapse [symmetric])
  with idle show "others (set (account_locks held_db refund)) held_db (snd (Release New noon ''hold-1'' held_db))"
    by (rule commits) (simp add: locks_of_def refund_locks)
qed

text \<open>\<open>Capture\<close> from \<open>chainLockKey\<close> on, with the hold and the accounts it has locked.\<close>

definition capture_locked :: "time \<Rightarrow> time \<Rightarrow> hold \<Rightarrow> transfer \<Rightarrow> account list \<Rightarrow> (ledger_error \<times> int, db, int \<times> transfer) prog" where
  "capture_locked post_now pg_now h t accs =
     and_then (plain (post_locked post_now t (h_id h) accs)) (\<lambda>(tid, t').
     and_then (plain (sql (close_holds (\<lambda>h'. h_id h' = h_id h) HoldCaptured pg_now (\<lambda>_. Some tid)))) (\<lambda>_.
     ret (tid, t')))"

text \<open>What \<open>Capture\<close> checks before it locks the transfer's accounts.\<close>

definition may_capture :: "time \<Rightarrow> hold \<Rightarrow> account \<Rightarrow> transfer \<Rightarrow> bool" where
  "may_capture now h a t \<longleftrightarrow> h_status h = HoldActive \<and> \<not> past_due now h
     \<and> (let spent = sint (spent_loop (h_account h) (a_type a) (t_postings t) 0) in 0 < spent \<and> spent \<le> sint (m_amount (h_amount h)))"

lemma capture_body_checked:
  assumes "may_capture now h a t" "find_row h_reference ref (holds s) = Some h" "find_row a_id (h_account h) (accounts s) = Some a"
    and "\<not> tx_aborted s"
  shows "capture_body now post_now pg_now ref t s =
    and_then (plain (post post_now t (h_id h))) (\<lambda>(tid, t').
      and_then (plain (sql (close_holds (\<lambda>h'. h_id h' = h_id h) HoldCaptured pg_now (\<lambda>_. Some tid)))) (\<lambda>_. ret (tid, t'))) s"
proof -
  have "plain (lockHold ref) s = (Inr h, s)" "plain (lockAccount (h_account h)) s = (Inr a, s)"
    using assms(2-4) by simp_all
  then show ?thesis
    using assms(1) by (simp add: capture_body_def may_capture_def Let_def and_then_run_Inr)
qed

lemma locked_hold_stays:
  assumes "others L s s'" "reachable s" "HoldRow (h_id h) \<in> L" "find_row h_reference ref (holds s) = Some h"
  shows "find_row h_reference ref (holds s') = Some h"
proof -
  have "h \<in> set (holds s')" "h_reference h = ref"
    using others_undisturbed [OF assms(1,2)] assms(3) find_row_SomeD [OF assms(4)] by (auto simp: undisturbed_def)
  then show ?thesis using find_hold [OF reachable_wf [OF others_reachable [OF assms(1,2)]]] by blast
qed

lemma locked_account_found:
  assumes "others L s s'" "reachable s" "AccountRow acc \<in> L" "find_row a_id acc (accounts s) = Some a"
  shows "find_row a_id acc (accounts s') = Some a"
proof -
  have "a \<in> set (accounts s')" "a_id a = acc"
    using locked_account_stays [OF assms(1,2)] assms(3) find_row_SomeD [OF assms(4)] by auto
  then show ?thesis using find_account [OF reachable_wf [OF others_reachable [OF assms(1,2)]]] by blast
qed

text \<open>
  C19: The same for a capture, which waits three times more. It reads its hold when the hold's lock is granted, the held account when its row is,
  then each account of the transfer, then takes \<open>chainLockKey\<close>; between any two of these other calls commit as far as the locks
  allow. If the hold may be captured when it is checked, the outcome is that of the whole transaction run at once at the
  last moment, or a refusal that changes nothing, because the transfer names an account that did not exist.
\<close>

theorem capture_after_wait:
  assumes "reachable s" "find_row h_reference ref (holds s) = Some h"
    and "others {HoldRow (h_id h)} s s1" "find_row a_id (h_account h) (accounts s1) = Some a" "may_capture now h a t"
    and "others {HoldRow (h_id h), AccountRow (h_account h)} s1 s2" "lockAccounts t s2 = (Inr accs0, s2)"
    and "lock_rows {HoldRow (h_id h), AccountRow (h_account h)} (map a_id accs0) s2 accs s3"
    and "others (set (capture_locks s2 h t) - {ChainLock}) s3 s'"
  shows "capture_locked post_now pg_now h t accs s' = capture_body now post_now pg_now ref t s'
    \<or> (\<exists>e e'. capture_locked post_now pg_now h t accs s' = (Inl e, s') \<and> capture_body now post_now pg_now ref t s2 = (Inl e', s2))"
proof -
  let ?L = "{HoldRow (h_id h), AccountRow (h_account h)}"
  have locks: "set (capture_locks s2 h t) - {ChainLock} = ?L \<union> set (account_locks s2 t)"
    using account_locks_rows by (auto simp: capture_locks_def)
  note r1 = others_reachable [OF assms(3,1)]
  note r2 = others_reachable [OF assms(6) r1]
  note R = lock_rows_read [OF assms(8) r2]
  have r3: "reachable s3" using others_reachable R r2 by blast
  have last: "others ?L s3 s'" by (rule others_mono [OF assms(9)]) (auto simp: locks)
  have r': "reachable s'" by (rule others_reachable [OF last r3])
  have hold1: "find_row h_reference ref (holds s1) = Some h"
    by (rule locked_hold_stays [OF assms(3,1) _ assms(2)]) simp
  have hold2: "find_row h_reference ref (holds s2) = Some h" and acc2: "find_row a_id (h_account h) (accounts s2) = Some a"
    by (rule locked_hold_stays [OF assms(6) r1 _ hold1], simp) (rule locked_account_found [OF assms(6) r1 _ assms(4)], simp)
  have hold3: "find_row h_reference ref (holds s3) = Some h" and acc3: "find_row a_id (h_account h) (accounts s3) = Some a"
    using locked_hold_stays [OF _ r2 _ hold2] locked_account_found [OF _ r2 _ acc2] R by blast+
  have hold': "find_row h_reference ref (holds s') = Some h" and acc': "find_row a_id (h_account h) (accounts s') = Some a"
    using locked_hold_stays [OF last r3 _ hold3] locked_account_found [OF last r3 _ acc3] by blast+
  note at' = capture_body_checked [OF assms(5) hold' acc' wf_clean [OF reachable_wf [OF r']], of post_now pg_now]
  note at2 = capture_body_checked [OF assms(5) hold2 acc2 wf_clean [OF reachable_wf [OF r2]], of post_now pg_now]
  from post_waits [OF r2 assms(7,8), of s' post_now "h_id h"] assms(9) [unfolded locks]
  consider "post_locked post_now t (h_id h) accs s' = post post_now t (h_id h) s'"
    | e e' where "post_locked post_now t (h_id h) accs s' = (Inl e, s')" "post post_now t (h_id h) s2 = (Inl e', s2)" by blast
  then show ?thesis
  proof cases
    case 1
    then have "plain (post_locked post_now t (h_id h) accs) s' = plain (post post_now t (h_id h)) s'"
      by (simp add: plain_def map_error_def)
    then show ?thesis unfolding at' capture_locked_def by (simp add: and_then_def)
  next
    case (2 e e')
    then show ?thesis unfolding at2 capture_locked_def by (simp add: and_then_def plain_def map_error_def)
  qed
qed

theorem capture_after_wait_witness:
  "capture_locked noon noon placed_hold refund [cash, sales] held_db = capture_body noon noon noon ''hold-1'' refund held_db
    \<or> (\<exists>e e'. capture_locked noon noon placed_hold refund [cash, sales] held_db = (Inl e, held_db)
          \<and> capture_body noon noon noon ''hold-1'' refund held_db = (Inl e', held_db))"
proof (rule capture_after_wait [where s = held_db and ?s1.0 = held_db and a = sales])
  show "lockAccounts refund held_db = (Inr [cash, sales], held_db)"
    by (rule lock_sample) (simp_all add: refund_def leg_def insert_commute)
  show "lock_rows {HoldRow (h_id placed_hold), AccountRow (h_account placed_hold)} (map a_id [cash, sales]) held_db [cash, sales] held_db"
    by (auto simp: cash_def sales_def find_row_append intro!: lock_rows.intros idle)
  show "may_capture noon placed_hold sales refund"
    by (simp add: may_capture_def placed_hold_def past_due_def refund_def leg_def Let_def)
       (simp add: sample_simps normalise_def debitNormal_def Asset_def Expense_def)
qed (simp_all add: reachable_held_db idle placed_hold_def cash_def sales_def find_row_append)

section \<open>Between the two halves of a reversal\<close>

text \<open>
  A pooled \<open>Reverse\<close> reads the original in one transaction and posts in another. A stored transfer reads the same ever after, so
  the call does what it would do if both happened at the second moment.
\<close>

definition still_read :: "db \<Rightarrow> db \<Rightarrow> bool" where
  "still_read s0 s \<longleftrightarrow> wf_db s \<and> (\<forall>ref row. find_row tr_reference ref (transfers s0) = Some row \<longrightarrow>
     find_row tr_reference ref (transfers s) = Some row \<and> transfer_of_row s row = transfer_of_row s0 row)"

lemma still_read_posted:
  assumes "still_read s0 s" and val: "Validate t0 = None" and run: "post now t0 hid s = (Inr (tid, t), s')"
  shows "still_read s0 s'"
  unfolding still_read_def
proof (intro conjI allI impI)
  have wf: "wf_db s" using assms(1) by (simp add: still_read_def)
  from post_success [OF run wf_keys_ok [OF wf]] obtain bs where s': "s' = post_state s tid t bs" and tid: "tid = seq_transfers s + 1"
    by blast
  show "wf_db s'" by (rule wf_posted_state [OF wf val run])
  fix ref row assume "find_row tr_reference ref (transfers s0) = Some row"
  then have row: "find_row tr_reference ref (transfers s) = Some row" "transfer_of_row s row = transfer_of_row s0 row"
    using assms(1) by (simp_all add: still_read_def)
  then show "find_row tr_reference ref (transfers s') = Some row" by (simp add: s' find_row_append)
  have "tr_id row \<le> seq_transfers s" using find_row_SomeD [OF row(1)] wf by (auto simp: wf_db_def journal_wf_def)
  then have "postings_of s' (tr_id row) = postings_of s (tr_id row)"
    using postings_after_post [OF wf val run] tid by auto
  with row(2) show "transfer_of_row s' row = transfer_of_row s0 row" by (simp add: transfer_of_row_def)
qed

interpretation rereading: journal_invariant "still_read s0" for s0
proof (unfold_locales, goal_cases)
  case (2 s s')
  then show ?case by (auto simp: still_read_def transfer_of_row_def postings_of_def)
qed (simp add: still_read_def, blast intro: still_read_posted)

lemma reverse_after_wait:
  assumes "reachable s" "ledger_step\<^sup>*\<^sup>* s s'" "TransferByReference New ref s = (Inr (orig, origID), s)" "newRef \<noteq> []"
  shows "Post New now (reversal_of ref newRef desc orig origID) s' = Reverse New now ref newRef desc s'"
proof -
  from assms(3) obtain row where row: "find_row tr_reference ref (transfers s) = Some row" "orig = transfer_of_row s row" "origID = tr_id row"
    by (auto simp: TransferByReference_def)
  have "still_read s s" using reachable_wf [OF assms(1)] by (simp add: still_read_def)
  then have later: "still_read s s'" by (rule rereading.reached_inv [OF assms(2)])
  then have "find_row tr_reference ref (transfers s') = Some row" "transfer_of_row s' row = orig"
    using row by (auto simp: still_read_def)
  moreover have "\<not> tx_aborted s'" using later by (simp add: still_read_def wf_clean)
  ultimately show ?thesis using Reverse_run [OF _ _ assms(4)] row(3) by simp
qed

section \<open>Posting again\<close>

lemma filter_one_key: "distinct (map key xs) \<Longrightarrow> x \<in> set xs \<Longrightarrow> filter (\<lambda>y. key y = key x) xs = [x]"
  by (induction xs) (auto simp: filter_empty_conv, metis image_eqI)

lemma still_read_later:
  assumes "reachable s" "ledger_step\<^sup>*\<^sup>* s s'" "find_row tr_reference ref (transfers s) = Some row"
  shows "find_row tr_reference ref (transfers s') = Some row \<and> transfer_of_row s' row = transfer_of_row s row"
proof -
  have "still_read s s" using reachable_wf [OF assms(1)] by (simp add: still_read_def)
  then have "still_read s s'" by (rule rereading.reached_inv [OF assms(2)])
  with assms(3) show ?thesis by (simp add: still_read_def)
qed

text \<open>
  C8: A lost answer costs nothing: a caller may post again. Once a post has gone through, a post with the same reference, whatever it
  says and whatever has been committed in between, is refused and changes nothing; there is one transfer
  with that reference, and it reads back as the first post returned it.
\<close>

theorem retry_posts_once:
  assumes "reachable s" "Post New now t s = (Inr (tid, t'), s1)" "ledger_step\<^sup>*\<^sup>* s1 s2"
    and "Post New now' u s2 = (r, s3)" "t_reference u = t_reference t"
  shows "(\<exists>e. r = Inl e) \<and> data_of s3 = data_of s2
    \<and> TransferByReference l (t_reference t) s3 = (Inr (t', tid), s3)
    \<and> length (filter (\<lambda>q. tr_reference q = t_reference t) (transfers s3)) = 1"
proof -
  have r1: "reachable s1" using assms(1,2) by (auto intro: reachable_step step_post)
  have r2: "reachable s2" using r1 assms(3) unfolding reachable_def by (metis rtranclp_trans)
  have r3: "reachable s3" using r2 assms(4) by (auto intro: reachable_step step_post)
  from Post_success [OF assms(2)] have "TransferByReference l (t_reference t) s1 = (Inr (t', tid), s1)"
    using read_back [OF reachable_wf [OF assms(1)]] by blast
  then obtain row where row: "find_row tr_reference (t_reference t) (transfers s1) = Some row" "t' = transfer_of_row s1 row" "tid = tr_id row"
    by (auto simp: TransferByReference_def)
  have at2: "find_row tr_reference (t_reference t) (transfers s2) = Some row"
    using still_read_later [OF r1 assms(3) row(1)] by blast
  have "ledger_step\<^sup>*\<^sup>* s1 s3" using assms(3,4) by (auto intro: rtranclp.rtrancl_into_rtrancl step_post)
  from still_read_later [OF r1 this row(1)]
  have at3: "find_row tr_reference (t_reference t) (transfers s3) = Some row" "transfer_of_row s3 row = t'" using row(2) by simp_all
  have "t_reference u \<in> tr_reference ` set (transfers s2)" using find_row_SomeD [OF at2] assms(5) by force
  then have "\<nexists>x s'. Post New now' u s2 = (Inr x, s')" unfolding Post_iff [OF r2] by (simp add: acceptable_def)
  with assms(4) obtain e where e: "r = Inl e" by (cases r) auto
  then have same: "data_of s3 = data_of s2" using failed_Post assms(4) by blast
  have "TransferByReference l (t_reference t) s3 = (Inr (t', tid), s3)"
    using at3 row(3) wf_clean [OF reachable_wf [OF r3]] by (simp add: TransferByReference_def)
  moreover have "filter (\<lambda>q. tr_reference q = t_reference t) (transfers s3) = [row]"
    using filter_one_key [of tr_reference "transfers s3" row] reachable_wf [OF r3] find_row_SomeD [OF at3(1)]
    by (simp add: wf_db_def journal_wf_def)
  ultimately show ?thesis using e same by simp
qed

theorem retry_posts_once_witness:
  "\<exists>e s'. Post New noon sale sold_db = (Inl e, s') \<and> data_of s' = data_of sold_db"
proof -
  obtain r s' where run: "Post New noon sale sold_db = (r, s')" by fastforce
  from retry_posts_once [OF reachable_opened_db Post_sale rtranclp.rtrancl_refl run refl, of New]
  have "(\<exists>e. r = Inl e) \<and> data_of s' = data_of sold_db" by (elim conjE) (intro conjI)
  with run show ?thesis by auto
qed

end
