(* ===== verification/Spec2Isabelle.thy ===== *)
theory Spec2Isabelle
  imports Acceptance Verify Reconcile Idempotency Service Operator Waiting
begin

text \<open>
  Sumzero is a double-entry ledger on Postgres: a Go package (\<open>src/ledger\<close>), a REST layer
  over it (\<open>src/httpapi\<close>), a command (\<open>src/cmd/sumzero\<close>) and the schema with its runner
  (\<open>src/migrations\<close>). This library models the Go code and the SQL it sends, and
  proves what makes the ledger correct.

  \<^bold>\<open>How the program is represented\<close>

  \<^item> A table is the list of its rows in insertion order, the database a record \<open>db\<close> of the
    tables and identity sequences (\<open>Schema\<close>). A SQL statement is a function on it, with
    the constraints, foreign keys and unique indexes of \<open>src/migrations/*.sql\<close> as error branches.
  \<^item> A Go method is a function \<open>db => (error + value) * db\<close> of the same name, with the guards, early
    returns and statements in the order of the code. Every sentinel of
    \<open>src/ledger/errors.go\<close> is a constructor of \<open>ledger_error\<close>; \<open>errors.Is\<close> is equality of
    constructors, the wrapped message text is dropped.
  \<^item> Go's \<open>int64\<close> is \<open>64 word\<close> and wraps; Postgres' \<open>numeric\<close> sums are \<open>int\<close> and a scan into
    \<open>int64\<close> can fail (\<open>scan64\<close>). A \<open>time.Time\<close> is an \<open>int\<close> of nanoseconds since 1970, the zero time
    is year 1. Clocks (\<open>time.Now()\<close>, SQL \<open>now()\<close>) are arguments.
  \<^item> A \<open>Ledger\<close> from \<open>New\<close> owns its transactions, one from \<open>NewTx\<close> runs inside the
    caller's: \<open>inTx\<close> commits or rolls back only in the first case, and a statement error
    aborts the caller's transaction in the second.
  \<^item> Transactions are serialised: one call is one step of \<open>ledger_step\<close> (\<open>Steps\<close>). The code
    obtains that with row locks and the advisory lock \<open>chainLockKey\<close>: \<open>Isolation\<close> shows what they keep from
    changing, whatever commits beside them (\<open>locks_protect\<close>), and \<open>Waiting\<close> that a \<open>post\<close>, a \<open>Capture\<close> or a \<open>Reverse\<close> which waits
    between its locks, or between its transactions, ends as one that runs at once, and that posting again after a lost answer is harmless. Only \<open>Verify\<close>, whose
    statements see different snapshots, takes one state per statement.

  \<^bold>\<open>Theories\<close>

  \<^item> \<open>Prelude\<close>: machine integers, programs with errors, association lists, the invariant locale.
  \<^item> \<open>Errors\<close>, \<open>Money\<close>, \<open>Account\<close>, \<open>Journal\<close>: \<open>errors.go\<close>, \<open>money.go\<close>, \<open>account.go\<close> and
    \<open>transfer.go\<close> of the ledger package: \<open>validCurrency\<close>, the JSON form of money, \<open>Net\<close>, \<open>Validate\<close>.
  \<^item> \<open>Bytes\<close>, \<open>Chain\<close>: \<open>chain.go\<close> with SHA-256 written out; the encoding is injective and the
    chain commits to the journal up to a collision (locale \<open>digest_function\<close>).
  \<^item> \<open>Schema\<close>, \<open>Store\<close>, \<open>Posting_Facts\<close>, \<open>Holds\<close>: the tables and statements, \<open>store.go\<close>
    (\<open>CreateAccount\<close>, \<open>Archive\<close>, \<open>Post\<close>, \<open>Reverse\<close>), \<open>hold.go\<close> (\<open>Hold\<close>, \<open>Capture\<close>, \<open>Release\<close>, \<open>ExpireHolds\<close>,
    \<open>Available\<close>), and what each does when it succeeds.
  \<^item> \<open>Steps\<close>: the state machine over all of them and the locale \<open>ledger_invariant\<close>, the contract
    between an invariant and the eight ways an operation commits. Interpreted in
    \<open>Well_Formed\<close> (keys, references, foreign keys), \<open>Books\<close> (balances are sums of postings), \<open>Guard\<close>
    (overdraft guard), \<open>History\<close> (append-only journal); and through \<open>journal_invariant\<close>, its case for properties
    of the journal alone, in \<open>Verify\<close> (hash chain) and \<open>Acceptance\<close> (stored transfers are valid).
  \<^item> \<open>Query\<close>, \<open>Verify\<close>, \<open>Reconcile\<close>: \<open>query.go\<close>, \<open>verify.go\<close> and \<open>reconcile.go\<close>.
  \<^item> \<open>Idempotency\<close>: \<open>idempotency.go\<close>; the locale \<open>key_store\<close> is what the middleware relies on; a sweep is never noticed.
  \<^item> \<open>Outcomes\<close>: what a caller may conclude from the result of one call. \<open>Acceptance\<close>: the specifications
    \<open>acceptable\<close> and \<open>hold_admits\<close>, over the integers, and that \<open>Post\<close>, \<open>Reverse\<close>, \<open>Hold\<close> and \<open>Capture\<close> succeed exactly where
    they say. \<open>Sample\<close>: a run of the model, the state the witnesses are about.
  \<^item> \<open>Timestamps\<close>, \<open>Durations\<close>, \<open>Requests\<close>: \<open>time.Parse\<close>, \<open>time.ParseDuration\<close> and the printing of a day, for the layouts used,
    and the strict decoding of the request bodies from the parsed JSON value.
  \<^item> \<open>Http\<close>, \<open>Api\<close>: \<open>errors.go\<close> and \<open>api.go\<close> of \<open>src/httpapi\<close>: requests, responses, the error table, \<open>ServeMux\<close>; every
    handler, the two middlewares of the file and the router \<open>New\<close> (\<open>New_handler\<close>). The middleware of go-idempotent is the
    parameter \<open>keyed\<close>, with the hypothesis \<open>runs_at_most_once\<close>.
  \<^item> \<open>Api_Facts\<close>, \<open>Service\<close>: the locale \<open>request_frame\<close>, the contract between router and handlers, interpreted with the
    steps of the ledger and with \<open>no money moved\<close>; the properties of the served ledger, of requests interleaved with
    \<open>housekeeping\<close>.
  \<^item> \<open>Migrate\<close>, \<open>Printing\<close>, \<open>Csv\<close>, \<open>Cli\<close>, \<open>Operator\<close>: \<open>migrations.go\<close> and \<open>main.go\<close>: \<open>Apply\<close>, the printed reports, \<open>csv.Reader\<close>,
    the dispatch, flags, dates and exit codes of the command, the server from its flags to the end of its shutdown as a
    function of the events that reach it, and what they promise.
  \<^item> \<open>Lock_Order\<close>, \<open>Isolation\<close>, \<open>Waiting\<close>: which locks each writing call takes in which order, as transactions that interleave;
    ascending ones never deadlock; what a held lock keeps others from changing; calls that wait.
  \<^item> This theory: the properties that span components.

  \<^bold>\<open>Bounds\<close>

  The digest is computed over \<open>UnixNano\<close>, which wraps, of instants cut to whole microseconds: two of them
  closer than \<open>125 * 2^64\<close> nanoseconds (73,000 years) are told apart, which \<open>chain_bytes_inj\<close> and what
  rests on it assume. The books hold modulo \<open>2^64\<close>
  without a hypothesis; over the integers they need that no transfer moves \<open>2^63\<close> minor units
  or more in total (\<open>all_small\<close>), and \<open>Validate_accepts_wrapped_net\<close> shows that
  \<open>Validate\<close> does not ensure it; what the reads and the audit then answer is part of \<open>Post_reads_back\<close>, \<open>BalanceAsOf_agrees\<close> and
  \<open>Verify_passes\<close>. No definition uses fuel: every loop of the code runs over a
  finite list, and the recursions are structural or have a proved measure.

  \<^bold>\<open>Not modelled\<close>

  \<^item> Connection failures and cancelled contexts, which can end any statement with an error; the
    ambiguous commit after a lost connection.
  \<^item> Strings that Postgres rejects (NUL, invalid UTF-8), the blank padding of \<open>char(3)\<close>, and a
    collation other than byte order in \<open>ORDER BY\<close> on text.
  \<^item> The time to live of a key is cut to whole microseconds; Postgres rounds it. The schema a migration creates is a state of its own,
    beside the tables of the ledger, which take it as given. Instants are compared as instants: \<open>POST\<close> answers in UTC, \<open>GET\<close> in
    the driver's zone.
  \<^item> Columns no code reads back: \<open>created_at\<close> of accounts and transfers, \<open>updated_at\<close>. Instants outside Postgres'
    \<open>timestamptz\<close>. The elapsed time in a report is a text of the surroundings.
  \<^item> The iteration order of a Go map in \<open>applyBalances\<close>: the updates touch different rows and
    commute; the model takes first-touched order.
  \<^item> \<open>Post\<close> writes the resolved instant into the caller's \<open>Transfer\<close> even when it fails later; the model
    returns the updated transfer on success only.
  \<^item> Message texts of wrapped errors, log output.
  \<^item> Of the REST layer: the text of JSON documents, so escapes inside a timestamp and repeated members that Go would merge
    into an earlier array; names that differ from a field's in more than ASCII case; requests with an unclean path, which
    \<open>ServeMux\<close> redirects; the headers the server adds.
  \<^item> Of the command: when signals, ticks and requests come (they are a list of events), the address it listens on, the JSON
    text of a report and of the log, errors on standard error, failing reads of the CSV file.
  \<^item> Of the locks: the implicit ones of foreign keys and unique indexes other than on new accounts and holds; Postgres' detection of the
    deadlock that \<open>capture_can_deadlock\<close> exhibits.
\<close>

section \<open>Invariants of every reachable ledger\<close>

text \<open>
  C14: Every state reached by \<open>CreateAccount\<close>, \<open>Archive\<close>, \<open>Post\<close>, \<open>Reverse\<close>, \<open>Hold\<close>, \<open>Capture\<close>, \<open>Release\<close> and
  \<open>ExpireHolds\<close>, whatever their arguments, clocks and outcomes, is well formed: ids and
  references are unique, ids ascend and stay within their sequences, every posting and hold is in its
  account's currency with a positive amount, every account has one balance row, a transfer
  reverses at most one existing transfer and no transfer is reversed twice, a hold names a transfer
  exactly when it is captured.
\<close>

theorem ledger_well_formed:
  assumes "reachable s"
  shows "wf_db s"
  using assms by (rule reachable_wf)

theorem ledger_well_formed_witness: "wf_db captured_db"
  by (rule ledger_well_formed) (rule reachable_captured_db)

text \<open>
  C15: In every reachable ledger, with no bound on the amounts, the books hold modulo \<open>2^64\<close>: each
  cached balance is the \<open>int64\<close> sum of its account's postings, each transfer nets to zero
  in every currency, and the account balances of each currency add up to zero.
\<close>

theorem books_balance_modulo:
  assumes "reachable s"
  shows "balance_of s acc = posted_sum s acc
    \<and> (t \<in> set (transfers s) \<longrightarrow> sum_list (map signed_of (filter (\<lambda>p. p_currency p = c) (postings_of s (tr_id t)))) = 0)
    \<and> trial_sum s c = 0"
  using reachable_books [OF assms] trial_sum_zero
  by (simp add: books_ok_def balances_match_def transfers_balanced_def)

theorem books_balance_modulo_witness:
  "balance_of sold_db ''cash'' = posted_sum sold_db ''cash''
    \<and> sum_list (map signed_of (filter (\<lambda>p. p_currency p = ''EUR'')
          (postings_of sold_db (tr_id (new_row opened_db 1 posted_sale))))) = 0
    \<and> trial_sum sold_db ''EUR'' = 0"
  using books_balance_modulo [OF reachable_sold_db, of "''cash''" "new_row opened_db 1 posted_sale" "''EUR''"]
  by simp

text \<open>
  C2: Without wrap-around: in a reachable ledger whose transfers each move less than \<open>2^63\<close> minor
  units, every cached balance equals, over the integers, the sum of its account's postings as Postgres computes it, and
  every transfer's debits equal its credits in every currency.
\<close>

theorem books_balance_exactly:
  assumes "reachable s" "all_small s"
  shows "sint (balance_of s acc) = exact_sum s acc
    \<and> (\<forall>t \<in> set (transfers s). exact_net (postings_of s (tr_id t)) c = 0)"
  using reachable_exact [OF assms] reachable_exact_net [OF assms] by simp

theorem books_balance_exactly_witness:
  "sint (balance_of sold_db ''sales'') = exact_sum sold_db ''sales''
    \<and> exact_net (postings_of sold_db (tr_id (new_row opened_db 1 posted_sale))) ''EUR'' = 0"
  using books_balance_exactly [OF reachable_sold_db all_small_sold, of "''sales''" "''EUR''"] by simp

lemma Available_run:
  assumes "reachable s" "a \<in> set (accounts s)" "\<not> a_allow_negative a"
    and "normal_side (a_type a) (sint (balance_of s (a_id a))) < 2 ^ 63"
  shows "\<exists>m. Available l (a_id a) s = (Inr m, s) \<and> m_currency m = a_currency a \<and> sint (m_amount m) = available s a 0"
proof -
  let ?side = "normal_side (a_type a) (sint (balance_of s (a_id a)))" and ?held = "held_sum s (a_id a) 0"
  have wf: "wf_db s" using assms(1) by (rule reachable_wf)
  have "0 \<le> ?held" "?held \<le> ?side"
    using reachable_guarded [OF assms(1)] assms(2,3) held_nonneg [OF wf] by (auto simp: guarded_def covered_def available_def)
  with assms(4) have fits: "fits64 ?held" "fits64 (?side - ?held)" by (simp_all add: fits64_def)
  have "availableLocked a 0 s = (Inr (normalise (balance_of s (a_id a)) (a_type a) - word_of_int ?held), s)"
    using fits(1) wf_clean [OF wf] by (simp add: availableLocked_Inr)
  moreover have "sint (normalise (balance_of s (a_id a)) (a_type a) - word_of_int ?held) = available s a 0"
    unfolding normalise_diff_sint sint_of_int64 [OF fits(2)] by (simp add: available_def)
  moreover have "inTx l m s = (Inr x, s)" if "m s = (Inr x, s)" for m :: "int64 run" and x using that by simp
  ultimately show ?thesis
    using Account_wf [OF wf assms(2), of l] by (simp add: Available_def and_then_run_Inr)
qed

text \<open>
  C1: The overdraft guard holds at all times: in every reachable ledger an account opened without
  \<open>AllowNegative\<close> has a balance, on its normal side, that covers all its active holds, so
  neither its balance nor its available balance is below zero. And \<open>Available\<close> says how much that leaves: it answers the difference,
  exactly, unless the balance on the normal side is \<open>2^63\<close>, the one value that \<open>int64\<close> cannot hold.
\<close>

theorem no_overdraft:
  assumes "reachable s" "a \<in> set (accounts s)" "\<not> a_allow_negative a"
  shows "0 \<le> held_sum s (a_id a) 0 \<and> held_sum s (a_id a) 0 \<le> normal_side (a_type a) (sint (balance_of s (a_id a)))
    \<and> (normal_side (a_type a) (sint (balance_of s (a_id a))) \<noteq> 2 ^ 63 \<longrightarrow>
        (\<exists>m. Available l (a_id a) s = (Inr m, s) \<and> m_currency m = a_currency a
          \<and> sint (m_amount m) = normal_side (a_type a) (sint (balance_of s (a_id a))) - held_sum s (a_id a) 0))"
proof -
  have "normal_side (a_type a) (sint (balance_of s (a_id a))) \<le> 2 ^ 63"
    using sint64_ge [of "balance_of s (a_id a)"] sint64_lt [of "balance_of s (a_id a)"] by (simp add: normal_side_def)
  then show ?thesis
    using reachable_guarded [OF assms(1)] assms(2,3) held_nonneg [OF reachable_wf [OF assms(1)]] Available_run [OF assms]
    by (auto simp: guarded_def covered_def available_def)
qed

theorem no_overdraft_witness:
  "0 \<le> held_sum held_db (a_id sales) 0
    \<and> held_sum held_db (a_id sales) 0 \<le> normal_side (a_type sales) (sint (balance_of held_db (a_id sales)))
    \<and> (\<exists>m. Available New (a_id sales) held_db = (Inr m, held_db) \<and> sint (m_amount m) = 300)"
proof -
  have side: "normal_side (a_type sales) (sint (balance_of held_db (a_id sales))) = 500" "held_sum held_db (a_id sales) 0 = 200"
    by (simp_all add: sample_simps placed_hold_def)
  have "reachable held_db" "sales \<in> set (accounts held_db)" "\<not> a_allow_negative sales"
    by (rule reachable_held_db) simp_all
  from no_overdraft [OF this, of New] show ?thesis unfolding side by auto
qed

text \<open>
  C12: History is append-only. From a reachable ledger, whatever happens later, the transfers and
  postings already stored stay as they are and in place; accounts keep their type, currency and
  overdraft policy and are never unarchived; a hold keeps its account and amount and, once captured, released or
  expired, never changes again.
\<close>

theorem history_is_append_only:
  assumes "reachable s" "ledger_step\<^sup>*\<^sup>* s s'"
  shows "prefix (transfers s) (transfers s') \<and> prefix (postings s) (postings s')
    \<and> (\<forall>a \<in> set (accounts s). \<exists>a' \<in> set (accounts s'). same_account a a')
    \<and> (\<forall>h \<in> set (holds s). \<exists>h' \<in> set (holds s'). same_hold h h')"
  using later_extends [OF assms] by (simp add: extends_def)

theorem history_is_append_only_witness:
  "prefix (transfers held_db) (transfers captured_db) \<and> prefix (postings held_db) (postings captured_db)
    \<and> (\<exists>a' \<in> set (accounts captured_db). same_account cash a')
    \<and> (\<exists>h' \<in> set (holds captured_db). same_hold placed_hold h')"
proof -
  have "ledger_step\<^sup>*\<^sup>* held_db captured_db"
    by (rule r_into_rtranclp, rule step_capture, rule Capture_held)
  from history_is_append_only [OF reachable_held_db this] show ?thesis by simp
qed

section \<open>The hash chain and the audit\<close>

text \<open>
  C4: In every reachable ledger the stored transfers, in id order, form an intact hash chain: each
  names its predecessor's hash, and each hash is the SHA-256 digest of the bytes of the
  transfer as it reads back from the tables.
\<close>

theorem ledger_chain_intact:
  assumes "reachable s"
  shows "chain_ok sha256 [] (stored_chain s)"
  using reachable_chained [OF assms] by (simp add: chained_stored)

theorem ledger_chain_intact_witness: "chain_ok sha256 [] (stored_chain captured_db)"
  by (rule ledger_chain_intact) (rule reachable_captured_db)

text \<open>
  C5: \<open>checkChain\<close> is exact. On any tables with distinct transfer ids, reachable or tampered with,
  its walk over the joined rows adds no problem to the report if and only if the stored transfers form an intact
  hash chain.
\<close>

theorem checkChain_exact:
  assumes "distinct (map tr_id (transfers s))"
  shows "chain_problems (chain_rows s) = [] \<longleftrightarrow> chain_ok sha256 [] (stored_chain s)"
  using assms by (rule chain_problems_Nil_iff)

theorem checkChain_exact_witness:
  "chain_problems (chain_rows sold_db) = [] \<longleftrightarrow> chain_ok sha256 [] (stored_chain sold_db)"
  by (rule checkChain_exact) simp

text \<open>
  \<open>checkChain\<close> cannot see that the newest transfers are gone: dropping any number of rows from the
  end of an intact ledger's \<open>transfers\<close>, with their postings left in place or not, leaves a chain it reports nothing about.
\<close>

lemma checkChain_misses_truncation:
  assumes "chain_ok sha256 [] (map (link_of_row s) ts)" "sorted (map tr_id ts)" "distinct (map tr_id ts)"
    and "transfers s' = take n ts" "\<And>t. t \<in> set (take n ts) \<Longrightarrow> postings_of s' (tr_id t) = postings_of s (tr_id t)"
  shows "chain_problems (chain_rows s') = []"
proof -
  have dist: "distinct (map tr_id (transfers s'))"
    unfolding assms(4) take_map [symmetric] by (rule distinct_take) (rule assms(3))
  have "sorted (map tr_id (transfers s'))"
    unfolding assms(4) take_map [symmetric] by (rule sorted_wrt_take) (rule assms(2))
  then have "stored_chain s' = map (link_of_row s') (take n ts)"
    by (simp add: stored_chain_def sort_key_id_if_sorted assms(4))
  also have "\<dots> = map (link_of_row s) (take n ts)"
    using assms(5) by (simp add: link_of_row_def transfer_of_row_def)
  finally have "chain_ok sha256 [] (stored_chain s')"
    using assms(1) chain_ok_append_left [of sha256 "[]" "map (link_of_row s) (take n ts)" "map (link_of_row s) (drop n ts)"]
    by (simp flip: map_append)
  with chain_problems_Nil_iff [OF dist] show ?thesis by simp
qed

lemma truncation_unseen_in_sample:
  "chain_problems (chain_rows (sold_db\<lparr>transfers := []\<rparr>)) = []"
proof (rule checkChain_misses_truncation [where n = 0 and s = sold_db and ts = "transfers sold_db"])
  have "sort_key tr_id (transfers sold_db) = transfers sold_db" by simp
  with reachable_chained [OF reachable_sold_db]
  show "chain_ok sha256 [] (map (link_of_row sold_db) (transfers sold_db))"
    unfolding chained_stored stored_chain_def by simp
qed simp_all

lemma four_debits_posted:
  "\<exists>tid t s'. Post New noon four_debits opened_db = (Inr (tid, t), s') \<and> reachable s'
     \<and> (\<exists>r \<in> set (transfers s'). postings_of s' (tr_id r) = t_postings four_debits)"
proof -
  have val: "Validate four_debits = None" using Validate_accepts_wrapped_net by simp
  have "delta_of (t_postings four_debits) ''cash'' = 0" by code_simp
  then have "account_admits opened_db 0 four_debits cash"
    by (simp add: account_admits_def new_balance_def) (simp add: sample_simps cash_def)
  then have "acceptable opened_db 0 four_debits"
    unfolding acceptable_def using val
    by (simp add: room_for_def max_id_def reversal_free_def) (simp add: four_debits_def quarter_debit_def cash_def Amount_def)
  with acceptable_posts [OF reachable_wf [OF reachable_opened_db], of 0 four_debits noon] obtain tid t s'
    where post: "post noon four_debits 0 opened_db = (Inr (tid, t), s')" by auto
  then have run: "Post New noon four_debits opened_db = (Inr (tid, t), s')" using val by (simp add: Post_def)
  have "t_postings t = t_postings four_debits"
    using post_fields [OF post wf_keys_ok [OF reachable_wf [OF reachable_opened_db]]] by simp
  moreover have "\<exists>r \<in> set (transfers s'). postings_of s' (tr_id r) = t_postings t"
  proof -
    from post_success [OF post wf_keys_ok [OF reachable_wf [OF reachable_opened_db]]] obtain bs
      where "s' = post_state opened_db tid t bs" by blast
    then show ?thesis using postings_after_post [OF reachable_wf [OF reachable_opened_db] val post] by simp
  qed
  ultimately show ?thesis using run reachable_step [OF reachable_opened_db step_post [OF run]] by auto
qed

text \<open>
  C3: The audit of a ledger that only the code has written. Whatever reachable states the five queries of \<open>Verify\<close> see, it reports
  no problem, and its counts are the row counts of the first snapshot. It returns without an error if and only if every transfer nets
  to zero in every currency, every cached balance is the sum of its postings and every currency adds up to zero, all over the
  integers. So it passes whenever no transfer moves \<open>2^63\<close> minor units or more; where the \<open>int64\<close> arithmetic of \<open>Net\<close> or
  \<open>applyBalances\<close> has wrapped, the difference is a multiple of \<open>2^64\<close> that cannot be scanned, and the audit stops with that error instead of
  reporting an imbalance.
\<close>

theorem Verify_passes:
  assumes "reachable s0" "reachable s1" "reachable s2" "reachable s3" "reachable s4"
  shows "Verify s0 s1 s2 s3 s4 =
    (if (\<forall>t \<in> set (transfers s1). \<forall>c. exact_net (postings_of s1 (tr_id t)) c = 0)
        \<and> (\<forall>a \<in> set (accounts s2). sint (balance_of s2 (a_id a)) = exact_sum s2 (a_id a))
        \<and> (\<forall>c. sum_list (map (\<lambda>a. sint (balance_of s3 (a_id a))) (filter (\<lambda>a. a_currency a = c) (accounts s3))) = 0)
     then Inr () else Inl ScanOutOfRange,
     \<lparr>rp_accounts = int (length (accounts s0)), rp_transfers = int (length (transfers s0)),
      rp_postings = int (length (postings s0)), rp_problems = []\<rparr>)
    \<and> (all_small s1 \<and> all_small s2 \<and> all_small s3 \<longrightarrow> fst (Verify s0 s1 s2 s3 s4) = Inr ())"
proof
  show "all_small s1 \<and> all_small s2 \<and> all_small s3 \<longrightarrow> fst (Verify s0 s1 s2 s3 s4) = Inr ()"
    using Verify_sound [OF assms] by simp
qed (simp only: Verify_exactly [OF assms] exact_nets_def exact_cache_def exact_trial_def)

theorem Verify_passes_witness:
  "fst (Verify sold_db sold_db held_db sold_db captured_db) = Inr ()
    \<and> (\<exists>s. snd (Post New noon four_debits opened_db) = s \<and> fst (Verify s s s s s) = Inl ScanOutOfRange)"
proof
  have "transfers held_db = transfers sold_db" "postings held_db = postings sold_db" by simp_all
  with all_small_sold have "all_small held_db" by (simp add: all_small_def postings_of_def)
  with all_small_sold
    Verify_passes [OF reachable_sold_db reachable_sold_db reachable_held_db reachable_sold_db reachable_captured_db]
  show "fst (Verify sold_db sold_db held_db sold_db captured_db) = Inr ()" by blast
  from four_debits_posted obtain tid t s' r where run: "Post New noon four_debits opened_db = (Inr (tid, t), s')"
    and s': "reachable s'" and r: "r \<in> set (transfers s')" "postings_of s' (tr_id r) = t_postings four_debits" by blast
  have "exact_net (postings_of s' (tr_id r)) ''EUR'' \<noteq> 0" using Validate_accepts_wrapped_net r(2) by simp
  with r(1) have "\<not> (\<forall>t \<in> set (transfers s'). \<forall>c. exact_net (postings_of s' (tr_id t)) c = 0)" by blast
  with run Verify_passes [OF s' s' s' s' s', THEN conjunct1]
  show "\<exists>s. snd (Post New noon four_debits opened_db) = s \<and> fst (Verify s s s s s) = Inl ScanOutOfRange" by simp
qed

section \<open>Operations\<close>

text \<open>
  C7: A posted transfer reads back. After a successful \<open>Post\<close> in a reachable ledger,
  \<open>TransferByReference\<close> returns the transfer as it was given, with its resolved instant, all
  its postings in order, its reversal link and the id \<open>Post\<close> returned; accounts and holds are untouched. Every
  balance has moved by the sum of the transfer's postings in that account modulo \<open>2^64\<close>, in the range of \<open>int64\<close>, and the addition to
  the balance itself never wraps. Where that sum fits \<open>int64\<close>, in every account of a transfer that moves less than \<open>2^63\<close> in all, the
  balance has moved by exactly the sum.
\<close>

theorem Post_reads_back:
  assumes "reachable s" "Post New now t0 s = (Inr (tid, t), s')"
  shows "t = t0\<lparr>t_posted_at := resolve_posted_at now t0\<rparr>
    \<and> TransferByReference l (t_reference t0) s' = (Inr (t, tid), s')
    \<and> accounts s' = accounts s \<and> holds s' = holds s
    \<and> (\<forall>acc. sint (balance_of s' acc) = sint (balance_of s acc) + sint (word_of_int (exact_move (t_postings t0) acc) :: int64))
    \<and> (\<forall>acc. fits64 (exact_move (t_postings t0) acc) \<longrightarrow>
         sint (balance_of s' acc) = sint (balance_of s acc) + exact_move (t_postings t0) acc)
    \<and> (volume (t_postings t0) < 2 ^ 63 \<longrightarrow> (\<forall>acc. fits64 (exact_move (t_postings t0) acc)))"
proof -
  have wf: "wf_db s" using assms(1) by (rule reachable_wf)
  from Post_success [OF assms(2)] have val: "Validate t0 = None" and post: "post now t0 0 s = (Inr (tid, t), s')" by auto
  from post_success [OF post wf_keys_ok [OF wf]] obtain bs where s': "s' = post_state s tid t bs"
    and t: "t = t0\<lparr>t_posted_at := resolve_posted_at now t0\<rparr>"
    and bal: "\<forall>a. bal_of bs a = bal_of (balances s) a + sint (delta_of (t_postings t) a)" by blast
  have "\<forall>p \<in> set (t_postings t0). valid_dir (p_dir p)" using Validate_good [OF val] by (auto simp: good_posting_def)
  note delta = delta_of_exact [OF this]
  have "fits64 (exact_move (t_postings t0) acc)" if "volume (t_postings t0) < 2 ^ 63" for acc
    using abs_exact_move [of "t_postings t0" acc] that by (auto simp: fits64_def abs_le_iff)
  with read_back [OF wf val post] bal t show ?thesis by (simp add: s' delta sint_of_int64)
qed

theorem Post_reads_back_witness:
  "TransferByReference New (t_reference sale) sold_db = (Inr (posted_sale, 1), sold_db)
    \<and> accounts sold_db = accounts opened_db \<and> holds sold_db = holds opened_db
    \<and> sint (balance_of sold_db ''sales'') = sint (balance_of opened_db ''sales'') - 500"
proof -
  have "exact_move (t_postings sale) ''sales'' = - 500"
    by (simp add: exact_move_def sale_def leg_def exact_of_def sql_signed_def Credit_def Debit_def)
  with Post_reads_back [OF reachable_opened_db Post_sale, of New] show ?thesis by (simp add: fits64_def)
qed

text \<open>
  C6: On a ledger that owns its connections, a failed operation leaves no trace: if \<open>CreateAccount\<close>, \<open>Post\<close>,
  \<open>Reverse\<close> or \<open>Hold\<close> returns an error, whichever and however late, then accounts, transfers,
  postings, balances and holds are what they were.
\<close>

theorem failure_leaves_no_trace:
  assumes "CreateAccount New a s = (Inl e, s') \<or> Post New now t s = (Inl e, s')
    \<or> Reverse New now ref newRef desc s = (Inl e, s') \<or> Hold New now req s = (Inl e, s')"
  shows "data_of s' = data_of s"
  using assms by (elim disjE) (erule failed_CreateAccount failed_Post failed_Reverse failed_Hold)+

theorem failure_leaves_no_trace_witness:
  "data_of (rollback sold_db overdrawn_db) = data_of sold_db"
proof (rule failure_leaves_no_trace [where t = overdraw and now = noon])
  show "CreateAccount New cash sold_db = (Inl ErrInsufficientFunds, rollback sold_db overdrawn_db)
    \<or> Post New noon overdraw sold_db = (Inl ErrInsufficientFunds, rollback sold_db overdrawn_db)
    \<or> Reverse New noon [] [] [] sold_db = (Inl ErrInsufficientFunds, rollback sold_db overdrawn_db)
    \<or> Hold New noon earmark sold_db = (Inl ErrInsufficientFunds, rollback sold_db overdrawn_db)"
    by (intro disjI2 disjI1) (simp add: Post_def inTx_def post_overdraw)
qed

text \<open>
  C40: On a ledger that runs inside the caller's transaction (\<open>NewTx\<close>) a failed \<open>Post\<close> can leave its writes
  behind: in a reachable ledger, \<open>Post\<close> refuses an overdraft with \<open>ErrInsufficientFunds\<close> after it has
  inserted the transfer, its postings and the new balances; the transaction is not aborted, so a caller that
  handles the error and commits keeps a transfer the ledger rejected and an account below zero.
\<close>

theorem embedded_failure_leaves_writes:
  "\<exists>s t s'. reachable s \<and> Post NewTx noon t s = (Inl ErrInsufficientFunds, s') \<and> \<not> tx_aborted s'
     \<and> t_reference t \<in> tr_reference ` set (transfers s') \<and> t_reference t \<notin> tr_reference ` set (transfers s)
     \<and> (\<exists>a \<in> set (accounts s'). \<not> a_allow_negative a \<and> normal_side (a_type a) (sint (balance_of s' (a_id a))) < 0)"
proof (intro exI conjI)
  show "reachable sold_db" by (rule reachable_sold_db)
  show "Post NewTx noon overdraw sold_db = (Inl ErrInsufficientFunds, overdrawn_db)"
    by (simp add: Post_def post_overdraw)
  show "\<not> tx_aborted overdrawn_db" by (simp add: overdrawn_db_def)
  show "t_reference overdraw \<in> tr_reference ` set (transfers overdrawn_db)"
    by (simp add: overdrawn_db_def)
  show "t_reference overdraw \<notin> tr_reference ` set (transfers sold_db)"
    by (simp add: overdraw_def posted_sale_def sale_def)
  show "\<exists>a \<in> set (accounts overdrawn_db). \<not> a_allow_negative a
      \<and> normal_side (a_type a) (sint (balance_of overdrawn_db (a_id a))) < 0"
    by (intro bexI [of _ sales])
       (simp_all add: overdrawn_db_def normal_side_def debitNormal_def account_type_defs bal_of_def)
qed

text \<open>
  C21: A reversal undoes its original. If \<open>Reverse\<close> succeeds in a reachable ledger, the new transfer carries
  the id of the original, mirrors its postings one by one, and takes back, in every
  account, what the original moved, in the \<open>int64\<close> arithmetic of the balances.
\<close>

theorem Reverse_undoes:
  assumes "reachable s" "Reverse New now ref newRef desc s = (Inr (tid, t), s')"
  shows "\<exists>orig \<in> set (transfers s). tr_reference orig = ref \<and> t_reverses t = tr_id orig
    \<and> t_postings t = mirror (postings_of s (tr_id orig))
    \<and> (\<forall>acc. balance_of s' acc = balance_of s acc - delta_of (postings_of s (tr_id orig)) acc)"
proof -
  from assms(2) obtain row where row: "find_row tr_reference ref (transfers s) = Some row"
    by (rule Reverse_success)
  from reversal_effect [OF reachable_wf [OF assms(1)] assms(2) row] find_row_SomeD [OF row] show ?thesis by blast
qed

theorem Reverse_undoes_witness:
  "\<exists>orig \<in> set (transfers sold_db). tr_reference orig = ''sale-1'' \<and> t_reverses (undo_sale\<lparr>t_posted_at := noon\<rparr>) = tr_id orig
    \<and> t_postings (undo_sale\<lparr>t_posted_at := noon\<rparr>) = mirror (postings_of sold_db (tr_id orig))
    \<and> (\<forall>acc. balance_of undone_db acc = balance_of sold_db acc - delta_of (postings_of sold_db (tr_id orig)) acc)"
  by (rule Reverse_undoes) (rule reachable_sold_db, rule Reverse_sale)

text \<open>
  A transfer is reversed at most once: in a reachable ledger that holds a reversal of a
  transfer, no call of \<open>Reverse\<close> on that transfer succeeds, in pooled or embedded mode, under any new reference.
\<close>

lemma Reverse_at_most_once:
  assumes "reachable s" "q \<in> set (transfers s)" "r \<in> set (transfers s)" "tr_reverses r = Some (tr_id q)"
  shows "\<exists>e s'. Reverse l now (tr_reference q) newRef desc s = (Inl e, s')"
proof (cases "Reverse l now (tr_reference q) newRef desc s")
  case (Pair v s')
  then show ?thesis
    using not_reversed_twice [OF reachable_wf [OF assms(1)] assms(2-4), of l now newRef desc]
    by (cases v) auto
qed

lemma undone_once:
  "\<exists>e s'. Reverse New noon (tr_reference (new_row opened_db 1 posted_sale)) ''undo-2'' [] undone_db = (Inl e, s')"
  by (rule Reverse_at_most_once [where r = "new_row sold_db 2 (undo_sale\<lparr>t_posted_at := noon\<rparr>)"])
     (rule reachable_undone_db, simp_all add: undone_db_def stored_reverses_def undo_sale_def)

section \<open>Holds\<close>

text \<open>
  A capture that comes too late posts nothing and says so once: on an active hold whose expiry has
  passed, a valid \<open>Capture\<close> in a reachable ledger fails with \<open>ErrHoldExpired\<close>, and the only
  change it commits is that hold's status, expired and closed.
\<close>

lemma Capture_past_due:
  assumes "reachable s" "Validate t0 = None" "find_row h_reference ref (holds s) = Some h"
    and "h_status h = HoldActive" "past_due now h"
  shows "Capture New now post_now pg_now ref t0 s = (Inl ErrHoldExpired,
     closed (\<lambda>h'. h_id h' = h_id h \<and> h_status h' = HoldActive) HoldExpired pg_now (\<lambda>x. x) s)"
proof -
  have wf: "wf_db s" using assms(1) by (rule reachable_wf)
  have "h_id h \<noteq> 0" using find_row_SomeD [OF assms(3)] wf_hold_amounts [OF wf] by force
  with wf_clean [OF wf] assms(2-5) show ?thesis by (intro capture_past_due)
qed

lemma Capture_past_due_sample:
  "Capture New (noon + 1000000000) noon (noon + 1000000000) ''hold-1'' refund expiring_db = (Inl ErrHoldExpired,
     closed (\<lambda>h'. h_id h' = h_id expiring_hold \<and> h_status h' = HoldActive) HoldExpired (noon + 1000000000) (\<lambda>x. x) expiring_db)"
  by (rule Capture_past_due)
     (simp_all add: reachable_expiring_db, simp_all add: expiring_db_def expiring_hold_def placed_hold_def past_due_def)





section \<open>Reads\<close>

text \<open>
  C31: History agrees with the cache. In a reachable ledger, and at an instant no transfer is later than, \<open>BalanceAsOf\<close> answers
  exactly what \<open>Balance\<close> answers from the cached row whenever the sum of the account's postings fits \<open>int64\<close>; otherwise it fails to
  scan it, and never gives a different number. The sum fits in every ledger whose transfers each move less than \<open>2^63\<close>. The
  database is not changed.
\<close>

theorem BalanceAsOf_agrees:
  assumes "reachable s" "a \<in> set (accounts s)" "\<forall>t \<in> set (transfers s). tr_posted_at t \<le> Truncate_us at"
  shows "BalanceAsOf l (a_id a) at s = (if fits64 (exact_sum s (a_id a)) then Balance l (a_id a) s else (Inl ScanOutOfRange, s))
    \<and> (all_small s \<longrightarrow> fits64 (exact_sum s (a_id a)))"
proof -
  have wf: "wf_db s" using assms(1) by (rule reachable_wf)
  have "all_small s \<longrightarrow> fits64 (exact_sum s (a_id a))" using reachable_exact [OF assms(1), symmetric] by simp
  then show ?thesis
    by (simp only: BalanceAsOf_wf [OF wf assms(2)] Balance_wf [OF wf assms(2)] history_sum_all [OF wf assms(3)]
        reachable_balance_word [OF assms(1)] simp_thms)
qed

theorem BalanceAsOf_agrees_witness: "BalanceAsOf New (a_id sales) noon sold_db = Balance New (a_id sales) sold_db"
proof -
  have "\<forall>t \<in> set (transfers sold_db). tr_posted_at t \<le> Truncate_us noon"
    by simp (simp add: posted_sale_def noon_def Truncate_us_def)
  from BalanceAsOf_agrees [OF reachable_sold_db _ this, of sales New] all_small_sold show ?thesis by simp
qed

text \<open>
  C32: A statement is what it says. For an existing account in a reachable ledger \<open>Statement\<close> answers with entries that
  are postings of that account in transfers inside the range, newest ledger date first with the id as
  tiebreaker. It returns at most as many as asked for, when that is between 1 and 1000, and at most 1000 when it is not, zero and negative limits
  included. A posting in the range is only left out of a full page, and is then no more recent than any entry of it. A page
  that is not full, from the beginning of time, adds up to the balance as of its end.
\<close>

theorem Statement_newest_first:
  assumes "reachable s" "a \<in> set (accounts s)"
  shows "let cap = (if 1 \<le> so_limit opt \<and> so_limit opt \<le> 1000 then nat (so_limit opt) else 1000) in
    \<exists>es. Statement l (a_id a) opt s = (Inr es, s) \<and> length es \<le> cap \<and> sorted (map recency es)
      \<and> (\<forall>e \<in> set es. \<exists>p \<in> set (postings s). \<exists>t \<in> set (transfers s). po_transfer_id p = tr_id t \<and> po_account_id p = a_id a
           \<and> in_range opt (tr_posted_at t) \<and> e = entry_of (p, t))
      \<and> (\<forall>p \<in> set (postings s). \<forall>t \<in> set (transfers s). po_transfer_id p = tr_id t \<and> po_account_id p = a_id a
           \<and> in_range opt (tr_posted_at t) \<longrightarrow> entry_of (p, t) \<in> set es
             \<or> length es = cap \<and> (\<forall>e \<in> set es. recency e \<le> recency (entry_of (p, t))))
      \<and> (length es < cap \<and> IsZero_time (so_from opt) \<and> \<not> IsZero_time (so_to opt)
           \<longrightarrow> sum_list (map entry_exact es) = history_sum s (a_id a) (so_to opt))"
proof -
  have wf: "wf_db s" using assms(1) by (rule reachable_wf)
  let ?rows = "statement_rows s (a_id a) opt"
  define cap where "cap = (if 1 \<le> so_limit opt \<and> so_limit opt \<le> 1000 then nat (so_limit opt) else 1000)"
  define es where "es = take cap ?rows"
  have "nat (statement_limit (so_limit opt)) = cap" by (auto simp: statement_limit_def cap_def)
  then have run: "Statement l (a_id a) opt s = (Inr es, s)" using Statement_run [OF wf assms(2)] by (simp add: es_def)
  have "e \<in> set ?rows" if "e \<in> set es" for e using that by (auto simp: es_def dest: in_set_takeD)
  note sound = this [unfolded statement_rows_iff [OF wf]]
  have full: "entry_of (p, t) \<in> set es \<or> length es = cap \<and> (\<forall>e \<in> set es. recency e \<le> recency (entry_of (p, t)))"
    if "p \<in> set (postings s)" "t \<in> set (transfers s)" "po_transfer_id p = tr_id t" "po_account_id p = a_id a"
      "in_range opt (tr_posted_at t)" for p t
    unfolding es_def using that
    by (intro take_sorted [OF statement_rows_sorted]) (auto simp: statement_rows_iff [OF wf])
  have "sum_list (map entry_exact es) = history_sum s (a_id a) (so_to opt)"
    if "length es < cap" "IsZero_time (so_from opt)" "\<not> IsZero_time (so_to opt)"
    using that statement_rows_sum [of opt s "a_id a"] sum_as_of_history [OF wf] by (simp add: es_def)
  moreover have "sorted (map recency es)"
    unfolding es_def take_map [symmetric] by (rule sorted_wrt_take) (rule statement_rows_sorted)
  ultimately show ?thesis
    unfolding Let_def cap_def [symmetric]
    using run sound full by (intro exI [of _ es]) (auto simp: es_def)
qed

definition full_statement :: StatementOptions where
  "full_statement = \<lparr>so_from = zero_time, so_to = noon, so_limit = 0\<rparr>"

theorem Statement_newest_first_witness:
  "\<exists>es. Statement New (a_id sales) full_statement sold_db = (Inr es, sold_db) \<and> length es \<le> 1000 \<and> es \<noteq> []"
proof -
  have cap: "(if 1 \<le> so_limit full_statement \<and> so_limit full_statement \<le> 1000 then nat (so_limit full_statement) else 1000) = 1000"
    by (simp add: full_statement_def)
  have "sales \<in> set (accounts sold_db)" by simp
  from Statement_newest_first [OF reachable_sold_db this, of full_statement New, unfolded cap Let_def]
  obtain es where es: "Statement New (a_id sales) full_statement sold_db = (Inr es, sold_db)" "length es \<le> 1000"
    and all: "\<forall>p \<in> set (postings sold_db). \<forall>t \<in> set (transfers sold_db). po_transfer_id p = tr_id t \<and> po_account_id p = a_id sales
           \<and> in_range full_statement (tr_posted_at t) \<longrightarrow> entry_of (p, t) \<in> set es
             \<or> length es = 1000 \<and> (\<forall>e \<in> set es. recency e \<le> recency (entry_of (p, t)))" by blast
  have "in_range full_statement noon"
    by (simp add: in_range_def nullTime_def full_statement_def IsZero_time_def noon_def zero_time_def Truncate_us_def)
  then have "\<exists>p \<in> set (postings sold_db). \<exists>t \<in> set (transfers sold_db). po_transfer_id p = tr_id t \<and> po_account_id p = a_id sales
           \<and> in_range full_statement (tr_posted_at t)"
    by (simp add: posted_sale_def sale_def leg_def posting_row_of_def sales_def)
  with all have "es \<noteq> []" by fastforce
  with es show ?thesis by blast
qed

text \<open>
  \<open>TrialBalance\<close> of a reachable ledger never shows an imbalance: every currency it reports has the sum
  zero; and when no transfer moves \<open>2^63\<close> minor units or more it always returns.
\<close>

lemma TrialBalance_is_zero:
  assumes "reachable s"
  shows "(\<forall>tb s'. TrialBalance l s = (Inr tb, s') \<longrightarrow> (\<forall>(c, v) \<in> set tb. v = 0))
    \<and> (all_small s \<longrightarrow> (\<exists>tb. TrialBalance l s = (Inr tb, s)))"
  using TrialBalance_zero [OF reachable_books [OF assms]] TrialBalance_exact [OF assms] by blast

lemma TrialBalance_is_zero_sample:
  "\<exists>tb. TrialBalance New sold_db = (Inr tb, sold_db) \<and> (\<forall>(c, v) \<in> set tb. v = 0)"
  using TrialBalance_is_zero [OF reachable_sold_db, of New] all_small_sold by blast

end
